(* ===== verification/GoPrelude.thy ===== *)
theory GoPrelude
  imports Main "HOL-Library.Word" "HOL-Library.AList" "HOL-Library.Char_ord"
    "HOL-Library.List_Lexorder"
begin

text \<open>
  The parts of the Go language and its standard library that every component uses: results
  that may be an error or a panic, nil-able maps, byte strings with the functions of package
  \<open>strings\<close> and \<open>strconv\<close> the sources call, and the printing of maps by \<open>fmt\<close>.
  Go strings are byte sequences, so they are HOL strings (lists of 8-bit characters).
\<close>



section \<open>Results, errors and panics\<close>

type_synonym error = string

text \<open>
  A call returns normally, returns a non-nil \<open>error\<close> value, or panics (nil dereference,
  index or slice out of range, an explicit panic of the library).
\<close>

datatype 'a result = Ok 'a | Err error | Panic error

primrec bind_result :: "'a result \<Rightarrow> ('a \<Rightarrow> 'b result) \<Rightarrow> 'b result" where
  "bind_result (Ok a) f = f a"
| "bind_result (Err e) f = Err e"
| "bind_result (Panic p) f = Panic p"

primrec is_panic :: "'a result \<Rightarrow> bool" where
  "is_panic (Ok _) \<longleftrightarrow> False"
| "is_panic (Err _) \<longleftrightarrow> False"
| "is_panic (Panic _) \<longleftrightarrow> True"

lemma bind_result_Ok_iff:
  "bind_result r f = Ok b \<longleftrightarrow> (\<exists>a. r = Ok a \<and> f a = Ok b)"
  by (cases r) auto

lemma is_panic_bind:
  "is_panic (bind_result r f) \<longleftrightarrow> is_panic r \<or> (\<exists>a. r = Ok a \<and> is_panic (f a))"
  by (cases r) auto

definition nil_deref :: error where
  "nil_deref = ''invalid memory address or nil pointer dereference''"

definition out_of_range :: error where
  "out_of_range = ''slice bounds out of range''"

text \<open>Slicing \<open>xs[:k]\<close>.\<close>

definition slice_to :: "int \<Rightarrow> 'a list \<Rightarrow> 'a list result" where
  "slice_to k xs = (if 0 \<le> k \<and> k \<le> int (length xs) then Ok (take (nat k) xs) else Panic out_of_range)"

section \<open>Maps\<close>

text \<open>
  A Go map value is nil or a map; reading a nil map finds nothing. Maps that the code ranges
  over are association lists (\<open>entries\<close>) with distinct keys, in some iteration order.
\<close>

type_synonym ('k, 'v) gomap = "('k \<rightharpoonup> 'v) option"

definition gomap_get :: "('k, 'v) gomap \<Rightarrow> 'k \<Rightarrow> 'v option" where
  "gomap_get m k = (case m of None \<Rightarrow> None | Some f \<Rightarrow> f k)"

lemma gomap_get_simps [simp]:
  "gomap_get None k = None"
  "gomap_get (Some f) k = f k"
  by (simp_all add: gomap_get_def)

type_synonym ('k, 'v) entries = "('k \<times> 'v) list"

section \<open>Strings\<close>

definition has_prefix :: "string \<Rightarrow> string \<Rightarrow> bool" where
  "has_prefix s p \<longleftrightarrow> take (length p) s = p"

definition has_suffix :: "string \<Rightarrow> string \<Rightarrow> bool" where
  "has_suffix s p \<longleftrightarrow> length p \<le> length s \<and> drop (length s - length p) s = p"

lemma has_prefix_iff: "has_prefix s p \<longleftrightarrow> (\<exists>t. s = p @ t)"
proof
  assume "has_prefix s p"
  then have "s = p @ drop (length p) s"
    by (metis append_take_drop_id has_prefix_def)
  then show "\<exists>t. s = p @ t" ..
qed (auto simp: has_prefix_def)

lemma has_suffix_iff: "has_suffix s p \<longleftrightarrow> (\<exists>t. s = t @ p)"
proof
  assume "has_suffix s p"
  then have "s = take (length s - length p) s @ p"
    by (metis append_take_drop_id has_suffix_def)
  then show "\<exists>t. s = t @ p" ..
qed (auto simp: has_suffix_def)

text \<open>\<open>strings.Split\<close> with a one-byte separator, and \<open>strings.Join\<close>.\<close>

fun split_on :: "char \<Rightarrow> string \<Rightarrow> string list" where
  "split_on c [] = [[]]"
| "split_on c (x # xs) =
     (if x = c then [] # split_on c xs
      else (case split_on c xs of [] \<Rightarrow> [[x]] | y # ys \<Rightarrow> (x # y) # ys))"

fun join_with :: "string \<Rightarrow> string list \<Rightarrow> string" where
  "join_with sep [] = []"
| "join_with sep [x] = x"
| "join_with sep (x # y # ys) = x @ sep @ join_with sep (y # ys)"

lemma split_on_not_Nil [simp]: "split_on c s \<noteq> []"
  by (induction s) (auto split: list.splits)

lemma split_on_pieces: "p \<in> set (split_on c s) \<Longrightarrow> c \<notin> set p"
proof (induction s arbitrary: p)
  case (Cons x xs)
  then show ?case
    by (cases "split_on c xs") (auto split: if_splits)
qed simp

lemma join_split: "join_with [c] (split_on c s) = s"
proof (induction s)
  case (Cons x xs)
  then show ?case
    by (cases "split_on c xs" rule: remdups_adj.cases) (auto split: list.splits)
qed simp

lemma split_no_sep: "c \<notin> set s \<Longrightarrow> split_on c s = [s]"
  by (induction s) auto

lemma split_append_sep:
  "c \<notin> set p \<Longrightarrow> split_on c (p @ c # s) = p # split_on c s"
  by (induction p) auto

lemma split_join:
  "ps \<noteq> [] \<Longrightarrow> \<forall>p\<in>set ps. c \<notin> set p \<Longrightarrow> split_on c (join_with [c] ps) = ps"
proof (induction "[c]" ps rule: join_with.induct)
  case (2 x)
  then show ?case by (simp add: split_no_sep)
next
  case (3 x y ys)
  then show ?case by (simp add: split_append_sep)
qed simp

text \<open>Single quotes around a text, as the messages have them.\<close>

definition sq :: "string \<Rightarrow> string" where
  "sq s = [CHR 0x27] @ s @ [CHR 0x27]"

text \<open>Decimal numbers: \<open>strconv.Itoa\<close> and \<open>strconv.Atoi\<close> (64-bit \<open>int\<close>).\<close>

fun nat_digits :: "nat \<Rightarrow> string" where
  "nat_digits n =
     (if n < 10 then [char_of (48 + n)] else nat_digits (n div 10) @ [char_of (48 + n mod 10)])"

declare nat_digits.simps [simp del]

definition itoa :: "int \<Rightarrow> string" where
  "itoa i = (if i < 0 then CHR ''-'' # nat_digits (nat (- i)) else nat_digits (nat i))"

definition digit_val :: "char \<Rightarrow> nat option" where
  "digit_val c = (let n = of_char c in if 48 \<le> n \<and> n \<le> 57 then Some (n - 48) else None)"

fun parse_digits :: "nat \<Rightarrow> string \<Rightarrow> nat option" where
  "parse_digits acc [] = Some acc"
| "parse_digits acc (c # cs) =
     (case digit_val c of None \<Rightarrow> None | Some d \<Rightarrow> parse_digits (10 * acc + d) cs)"

definition parse_nat :: "string \<Rightarrow> nat option" where
  "parse_nat s = (if s = [] then None else parse_digits 0 s)"

definition quoted :: "string \<Rightarrow> string" where
  "quoted s = CHR 0x22 # concat (map (\<lambda>c. if c = CHR 0x22 \<or> c = CHR 0x5C then [CHR 0x5C, c] else [c]) s) @ [CHR 0x22]"

definition atoi :: "string \<Rightarrow> error + int" where
  "atoi s =
     (let neg = (take 1 s = ''-'');
          body = (if neg \<or> take 1 s = ''+'' then drop 1 s else s)
      in case parse_nat body of
           None \<Rightarrow> Inl (''strconv.Atoi: parsing '' @ quoted s @ '': invalid syntax'')
         | Some n \<Rightarrow>
             (if (if neg then int n > 2 ^ 63 else int n \<ge> 2 ^ 63)
              then Inl (''strconv.Atoi: parsing '' @ quoted s @ '': value out of range'')
              else Inr (if neg then - int n else int n)))"

lemma nat_digits_not_Nil [simp]: "nat_digits n \<noteq> []"
  by (subst nat_digits.simps) simp

lemma parse_digits_append:
  "parse_digits a (xs @ ys) = (case parse_digits a xs of None \<Rightarrow> None | Some b \<Rightarrow> parse_digits b ys)"
  by (induction xs arbitrary: a) (auto split: option.splits)

lemma digit_val_char: "d < 10 \<Longrightarrow> digit_val (char_of (48 + d)) = Some d"
  by (simp add: digit_val_def)

lemma parse_nat_digits: "parse_digits 0 (nat_digits n) = Some n"
proof (induction n rule: nat_digits.induct)
  case (1 n)
  show ?case
  proof (cases "n < 10")
    case True
    then show ?thesis by (subst nat_digits.simps) (simp add: digit_val_char)
  next
    case False
    with "1.IH" show ?thesis
      by (subst nat_digits.simps) (simp add: parse_digits_append digit_val_char)
  qed
qed

lemma nat_digits_digit: "c \<in> set (nat_digits n) \<Longrightarrow> digit_val c \<noteq> None"
proof (induction n rule: nat_digits.induct)
  case (1 n)
  show ?case
  proof (cases "n < 10")
    case True
    with "1.prems" show ?thesis by (subst (asm) nat_digits.simps) (simp add: digit_val_char)
  next
    case False
    with "1.prems" consider "c \<in> set (nat_digits (n div 10))" | "c = char_of (48 + n mod 10)"
      by (subst (asm) nat_digits.simps) auto
    then show ?thesis using False "1.IH" by cases (auto simp: digit_val_char)
  qed
qed

lemma nat_digits_no_sign:
  "take (Suc 0) (nat_digits n) \<noteq> ''-''" "take (Suc 0) (nat_digits n) \<noteq> ''+''"
proof -
  have *: "c \<in> set (nat_digits n)" if "take (Suc 0) (nat_digits n) = [c]" for c
    using that by (metis in_set_takeD list.set_intros(1))
  have "digit_val (CHR ''-'') = None" "digit_val (CHR ''+'') = None"
    by (simp_all add: digit_val_def)
  with * show "take (Suc 0) (nat_digits n) \<noteq> ''-''" "take (Suc 0) (nat_digits n) \<noteq> ''+''"
    using nat_digits_digit by metis+
qed

lemma atoi_itoa:
  assumes "- (2 ^ 63) \<le> i" and "i < 2 ^ 63"
  shows "atoi (itoa i) = Inr i"
proof (cases "i < 0")
  case True
  with assms(1) show ?thesis
    by (simp add: atoi_def itoa_def parse_nat_def parse_nat_digits nat_le_eq_zle Let_def)
next
  case False
  with assms(2) show ?thesis
    by (simp add: atoi_def itoa_def nat_digits_no_sign parse_nat_def parse_nat_digits nat_less_iff Let_def)
qed

text \<open>\<open>fmt\<close> prints a \<open>map[string]string\<close> with \<open>%v\<close> sorted by key.\<close>

definition fmt_map :: "(string, string) entries \<Rightarrow> string" where
  "fmt_map m = ''map['' @ join_with '' '' (map (\<lambda>(k, v). k @ '':'' @ v) (sort_key fst m)) @ '']''"

text \<open>A multimap given as its pairs in order: the map from a key to all its values, as
  \<open>url.Values\<close> and \<open>http.Header\<close> are built.\<close>

definition group_values :: "('k \<times> 'v) list \<Rightarrow> ('k, 'v list) entries" where
  "group_values ps = map (\<lambda>k. (k, map snd (filter (\<lambda>p. fst p = k) ps))) (remdups (map fst ps))"

definition first_values :: "('k \<times> 'v) list \<Rightarrow> ('k, 'v) entries" where
  "first_values ps = map (\<lambda>(k, vs). (k, hd vs)) (group_values ps)"

lemma group_values_nonempty: "(k, vs) \<in> set (group_values ps) \<Longrightarrow> vs \<noteq> []"
  by (force simp: group_values_def filter_empty_conv)

lemma distinct_keys_group_values: "distinct (map fst (group_values ps))"
  by (simp add: group_values_def comp_def)

lemma filter_key_hd:
  "k \<in> fst ` set ps \<Longrightarrow> Some (hd (map snd (filter (\<lambda>p. fst p = k) ps))) = map_of ps k"
  by (induction ps) auto

lemma map_of_map_key: "map_of (map (\<lambda>k. (k, f k)) ks) k = (if k \<in> set ks then Some (f k) else None)"
  by (induction ks) auto

lemma map_of_first_values: "map_of (first_values ps) k = map_of ps k"
proof -
  have "map_of (first_values ps) k =
      (if k \<in> fst ` set ps then Some (hd (map snd (filter (\<lambda>p. fst p = k) ps))) else None)"
    by (simp add: first_values_def group_values_def comp_def map_of_map_key)
  also have "\<dots> = map_of ps k"
    by (cases "k \<in> fst ` set ps") (simp_all add: filter_key_hd map_of_eq_None_iff [THEN iffD2])
  finally show ?thesis .
qed

section \<open>Lists\<close>

lemma length_filter_update:
  "i < length xs \<Longrightarrow> length (filter P (xs[i := x])) + of_bool (P (xs ! i)) = length (filter P xs) + of_bool (P x)"
proof (induction xs arbitrary: i)
  case (Cons y ys)
  then show ?case by (cases i) auto
qed simp

end
