(* ===== verification/NetHttp.thy ===== *)
theory NetHttp
  imports GoPrelude
begin

text \<open>
  The parts of package \<open>net/http\<close> the handlers use: header keys and lookups, an incoming
  request as the server hands it to a handler, its body as a reader that is consumed by
  reading, and the response writer (the first status wins, the header is fixed when the
  status is written).
\<close>

section \<open>Header keys\<close>

definition is_lower :: "char \<Rightarrow> bool" where
  "is_lower c \<longleftrightarrow> (let n = of_char c :: nat in 97 \<le> n \<and> n \<le> 122)"

definition is_upper :: "char \<Rightarrow> bool" where
  "is_upper c \<longleftrightarrow> (let n = of_char c :: nat in 65 \<le> n \<and> n \<le> 90)"

definition to_upper :: "char \<Rightarrow> char" where
  "to_upper c = (if is_lower c then char_of (of_char c - 32 :: nat) else c)"

definition to_lower :: "char \<Rightarrow> char" where
  "to_lower c = (if is_upper c then char_of (of_char c + 32 :: nat) else c)"

definition header_field_byte :: "char \<Rightarrow> bool" where
  "header_field_byte c \<longleftrightarrow> is_lower c \<or> is_upper c \<or> digit_val c \<noteq> None
     \<or> c \<in> set ''!#$%&*+-.^_`|~'' \<or> c = CHR 0x27"

text \<open>\<open>CanonicalMIMEHeaderKey\<close>: the first letter and each letter after a hyphen in upper
  case, the rest in lower case; a key with another byte is left alone.\<close>

fun canonical_from :: "bool \<Rightarrow> string \<Rightarrow> string" where
  "canonical_from up [] = []"
| "canonical_from up (c # cs) =
     (if up then to_upper c else to_lower c) # canonical_from (c = CHR ''-'') cs"

definition canonical_key :: "string \<Rightarrow> string" where
  "canonical_key k = (if list_all header_field_byte k then canonical_from True k else k)"

text \<open>\<open>Header.Get\<close> on the fields of a request (canonical keys, in order of arrival).\<close>

definition header_get :: "(string \<times> string) list \<Rightarrow> string \<Rightarrow> string" where
  "header_get fields k = (case map_of fields (canonical_key k) of None \<Rightarrow> [] | Some v \<Rightarrow> v)"

definition values_get :: "(string \<times> string) list \<Rightarrow> string \<Rightarrow> string" where
  "values_get pairs k = (case map_of pairs k of None \<Rightarrow> [] | Some v \<Rightarrow> v)"

section \<open>Incoming requests\<close>

text \<open>
  The server never hands a handler a nil body. A body is either readable to its end (what
  is still unread) or fails with an error; reading it all leaves nothing behind, so a second
  reader gets the empty string.
\<close>

datatype body = Unread string | FailingReader error

fun io_ReadAll :: "body \<Rightarrow> (error + string) \<times> body" where
  "io_ReadAll (Unread s) = (Inr s, Unread [])"
| "io_ReadAll (FailingReader e) = (Inl e, FailingReader e)"

record request =
  reqMethod :: string
  urlPath :: string                     \<comment> \<open>\<open>URL.Path\<close>\<close>
  urlString :: string                   \<comment> \<open>\<open>URL.String()\<close>\<close>
  urlHost :: string                     \<comment> \<open>\<open>URL.Host\<close>\<close>
  urlQuery :: "(string \<times> string) list" \<comment> \<open>the pairs of \<open>URL.Query()\<close> in order\<close>
  reqHeader :: "(string \<times> string) list" \<comment> \<open>header fields, keys canonical\<close>
  reqHost :: string
  reqBody :: body
  muxVars :: "string \<rightharpoonup> string"       \<comment> \<open>the path variables the router has bound\<close>

text \<open>\<open>mux.Vars(r)[name]\<close>: an unbound variable reads as the empty string.\<close>

definition path_var :: "request \<Rightarrow> string \<Rightarrow> string" where
  "path_var r name = (case muxVars r name of None \<Rightarrow> [] | Some v \<Rightarrow> v)"

section \<open>Response writers\<close>

record response_writer =
  rwHeader :: "(string \<times> string) list" \<comment> \<open>\<open>Header()\<close> as the handler has built it\<close>
  rwStatus :: "int option"
  rwSent :: "(string \<times> string) list"   \<comment> \<open>the header as sent with the status\<close>
  rwBody :: string

definition new_writer :: response_writer where
  "new_writer = \<lparr>rwHeader = [], rwStatus = None, rwSent = [], rwBody = []\<rparr>"

definition header_add :: "string \<Rightarrow> string \<Rightarrow> response_writer \<Rightarrow> response_writer" where
  "header_add k v w = w\<lparr>rwHeader := rwHeader w @ [(canonical_key k, v)]\<rparr>"

definition header_set :: "string \<Rightarrow> string \<Rightarrow> response_writer \<Rightarrow> response_writer" where
  "header_set k v w =
     w\<lparr>rwHeader := filter (\<lambda>p. fst p \<noteq> canonical_key k) (rwHeader w) @ [(canonical_key k, v)]\<rparr>"

text \<open>Writing a status the library accepts: the first final status is kept with the header of
  that moment, an informational one (1xx) is sent on its own and does not count.\<close>

definition put_status :: "int \<Rightarrow> response_writer \<Rightarrow> response_writer" where
  "put_status code w =
     (if rwStatus w \<noteq> None \<or> (code < 200 \<and> code \<noteq> 101) then w
      else w\<lparr>rwStatus := Some code, rwSent := rwHeader w\<rparr>)"

definition write_header :: "int \<Rightarrow> response_writer \<Rightarrow> response_writer result" where
  "write_header code w =
     (if rwStatus w \<noteq> None then Ok w
      else if code < 100 \<or> 999 < code then Panic (''invalid WriteHeader code '' @ itoa code)
      else Ok (put_status code w))"

definition body_allowed :: "int \<Rightarrow> bool" where
  "body_allowed code \<longleftrightarrow> \<not> (100 \<le> code \<and> code \<le> 199) \<and> code \<noteq> 204 \<and> code \<noteq> 304"

definition write_bytes :: "string \<Rightarrow> response_writer \<Rightarrow> response_writer" where
  "write_bytes s w =
     (let w' = put_status 200 w
      in case rwStatus w' of
           Some code \<Rightarrow> if body_allowed code then w'\<lparr>rwBody := rwBody w' @ s\<rparr> else w'
         | None \<Rightarrow> w')"

definition http_Error :: "string \<Rightarrow> int \<Rightarrow> response_writer \<Rightarrow> response_writer" where
  "http_Error msg code w =
     write_bytes (msg @ [CHR 0x0A])
       (put_status code
         (header_set ''X-Content-Type-Options'' ''nosniff''
           (header_set ''Content-Type'' ''text/plain; charset=utf-8'' w)))"

lemma write_header_const:
  "100 \<le> code \<Longrightarrow> code \<le> 999 \<Longrightarrow> write_header code w = Ok (put_status code w)"
  by (simp add: write_header_def put_status_def)

lemma header_add_sel [simp]:
  "rwStatus (header_add k v w) = rwStatus w"
  "rwBody (header_add k v w) = rwBody w"
  "rwSent (header_add k v w) = rwSent w"
  "rwHeader (header_add k v w) = rwHeader w @ [(canonical_key k, v)]"
  by (simp_all add: header_add_def)

lemma header_set_sel [simp]:
  "rwStatus (header_set k v w) = rwStatus w"
  "rwBody (header_set k v w) = rwBody w"
  "rwSent (header_set k v w) = rwSent w"
  by (simp_all add: header_set_def)

lemma put_status_once [simp]: "rwStatus w = Some c \<Longrightarrow> put_status code w = w"
  by (simp add: put_status_def)

lemma put_status_sel [simp]:
  "rwHeader (put_status code w) = rwHeader w"
  "rwBody (put_status code w) = rwBody w"
  by (simp_all add: put_status_def)

lemma rwStatus_put_status:
  "200 \<le> code \<Longrightarrow> rwStatus (put_status code w) = Some (case rwStatus w of None \<Rightarrow> code | Some c \<Rightarrow> c)"
  by (auto simp: put_status_def split: option.splits)

lemma rwStatus_write_bytes:
  "rwStatus (write_bytes s w) = Some (case rwStatus w of None \<Rightarrow> 200 | Some c \<Rightarrow> c)"
  using rwStatus_put_status [of 200 w]
  by (auto simp: write_bytes_def Let_def split: option.splits)

lemma rwStatus_http_Error:
  "200 \<le> code \<Longrightarrow>
   rwStatus (http_Error msg code w) = Some (case rwStatus w of None \<Rightarrow> code | Some c \<Rightarrow> c)"
  by (simp add: http_Error_def rwStatus_write_bytes rwStatus_put_status)

lemma http_Error_fresh:
  assumes "rwStatus w = None" and "200 \<le> code" and "body_allowed code"
  shows "rwStatus (http_Error msg code w) = Some code"
    and "rwBody (http_Error msg code w) = rwBody w @ msg @ [CHR 0x0A]"
  using assms by (simp_all add: http_Error_def write_bytes_def put_status_def)

section \<open>Header lookups are case-insensitive\<close>

lemma lower_upper: "is_lower c \<Longrightarrow> to_lower (to_upper c) = c"
  by (auto simp: is_lower_def is_upper_def to_upper_def to_lower_def Let_def)

lemma to_upper_to_lower: "to_upper (to_lower c) = to_upper c"
  by (auto simp: is_lower_def is_upper_def to_upper_def to_lower_def Let_def)

lemma to_lower_to_lower: "to_lower (to_lower c) = to_lower c"
  by (auto simp: is_lower_def is_upper_def to_upper_def to_lower_def Let_def)

lemma to_lower_hyphen: "to_lower c = CHR ''-'' \<longleftrightarrow> c = CHR ''-''"
proof
  assume *: "to_lower c = CHR ''-''"
  show "c = CHR ''-''"
  proof (cases "is_upper c")
    case True
    with * have "char_of (of_char c + 32 :: nat) = CHR ''-''" by (simp add: to_lower_def)
    then have "of_char (char_of (of_char c + 32 :: nat)) = (of_char (CHR ''-'') :: nat)" by simp
    with True show ?thesis by (simp add: is_upper_def Let_def)
  qed (use * in \<open>simp add: to_lower_def\<close>)
qed (simp add: to_lower_def is_upper_def)

lemma canonical_from_lower: "canonical_from up (map to_lower k) = canonical_from up k"
  by (induction k arbitrary: up) (simp_all add: to_upper_to_lower to_lower_to_lower to_lower_hyphen)

lemma header_field_byte_lower [simp]: "header_field_byte (to_lower c) = header_field_byte c"
proof (cases "is_upper c")
  case True
  then have "is_lower (to_lower c)"
    by (simp add: is_upper_def is_lower_def to_lower_def Let_def)
  with True show ?thesis by (simp add: header_field_byte_def)
qed (simp add: to_lower_def)

lemma canonical_key_lower:
  "list_all header_field_byte k \<Longrightarrow> canonical_key (map to_lower k) = canonical_key k"
  by (simp add: canonical_key_def list.pred_map comp_def canonical_from_lower)

section \<open>Handlers\<close>

text \<open>A handler reads the request, writes the response and changes the state it has access to;
  a panic ends the request.\<close>

type_synonym 's handler = "request \<Rightarrow> response_writer \<Rightarrow> 's \<Rightarrow> (response_writer \<times> 's) result"

end
