(* ===== verification/MockModel.thy ===== *)
theory MockModel
  imports NetHttp
begin

text \<open>
  The configuration model of package \<open>mock\<close> (\<open>model.go\<close>) and the search tree in which
  endpoints are registered. The type parameter \<open>'t\<close> is a \<open>text/template\<close> with the
  named templates associated with it; a
  compiled regular expression is the predicate of the byte strings it matches. Pointers that
  may be nil are options.
\<close>

record MatchRequest =
  mrHost :: string
  mrMethod :: string
  mrPath :: string
  mrQuery :: "(string, string) entries"
  mrHeaders :: "(string, string) entries"
  mrBody :: string
  mrBodyRegexp :: "(string \<Rightarrow> bool) option"

record 't Response =
  rsTemplate :: "'t option"            \<comment> \<open>nil until the templates are parsed\<close>
  rsStatusCode :: string
  rsHeaders :: string
  rsBody :: string
  rsBodyFilename :: string

record 't Endpoint =
  epID :: string
  epMock :: "string option"            \<comment> \<open>the mock file it belongs to, by its name\<close>
  epPrio :: int
  epRequest :: MatchRequest
  epResponse :: "'t Response"

text \<open>
  As decoded from YAML an endpoint entry may be null, and its request and its response may be
  missing; the code dereferences all three without a check.
\<close>

record 't RawEndpoint =
  rawID :: string
  rawPrio :: int
  rawRequest :: "MatchRequest option"
  rawResponse :: "'t Response option"

record 't Mock =
  mockName :: string
  mockEndpoints :: "'t RawEndpoint option list"

text \<open>
  A node of the search tree: its children by path segment (with \<open>*\<close> and \<open>**\<close> as
  segments of their own), its endpoints by endpoint key, the name of the path parameter it
  binds. Both maps are nil until the first entry is put in.
\<close>

datatype (dead 't) epSearchNode =
  SearchNode
    (searchNodes: "(string, 't epSearchNode) gomap")
    (endpoints: "(string, 't Endpoint list) gomap")
    (pathParamName: string)

definition empty_node :: "'t epSearchNode" where
  "empty_node = SearchNode None None []"

lemma empty_node_sel [simp]:
  "searchNodes empty_node = None" "endpoints empty_node = None" "pathParamName empty_node = []"
  by (simp_all add: empty_node_def)

end
