(* ===== verification/PathTree.thy ===== *)
theory PathTree
  imports MockModel
begin

text \<open>
  Registration of endpoints in the search tree (\<open>registerEndpoint\<close> of
  \<open>mockgo/mock/requestHandler.go\<close>).
\<close>

section \<open>Endpoint keys and the insertion by priority\<close>

definition default_method :: "'t Endpoint \<Rightarrow> 't Endpoint" where
  "default_method ep =
     (if mrMethod (epRequest ep) = []
      then ep\<lparr>epRequest := (epRequest ep)\<lparr>mrMethod := ''GET''\<rparr>\<rparr> else ep)"

definition endpointKey :: "string \<Rightarrow> string \<Rightarrow> string" where
  "endpointKey method host =
     (if length host > 0 then ''+'' @ method @ ''-'' @ host else method)"

text \<open>The loop over the registered endpoints: the index of the first one of lower priority,
  and 0 (the initial value) when there is none.\<close>

fun first_lower :: "int \<Rightarrow> nat \<Rightarrow> 't Endpoint list \<Rightarrow> nat option" where
  "first_lower p i [] = None"
| "first_lower p i (ep # eps) = (if p > epPrio ep then Some i else first_lower p (Suc i) eps)"

definition insertIndex :: "int \<Rightarrow> 't Endpoint list \<Rightarrow> nat" where
  "insertIndex p eps = (case first_lower p 0 eps of None \<Rightarrow> 0 | Some i \<Rightarrow> i)"

definition insert_endpoint :: "'t Endpoint \<Rightarrow> 't Endpoint list \<Rightarrow> 't Endpoint list" where
  "insert_endpoint ep eps =
     (let i = insertIndex (epPrio ep) eps in
      if length eps = i then eps @ [ep]
      else (take (i + 1) eps @ drop i eps)[i := ep])"

definition put_endpoint :: "'t Endpoint \<Rightarrow> 't epSearchNode \<Rightarrow> 't epSearchNode" where
  "put_endpoint ep sn =
     (let key = endpointKey (mrMethod (epRequest ep)) (mrHost (epRequest ep));
          m = (case endpoints sn of None \<Rightarrow> Map.empty | Some f \<Rightarrow> f);
          eps = (case m key of None \<Rightarrow> [] | Some l \<Rightarrow> l)
      in SearchNode (searchNodes sn) (Some (m(key \<mapsto> insert_endpoint ep eps))) (pathParamName sn))"

section \<open>Walking down the path\<close>

definition is_path_param :: "string \<Rightarrow> bool" where
  "is_path_param seg \<longleftrightarrow> has_prefix seg ''{'' \<and> has_suffix seg ''}''"

definition segment_key :: "string \<Rightarrow> string" where
  "segment_key seg = (if is_path_param seg then ''*'' else seg)"

definition segment_param :: "string \<Rightarrow> string" where
  "segment_param seg = (if is_path_param seg then drop 1 (take (length seg - 1) seg) else [])"

definition set_param :: "string \<Rightarrow> 't epSearchNode \<Rightarrow> 't epSearchNode" where
  "set_param p sn = SearchNode (searchNodes sn) (endpoints sn) p"

primrec register_path :: "'t Endpoint \<Rightarrow> string list \<Rightarrow> 't epSearchNode \<Rightarrow> 't epSearchNode" where
  "register_path ep [] sn = put_endpoint ep sn"
| "register_path ep (seg # segs) sn =
     (let m = (case searchNodes sn of None \<Rightarrow> Map.empty | Some f \<Rightarrow> f);
          child = (case m (segment_key seg) of None \<Rightarrow> empty_node | Some c \<Rightarrow> c)
      in SearchNode
           (Some (m(segment_key seg \<mapsto>
              register_path ep segs (set_param (segment_param seg) child))))
           (endpoints sn) (pathParamName sn))"

definition path_segments :: "string \<Rightarrow> string list" where
  "path_segments path = tl (split_on (CHR ''/'') path)"

definition registerEndpoint :: "'t Endpoint \<Rightarrow> 't epSearchNode \<Rightarrow> 't epSearchNode" where
  "registerEndpoint ep sn =
     (let ep' = default_method ep
      in register_path ep' (path_segments (mrPath (epRequest ep'))) sn)"

section \<open>Looking nodes up\<close>

text \<open>The node a sequence of tree keys leads to, and the endpoints stored under a key there.\<close>

primrec node_at :: "'t epSearchNode \<Rightarrow> string list \<Rightarrow> 't epSearchNode option" where
  "node_at sn [] = Some sn"
| "node_at sn (k # ks) =
     (case gomap_get (searchNodes sn) k of None \<Rightarrow> None | Some c \<Rightarrow> node_at c ks)"

definition eps_of :: "'t epSearchNode \<Rightarrow> string \<Rightarrow> 't Endpoint list" where
  "eps_of sn key = (case gomap_get (endpoints sn) key of None \<Rightarrow> [] | Some l \<Rightarrow> l)"

definition eps_at :: "'t epSearchNode \<Rightarrow> string list \<Rightarrow> string \<Rightarrow> 't Endpoint list" where
  "eps_at sn ks key = (case node_at sn ks of None \<Rightarrow> [] | Some n \<Rightarrow> eps_of n key)"

definition tree_keys :: "'t Endpoint \<Rightarrow> string list" where
  "tree_keys ep = map segment_key (path_segments (mrPath (epRequest ep)))"

definition ep_key :: "'t Endpoint \<Rightarrow> string" where
  "ep_key ep = endpointKey (mrMethod (epRequest ep)) (mrHost (epRequest ep))"

lemma node_at_append:
  "node_at sn (ks @ ls) = (case node_at sn ks of None \<Rightarrow> None | Some n \<Rightarrow> node_at n ls)"
  by (induction ks arbitrary: sn) (auto split: option.splits)

lemma set_param_sel [simp]:
  "searchNodes (set_param p sn) = searchNodes sn"
  "endpoints (set_param p sn) = endpoints sn"
  "pathParamName (set_param p sn) = p"
  by (simp_all add: set_param_def)

lemma put_endpoint_sel [simp]:
  "searchNodes (put_endpoint ep sn) = searchNodes sn"
  "pathParamName (put_endpoint ep sn) = pathParamName sn"
  by (simp_all add: put_endpoint_def Let_def)

lemma eps_of_put_endpoint:
  "eps_of (put_endpoint ep sn) key =
     (if key = ep_key ep then insert_endpoint ep (eps_of sn key) else eps_of sn key)"
  by (auto simp: eps_of_def put_endpoint_def ep_key_def Let_def gomap_get_def split: option.splits)

lemma eps_of_set_param [simp]: "eps_of (set_param p sn) key = eps_of sn key"
  by (simp add: eps_of_def)

lemma eps_of_empty [simp]: "eps_of empty_node key = []"
  by (simp add: eps_of_def)

lemma eps_at_Nil [simp]: "eps_at sn [] key = eps_of sn key"
  by (simp add: eps_at_def)

lemma eps_at_Cons:
  "eps_at sn (k # ks) key =
     (case gomap_get (searchNodes sn) k of None \<Rightarrow> [] | Some c \<Rightarrow> eps_at c ks key)"
  by (simp add: eps_at_def split: option.splits)

lemma eps_at_set_param [simp]: "eps_at (set_param p sn) ks key = eps_at sn ks key"
  by (cases ks) (simp_all add: eps_at_Cons)

lemma eps_at_put_endpoint_Cons [simp]: "eps_at (put_endpoint ep sn) (k # ks) key = eps_at sn (k # ks) key"
  by (simp add: eps_at_Cons)

lemma eps_at_empty [simp]: "eps_at empty_node ks key = []"
  by (cases ks) (simp_all add: eps_at_Cons)

text \<open>Where a registration puts the endpoint, and that it changes no other list.\<close>

lemma eps_at_register_path:
  "eps_at (register_path ep segs sn) ks key =
     (if ks = map segment_key segs \<and> key = ep_key ep
      then insert_endpoint ep (eps_at sn ks key) else eps_at sn ks key)"
proof (induction segs arbitrary: sn ks key)
  case Nil
  show ?case
    by (cases ks) (simp_all add: eps_of_put_endpoint)
next
  case (Cons seg segs)
  show ?case
  proof (cases ks)
    case Nil
    then show ?thesis by (simp add: Let_def eps_of_def)
  next
    case (Cons k ks')
    then show ?thesis
      by (auto simp: eps_at_Cons Cons.IH Let_def gomap_get_def split: option.splits)
  qed
qed

lemma default_method_sel [simp]:
  "mrPath (epRequest (default_method ep)) = mrPath (epRequest ep)"
  "mrHost (epRequest (default_method ep)) = mrHost (epRequest ep)"
  "epPrio (default_method ep) = epPrio ep"
  "epID (default_method ep) = epID ep"
  by (simp_all add: default_method_def)

lemma tree_keys_default_method [simp]: "tree_keys (default_method ep) = tree_keys ep"
  by (simp add: tree_keys_def)

lemma eps_at_registerEndpoint:
  "eps_at (registerEndpoint ep sn) ks key =
     (if ks = tree_keys ep \<and> key = ep_key (default_method ep)
      then insert_endpoint (default_method ep) (eps_at sn ks key) else eps_at sn ks key)"
  by (auto simp: registerEndpoint_def Let_def eps_at_register_path tree_keys_def)

section \<open>What the insertion does to a list of endpoints\<close>

definition prio_sorted :: "'t Endpoint list \<Rightarrow> bool" where
  "prio_sorted eps \<longleftrightarrow> sorted_wrt (\<lambda>a b. epPrio a \<ge> epPrio b) eps"

definition has_lower :: "'t Endpoint \<Rightarrow> 't Endpoint list \<Rightarrow> bool" where
  "has_lower ep eps \<longleftrightarrow> (\<exists>e\<in>set eps. epPrio e < epPrio ep)"

lemma first_lower_eq:
  "first_lower p i eps =
     (if \<exists>e\<in>set eps. epPrio e < p
      then Some (i + length (takeWhile (\<lambda>e. p \<le> epPrio e) eps)) else None)"
  by (induction eps arbitrary: i) auto

lemma insertIndex_eq:
  "insertIndex (epPrio ep) eps =
     (if has_lower ep eps then length (takeWhile (\<lambda>e. epPrio ep \<le> epPrio e) eps) else 0)"
  by (auto simp: insertIndex_def first_lower_eq has_lower_def)

lemma insert_at: "(take (i + 1) xs @ drop i xs)[i := x] = take i xs @ x # drop i xs"
  if "i < length xs"
proof -
  from that have "take (i + 1) xs @ drop i xs = take i xs @ xs ! i # drop i xs"
    by (simp add: take_Suc_conv_app_nth)
  moreover from that have "length (take i xs) = i" by simp
  ultimately show ?thesis by (metis list_update_length)
qed

lemma takeWhile_shorter:
  "e \<in> set eps \<Longrightarrow> \<not> P e \<Longrightarrow> length (takeWhile P eps) < length eps"
  by (induction eps) auto

lemma insert_endpoint_eq:
  "insert_endpoint ep eps =
     (if has_lower ep eps
      then takeWhile (\<lambda>e. epPrio ep \<le> epPrio e) eps @ ep # dropWhile (\<lambda>e. epPrio ep \<le> epPrio e) eps
      else ep # eps)"
proof (cases "has_lower ep eps")
  case True
  let ?P = "\<lambda>e. epPrio ep \<le> epPrio e"
  from True have "length (takeWhile ?P eps) < length eps"
    by (auto simp: has_lower_def intro: takeWhile_shorter)
  moreover have "take (length (takeWhile ?P eps)) eps = takeWhile ?P eps"
    by (metis append_eq_conv_conj takeWhile_dropWhile_id)
  moreover have "drop (length (takeWhile ?P eps)) eps = dropWhile ?P eps"
    by (simp add: dropWhile_eq_drop)
  ultimately show ?thesis
    using True insert_at [of "length (takeWhile ?P eps)" eps ep]
    by (simp add: insert_endpoint_def Let_def insertIndex_eq)
next
  case False
  then show ?thesis
    by (cases eps) (simp_all add: insert_endpoint_def insertIndex_eq)
qed

lemma set_insert_endpoint [simp]: "set (insert_endpoint ep eps) = insert ep (set eps)"
  unfolding insert_endpoint_eq
  by simp (metis Un_insert_right set_append takeWhile_dropWhile_id)

lemma length_insert_endpoint [simp]: "length (insert_endpoint ep eps) = Suc (length eps)"
  unfolding insert_endpoint_eq
  by simp (metis length_append takeWhile_dropWhile_id)

lemma insert_endpoint_not_Nil [simp]: "insert_endpoint ep eps \<noteq> []"
  by (simp add: insert_endpoint_eq)

lemma prio_sorted_insert_lower:
  assumes "prio_sorted eps" and "has_lower ep eps"
  shows "prio_sorted (insert_endpoint ep eps)"
proof -
  let ?P = "\<lambda>e. epPrio ep \<le> epPrio e"
  have sorted: "sorted_wrt (\<lambda>a b. epPrio a \<ge> epPrio b) (takeWhile ?P eps @ dropWhile ?P eps)"
    using assms(1) by (simp add: prio_sorted_def)
  have below: "epPrio e \<le> epPrio ep" if "e \<in> set (dropWhile ?P eps)" for e
  proof -
    from that obtain d ds where ds: "dropWhile ?P eps = d # ds" by (cases "dropWhile ?P eps") auto
    then have "epPrio d < epPrio ep" by (metis dropWhile_eq_Cons_conv linorder_not_le)
    moreover have "epPrio e \<le> epPrio d"
      using that ds sorted by (auto simp: sorted_wrt_append)
    ultimately show ?thesis by simp
  qed
  have above: "epPrio ep \<le> epPrio e" if "e \<in> set (takeWhile ?P eps)" for e
    using that by (auto dest: set_takeWhileD)
  have across: "\<forall>x\<in>set (takeWhile ?P eps). \<forall>y\<in>set (ep # dropWhile ?P eps). epPrio y \<le> epPrio x"
    using above below by (auto intro: order_trans)
  have "sorted_wrt (\<lambda>a b. epPrio a \<ge> epPrio b) (takeWhile ?P eps)"
    and "sorted_wrt (\<lambda>a b. epPrio a \<ge> epPrio b) (dropWhile ?P eps)"
    using sorted by (simp_all only: sorted_wrt_append)
  with across below
  have "sorted_wrt (\<lambda>a b. epPrio a \<ge> epPrio b) (takeWhile ?P eps @ ep # dropWhile ?P eps)"
    by (simp only: sorted_wrt_append sorted_wrt.simps) blast
  then show ?thesis
    using assms(2) by (simp only: insert_endpoint_eq prio_sorted_def if_True)
qed

lemma prio_sorted_insert_front:
  assumes "prio_sorted eps" and "\<not> has_lower ep eps"
  shows "prio_sorted (insert_endpoint ep eps) \<longleftrightarrow> (\<forall>e\<in>set eps. epPrio e = epPrio ep)"
proof -
  have "prio_sorted (insert_endpoint ep eps) \<longleftrightarrow> (\<forall>e\<in>set eps. epPrio e \<le> epPrio ep)"
    using assms by (simp add: insert_endpoint_eq prio_sorted_def)
  also have "\<dots> \<longleftrightarrow> (\<forall>e\<in>set eps. epPrio e = epPrio ep)"
    using assms(2) by (force simp: has_lower_def not_less)
  finally show ?thesis .
qed

section \<open>Registering a list of endpoints\<close>

definition registered_under :: "string list \<Rightarrow> string \<Rightarrow> 't Endpoint \<Rightarrow> bool" where
  "registered_under ks key ep \<longleftrightarrow> tree_keys ep = ks \<and> ep_key ep = key"

lemma eps_at_fold_register:
  "eps_at (fold registerEndpoint eps sn) ks key =
     fold insert_endpoint (filter (registered_under ks key) (map default_method eps)) (eps_at sn ks key)"
  by (induction eps arbitrary: sn) (auto simp: eps_at_registerEndpoint registered_under_def)

lemma set_fold_insert: "set (fold insert_endpoint es eps) = set es \<union> set eps"
  by (induction es arbitrary: eps) auto

lemma length_fold_insert: "length (fold insert_endpoint es eps) = length es + length eps"
  by (induction es arbitrary: eps) auto

end
