(* ===== verification/PathMatch.thy ===== *)
theory PathMatch
  imports PathTree
begin

text \<open>
  The walk of a request path down the search tree (the loop of \<open>matchRequestToEndpoint\<close>
  in \<open>mockgo/mock/requestHandler.go\<close>), its termination and bounds, a list form of it, and
  the pattern language of the README as the reference it is compared with.
\<close>

section \<open>The loop\<close>

definition getPathSegment :: "string list \<Rightarrow> nat \<Rightarrow> string" where
  "getPathSegment segments pos = (if pos < length segments then segments ! pos else [])"

lemma getPathSegment_nonempty: "getPathSegment segs i \<noteq> [] \<Longrightarrow> i < length segs"
  by (simp add: getPathSegment_def split: if_splits)

text \<open>
  The inner loop after a \<open>**\<close>: look for a segment the node has a child for. Found: the
  position is moved there; not found: the position stays and the segment has become empty.
\<close>

function skip_to ::
  "(string \<rightharpoonup> 't epSearchNode) \<Rightarrow> string list \<Rightarrow> nat \<Rightarrow> nat \<Rightarrow> string \<Rightarrow> nat \<times> string" where
  "skip_to nodes segs pos i seg =
     (if seg = [] then (pos, seg)
      else if nodes seg \<noteq> None then (i, seg)
      else skip_to nodes segs pos (i + 1) (getPathSegment segs i))"
  by pat_completeness auto
termination
  by (relation "measure (\<lambda>(nodes, segs, pos, i, seg). if seg = [] then 0 else Suc (Suc (length segs) - i))")
     (auto dest!: getPathSegment_nonempty)

declare skip_to.simps [simp del]

datatype (dead 't) path_result =
  Reached "'t epSearchNode" "string \<rightharpoonup> string"
| NotReached "'t epSearchNode" nat "string \<rightharpoonup> string"

definition bind_param :: "'t epSearchNode \<Rightarrow> string \<Rightarrow> (string \<rightharpoonup> string) \<Rightarrow> (string \<rightharpoonup> string)" where
  "bind_param child seg ps =
     (if length (pathParamName child) > 0 then ps(pathParamName child \<mapsto> seg) else ps)"

lemma skip_to_ge: "pos \<le> i \<Longrightarrow> pos \<le> fst (skip_to nodes segs pos i seg)"
proof (induction nodes segs pos i seg rule: skip_to.induct)
  case (1 nodes segs pos i seg)
  then show ?case by (subst skip_to.simps) auto
qed

lemma path_loop_decreases:
  assumes "seg \<noteq> []"
    and "(pos', seg') = (if am then skip_to nodes segs pos pos seg else (pos, seg))"
  shows "(if getPathSegment segs pos' = [] then 0 else Suc (Suc (length segs) - (pos' + 1)))
    < Suc (Suc (length segs) - pos)"
proof -
  have "pos \<le> pos'"
    using assms(2) skip_to_ge [of pos pos nodes segs seg] by (auto split: if_splits dest: sym)
  then show ?thesis
    using getPathSegment_nonempty [of segs pos'] by auto
qed

function path_loop ::
  "string list \<Rightarrow> 't epSearchNode \<Rightarrow> nat \<Rightarrow> string \<Rightarrow> bool \<Rightarrow> (string \<rightharpoonup> string) \<Rightarrow> 't path_result" where
  "path_loop segs sn pos seg allMatch ps =
     (if seg = [] then Reached sn ps
      else case searchNodes sn of
        None \<Rightarrow> if allMatch then Reached sn ps else NotReached sn pos ps
      | Some nodes \<Rightarrow>
          let (pos, seg) = (if allMatch then skip_to nodes segs pos pos seg else (pos, seg))
          in case nodes seg of
               Some child \<Rightarrow> path_loop segs child (pos + 1) (getPathSegment segs pos) False ps
             | None \<Rightarrow>
                 (case nodes ''*'' of
                    Some child \<Rightarrow>
                      path_loop segs child (pos + 1) (getPathSegment segs pos) False (bind_param child seg ps)
                  | None \<Rightarrow>
                      (case nodes ''**'' of
                         Some child \<Rightarrow>
                           path_loop segs child (pos + 1) (getPathSegment segs pos) True ps
                       | None \<Rightarrow> NotReached sn pos ps)))"
  by pat_completeness auto

termination
  by (relation "measure (\<lambda>(segs, sn, pos, seg, am, ps).
        if seg = [] then 0 else Suc (Suc (length segs) - pos))")
     (simp_all only: wf_measure in_measure prod.case if_False path_loop_decreases)

declare path_loop.simps [simp del]

definition walk_path :: "'t epSearchNode \<Rightarrow> string \<Rightarrow> 't path_result" where
  "walk_path root path =
     (let segs = path_segments path
      in path_loop segs root 1 (getPathSegment segs 0) False Map.empty)"

end
