(* ===== verification/Matchstore.thy ===== *)
theory Matchstore
  imports GoPrelude
begin

text \<open>
  The data of package \<open>matches\<close> (\<open>matchstore.go\<close>), its interface
  \<open>Matchstore\<close> as a record of the methods over a store state, and the contract every
  store keeps, as a locale. Methods that only read return a result, the others also the new
  state. The element types are parameters: the stores hold pointers to matches.
\<close>

section \<open>Matches and mismatches\<close>

record ActualRequest =
  arMethod :: string
  arURL :: string
  arHeader :: "(string, string list) entries"
  arHost :: string

record ActualResponse =
  asStatusCode :: int
  asHeader :: "(string, string list) entries"

record Match =
  mEndpointID :: string
  mTimestamp :: int
  mActualRequest :: ActualRequest
  mActualResponse :: "ActualResponse option"   \<comment> \<open>nil until a response is rendered\<close>

record Mismatch =
  mmDetails :: string
  mmTimestamp :: int
  mmActualRequest :: ActualRequest

section \<open>The interface\<close>

record ('s, 'm, 'mm) Matchstore =
  GetMatches :: "string \<Rightarrow> 's \<Rightarrow> 'm list result"
  GetMatchesCount :: "string \<Rightarrow> 's \<Rightarrow> 64 word result"
  GetMismatches :: "'s \<Rightarrow> 'mm list result"
  AddMatch :: "string \<Rightarrow> 'm \<Rightarrow> 's \<Rightarrow> 's \<times> error option"
  AddMismatch :: "'mm \<Rightarrow> 's \<Rightarrow> 's \<times> error option"
  GetMismatchesCount :: "'s \<Rightarrow> 64 word result"
  DeleteMatches :: "string \<Rightarrow> 's \<Rightarrow> 's \<times> error option"
  DeleteMismatches :: "'s \<Rightarrow> 's \<times> error option"
  Shutdown :: "'s \<Rightarrow> 's \<times> error option"

text \<open>A store as the server uses it. \<open>AddMatch\<close> is called with a pointer to a match whose response is set later:
  a store in the server's memory keeps the pointer, one outside it a copy of what it points to. A method can look at
  the matches in memory when it is called.\<close>

record ('s, 'm) backend =
  beStore :: "Match list \<Rightarrow> ('s, 'm, Mismatch) Matchstore"   \<comment> \<open>with the matches in memory\<close>
  beKept :: "nat \<Rightarrow> Match \<Rightarrow> 'm"              \<comment> \<open>of an address and the match there\<close>
  beShown :: "Match list \<Rightarrow> 'm \<Rightarrow> Match"       \<comment> \<open>the match that is meant\<close>

definition pointers :: "('s, nat, Mismatch) Matchstore \<Rightarrow> ('s, nat) backend" where
  "pointers ms = \<lparr>beStore = (\<lambda>heap. ms), beKept = (\<lambda>addr m. addr), beShown = (\<lambda>heap addr. heap ! addr)\<rparr>"

definition copies :: "('s, Match, Mismatch) Matchstore \<Rightarrow> ('s, Match) backend" where
  "copies ms = \<lparr>beStore = (\<lambda>heap. ms), beKept = (\<lambda>addr m. m), beShown = (\<lambda>heap m. m)\<rparr>"

lemma backend_sel [simp]:
  "beStore (pointers ms) heap = ms" "beKept (pointers ms) addr m = addr" "beShown (pointers ms) = (!)"
  "beStore (copies ms') heap = ms'" "beKept (copies ms') addr m = m" "beShown (copies ms') = (\<lambda>heap m. m)"
  by (simp_all add: pointers_def copies_def fun_eq_iff)

text \<open>The operations that change a store, and what they make of the history of matches of an
  endpoint and of mismatches since the last deletion.\<close>

datatype ('m, 'mm) store_op =
  AddMatchOp string 'm
| AddMismatchOp 'mm
| DeleteMatchesOp string
| DeleteMismatchesOp

primrec apply_op :: "('s, 'm, 'mm) Matchstore \<Rightarrow> ('m, 'mm) store_op \<Rightarrow> 's \<Rightarrow> 's" where
  "apply_op ms (AddMatchOp ep m) s = fst (AddMatch ms ep m s)"
| "apply_op ms (AddMismatchOp mm) s = fst (AddMismatch ms mm s)"
| "apply_op ms (DeleteMatchesOp ep) s = fst (DeleteMatches ms ep s)"
| "apply_op ms DeleteMismatchesOp s = fst (DeleteMismatches ms s)"

primrec match_history :: "string \<Rightarrow> 'm list \<Rightarrow> ('m, 'mm) store_op \<Rightarrow> 'm list" where
  "match_history ep h (AddMatchOp ep' m) = (if ep' = ep then h @ [m] else h)"
| "match_history ep h (AddMismatchOp mm) = h"
| "match_history ep h (DeleteMatchesOp ep') = (if ep' = ep then [] else h)"
| "match_history ep h DeleteMismatchesOp = h"

primrec mismatch_history :: "'mm list \<Rightarrow> ('m, 'mm) store_op \<Rightarrow> 'mm list" where
  "mismatch_history h (AddMatchOp ep m) = h"
| "mismatch_history h (AddMismatchOp mm) = h @ [mm]"
| "mismatch_history h (DeleteMatchesOp ep) = h"
| "mismatch_history h DeleteMismatchesOp = []"

section \<open>The contract of a store\<close>

text \<open>
  What every store promises: its counters count the additions since the last deletion, modulo
  \<open>2 ^ 64\<close>, and the mismatches it returns are among those added since the last deletion.
\<close>

locale counting_store =
  fixes ms :: "('s, 'm, 'mm) Matchstore"
    and invar :: "'s \<Rightarrow> bool"
  assumes invar_step: "invar s \<Longrightarrow> invar (apply_op ms op s)"
    and count_step:
      "invar s \<Longrightarrow> GetMatchesCount ms ep s = Ok (of_nat (length h)) \<Longrightarrow>
       GetMatchesCount ms ep (apply_op ms op s) = Ok (of_nat (length (match_history ep h op)))"
    and mismatch_count_step:
      "invar s \<Longrightarrow> GetMismatchesCount ms s = Ok (of_nat (length h')) \<Longrightarrow>
       GetMismatchesCount ms (apply_op ms op s) = Ok (of_nat (length (mismatch_history h' op)))"
    and mismatches_step:
      "invar s \<Longrightarrow> GetMismatches ms s = Ok k \<Longrightarrow> set k \<subseteq> set h' \<Longrightarrow>
       \<exists>k'. GetMismatches ms (apply_op ms op s) = Ok k' \<and> set k' \<subseteq> set (mismatch_history h' op)"
begin

lemma invar_run: "invar s \<Longrightarrow> invar (fold (apply_op ms) ops s)"
  by (induction ops arbitrary: s) (auto intro: invar_step)

lemma count_run:
  "invar s \<Longrightarrow> GetMatchesCount ms ep s = Ok (of_nat (length h)) \<Longrightarrow>
   GetMatchesCount ms ep (fold (apply_op ms) ops s) =
     Ok (of_nat (length (fold (\<lambda>op h. match_history ep h op) ops h)))"
  by (induction ops arbitrary: s h) (auto intro: invar_step count_step)

lemma mismatch_count_run:
  "invar s \<Longrightarrow> GetMismatchesCount ms s = Ok (of_nat (length h)) \<Longrightarrow>
   GetMismatchesCount ms (fold (apply_op ms) ops s) =
     Ok (of_nat (length (fold (\<lambda>op h. mismatch_history h op) ops h)))"
  by (induction ops arbitrary: s h) (auto intro: invar_step mismatch_count_step)

lemma mismatches_run:
  "invar s \<Longrightarrow> GetMismatches ms s = Ok l \<Longrightarrow> set l \<subseteq> set h \<Longrightarrow>
   \<exists>l'. GetMismatches ms (fold (apply_op ms) ops s) = Ok l'
     \<and> set l' \<subseteq> set (fold (\<lambda>op h. mismatch_history h op) ops h)"
proof (induction ops arbitrary: s h l)
  case (Cons op ops)
  from mismatches_step [OF Cons.prems] obtain l' where
    "GetMismatches ms (apply_op ms op s) = Ok l'" "set l' \<subseteq> set (mismatch_history h op)" by blast
  with Cons.IH [OF invar_step [OF Cons.prems(1)]] show ?case by simp
qed auto

end

text \<open>
  A store whose matches can always be read back: what it returns for an endpoint was added for
  it since the last deletion.
\<close>

locale matchstore_contract = counting_store +
  assumes matches_step:
      "invar s \<Longrightarrow> GetMatches ms ep s = Ok l \<Longrightarrow> set l \<subseteq> set h \<Longrightarrow>
       \<exists>l'. GetMatches ms ep (apply_op ms op s) = Ok l' \<and> set l' \<subseteq> set (match_history ep h op)"
begin

lemma matches_run:
  "invar s \<Longrightarrow> GetMatches ms ep s = Ok l \<Longrightarrow> set l \<subseteq> set h \<Longrightarrow>
   \<exists>l'. GetMatches ms ep (fold (apply_op ms) ops s) = Ok l'
     \<and> set l' \<subseteq> set (fold (\<lambda>op h. match_history ep h op) ops h)"
proof (induction ops arbitrary: s h l)
  case (Cons op ops)
  from matches_step [OF Cons.prems] obtain l' where
    "GetMatches ms ep (apply_op ms op s) = Ok l'" "set l' \<subseteq> set (match_history ep h op)" by blast
  with Cons.IH [OF invar_step [OF Cons.prems(1)]] show ?case by simp
qed auto

end

end
