(* ===== verification/InMemory.thy ===== *)
theory InMemory
  imports Matchstore
begin

text \<open>
  The in-memory store (\<open>mockgo/matches/inmemoryMatchstore.go\<close>): bounded lists of matches
  per endpoint and of mismatches, with \<open>uint16\<close> capacity and \<open>uint64\<close> counters.
\<close>

record ('m, 'mm) InMemoryMatchstore =
  imsSize :: "16 word"
  imsMatches :: "string \<rightharpoonup> 'm list"
  imsMismatches :: "'mm list"
  imsMatchesCount :: "string \<rightharpoonup> 64 word"
  imsMismatchesCount :: "64 word"

definition NewInMemoryMatchstore :: "16 word \<Rightarrow> ('m, 'mm) InMemoryMatchstore" where
  "NewInMemoryMatchstore sz =
     \<lparr>imsSize = sz, imsMatches = Map.empty, imsMismatches = [],
      imsMatchesCount = Map.empty, imsMismatchesCount = 0\<rparr>"

definition im_GetMatches :: "string \<Rightarrow> ('m, 'mm) InMemoryMatchstore \<Rightarrow> 'm list" where
  "im_GetMatches ep s = (case imsMatches s ep of None \<Rightarrow> [] | Some l \<Rightarrow> l)"

definition im_GetMatchesCount :: "string \<Rightarrow> ('m, 'mm) InMemoryMatchstore \<Rightarrow> 64 word" where
  "im_GetMatchesCount ep s = (case imsMatchesCount s ep of None \<Rightarrow> 0 | Some n \<Rightarrow> n)"

definition im_GetMismatches :: "('m, 'mm) InMemoryMatchstore \<Rightarrow> 'mm list" where
  "im_GetMismatches s = imsMismatches s"

definition im_GetMismatchesCount :: "('m, 'mm) InMemoryMatchstore \<Rightarrow> 64 word" where
  "im_GetMismatchesCount s = imsMismatchesCount s"

text \<open>\<open>PushBack\<close>, then \<open>Remove(Front())\<close> when the length, cut to 16 bits, is above the
  capacity.\<close>

definition push_bounded :: "16 word \<Rightarrow> 'a list \<Rightarrow> 'a \<Rightarrow> 'a list" where
  "push_bounded sz l x =
     (let l' = l @ [x] in if (of_nat (length l') :: 16 word) > sz then tl l' else l')"

definition im_AddMismatch :: "'mm \<Rightarrow> ('m, 'mm) InMemoryMatchstore \<Rightarrow> ('m, 'mm) InMemoryMatchstore" where
  "im_AddMismatch mm s =
     s\<lparr>imsMismatches := push_bounded (imsSize s) (imsMismatches s) mm,
       imsMismatchesCount := imsMismatchesCount s + 1\<rparr>"

definition im_AddMatch ::
  "string \<Rightarrow> 'm \<Rightarrow> ('m, 'mm) InMemoryMatchstore \<Rightarrow> ('m, 'mm) InMemoryMatchstore" where
  "im_AddMatch ep m s =
     (let l = (case imsMatches s ep of None \<Rightarrow> [] | Some l \<Rightarrow> l)
      in s\<lparr>imsMatches := (imsMatches s)(ep \<mapsto> push_bounded (imsSize s) l m),
           imsMatchesCount := (imsMatchesCount s)(ep \<mapsto> im_GetMatchesCount ep s + 1)\<rparr>)"

definition im_DeleteMatches ::
  "string \<Rightarrow> ('m, 'mm) InMemoryMatchstore \<Rightarrow> ('m, 'mm) InMemoryMatchstore" where
  "im_DeleteMatches ep s =
     s\<lparr>imsMatches := (case imsMatches s ep of None \<Rightarrow> imsMatches s | Some l \<Rightarrow> (imsMatches s)(ep \<mapsto> [])),
       imsMatchesCount := (imsMatchesCount s)(ep \<mapsto> 0)\<rparr>"

definition im_DeleteMismatches :: "('m, 'mm) InMemoryMatchstore \<Rightarrow> ('m, 'mm) InMemoryMatchstore" where
  "im_DeleteMismatches s = s\<lparr>imsMismatches := [], imsMismatchesCount := 0\<rparr>"

definition inmemory_store :: "(('m, 'mm) InMemoryMatchstore, 'm, 'mm) Matchstore" where
  "inmemory_store =
     \<lparr>GetMatches = (\<lambda>ep s. Ok (im_GetMatches ep s)),
      GetMatchesCount = (\<lambda>ep s. Ok (im_GetMatchesCount ep s)),
      GetMismatches = (\<lambda>s. Ok (im_GetMismatches s)),
      AddMatch = (\<lambda>ep m s. (im_AddMatch ep m s, None)),
      AddMismatch = (\<lambda>mm s. (im_AddMismatch mm s, None)),
      GetMismatchesCount = (\<lambda>s. Ok (im_GetMismatchesCount s)),
      DeleteMatches = (\<lambda>ep s. (im_DeleteMatches ep s, None)),
      DeleteMismatches = (\<lambda>s. (im_DeleteMismatches s, None)),
      Shutdown = (\<lambda>s. (s, None))\<rparr>"

lemma inmemory_store_sel [simp]:
  "GetMatches inmemory_store ep s = Ok (im_GetMatches ep s)"
  "GetMatchesCount inmemory_store ep s = Ok (im_GetMatchesCount ep s)"
  "GetMismatches inmemory_store s = Ok (im_GetMismatches s)"
  "AddMatch inmemory_store ep m s = (im_AddMatch ep m s, None)"
  "AddMismatch inmemory_store mm s = (im_AddMismatch mm s, None)"
  "GetMismatchesCount inmemory_store s = Ok (im_GetMismatchesCount s)"
  "DeleteMatches inmemory_store ep s = (im_DeleteMatches ep s, None)"
  "DeleteMismatches inmemory_store s = (im_DeleteMismatches s, None)"
  "Shutdown inmemory_store s = (s, None)"
  by (simp_all add: inmemory_store_def)

section \<open>What each operation does to each query\<close>

lemmas im_defs = im_GetMatches_def im_GetMatchesCount_def im_GetMismatches_def
  im_GetMismatchesCount_def im_AddMatch_def im_AddMismatch_def im_DeleteMatches_def
  im_DeleteMismatches_def

text \<open>The store of the standalone variant keeps the pointers to the matches.\<close>

definition inmemory_backend :: "((nat, Mismatch) InMemoryMatchstore, nat) backend" where
  "inmemory_backend = pointers inmemory_store"

lemma inmemory_backend_sel [simp]:
  "beStore inmemory_backend heap = inmemory_store" "beKept inmemory_backend addr m = addr"
  "beShown inmemory_backend = (!)"
  by (simp_all add: inmemory_backend_def)

lemma im_size_step [simp]: "imsSize (apply_op inmemory_store op s) = imsSize s"
  by (cases op) (simp_all add: im_defs Let_def)

lemma im_matches_step:
  "im_GetMatches ep (apply_op inmemory_store op s) =
     (case op of AddMatchOp ep' m \<Rightarrow>
          if ep' = ep then push_bounded (imsSize s) (im_GetMatches ep s) m else im_GetMatches ep s
      | DeleteMatchesOp ep' \<Rightarrow> if ep' = ep then [] else im_GetMatches ep s
      | _ \<Rightarrow> im_GetMatches ep s)"
  by (cases op) (auto simp: im_defs Let_def split: option.splits)

lemma im_mismatches_step:
  "im_GetMismatches (apply_op inmemory_store op s) =
     (case op of AddMismatchOp mm \<Rightarrow> push_bounded (imsSize s) (im_GetMismatches s) mm
      | DeleteMismatchesOp \<Rightarrow> []
      | _ \<Rightarrow> im_GetMismatches s)"
  by (cases op) (auto simp: im_defs Let_def)

lemma im_count_step:
  "im_GetMatchesCount ep s = of_nat (length h) \<Longrightarrow>
   im_GetMatchesCount ep (apply_op inmemory_store op s) = of_nat (length (match_history ep h op))"
  by (cases op) (auto simp: im_defs Let_def)

lemma im_mismatch_count_step:
  "im_GetMismatchesCount s = of_nat (length h) \<Longrightarrow>
   im_GetMismatchesCount (apply_op inmemory_store op s) = of_nat (length (mismatch_history h op))"
  by (cases op) (auto simp: im_defs Let_def)

lemma set_push_bounded: "set (push_bounded sz l x) \<subseteq> insert x (set l)"
  by (cases l) (auto simp: push_bounded_def Let_def)

interpretation im: matchstore_contract inmemory_store "\<lambda>_. True"
proof unfold_locales
  fix s :: "('m, 'mm) InMemoryMatchstore" and ep and h :: "'m list" and h' :: "'mm list" and op l k
  show "GetMatchesCount inmemory_store ep s = Ok (of_nat (length h)) \<Longrightarrow>
    GetMatchesCount inmemory_store ep (apply_op inmemory_store op s) =
      Ok (of_nat (length (match_history ep h op)))"
    by (simp add: im_count_step)
  show "GetMismatchesCount inmemory_store s = Ok (of_nat (length h')) \<Longrightarrow>
    GetMismatchesCount inmemory_store (apply_op inmemory_store op s) =
      Ok (of_nat (length (mismatch_history h' op)))"
    by (simp add: im_mismatch_count_step)
  show "GetMatches inmemory_store ep s = Ok l \<Longrightarrow> set l \<subseteq> set h \<Longrightarrow>
    \<exists>l'. GetMatches inmemory_store ep (apply_op inmemory_store op s) = Ok l'
      \<and> set l' \<subseteq> set (match_history ep h op)"
    by (auto simp: im_matches_step split: store_op.splits dest!: set_push_bounded [THEN subsetD])
  show "GetMismatches inmemory_store s = Ok k \<Longrightarrow> set k \<subseteq> set h' \<Longrightarrow>
    \<exists>k'. GetMismatches inmemory_store (apply_op inmemory_store op s) = Ok k'
      \<and> set k' \<subseteq> set (mismatch_history h' op)"
    by (auto simp: im_mismatches_step split: store_op.splits dest!: set_push_bounded [THEN subsetD])
qed simp

section \<open>The bounded list as the end of a history\<close>

definition last_n :: "nat \<Rightarrow> 'a list \<Rightarrow> 'a list" where
  "last_n n xs = drop (length xs - n) xs"

lemma length_last_n: "length (last_n n xs) = min n (length xs)"
  by (simp add: last_n_def)

lemma last_n_snoc: "n \<le> length h \<Longrightarrow> last_n n (h @ [x]) = tl (last_n n h @ [x])"
proof -
  assume "n \<le> length h"
  then have "last_n n (h @ [x]) = drop (Suc (length h - n)) (h @ [x])"
    by (simp add: last_n_def Suc_diff_le)
  also have "\<dots> = tl (drop (length h - n) (h @ [x]))" by (simp only: drop_Suc tl_drop)
  also have "\<dots> = tl (last_n n h @ [x])" by (simp add: last_n_def)
  finally show "last_n n (h @ [x]) = tl (last_n n h @ [x])" .
qed

text \<open>The content a list of the store has after a history: its last \<open>size\<close> elements, and
  all of them when the capacity is the largest \<open>uint16\<close>.\<close>

definition retained :: "16 word \<Rightarrow> 'a list \<Rightarrow> 'a list" where
  "retained sz h = (if sz = 65535 then h else last_n (unat sz) h)"

lemma unat_of_nat_16: "n < 65536 \<Longrightarrow> unat (of_nat n :: 16 word) = n"
  by (simp add: unat_of_nat take_bit_eq_mod)

lemma max_uint16: "(65535 :: 16 word) = - 1"
  by simp

lemma unat_size_bound: "sz \<noteq> 65535 \<Longrightarrow> unat (sz :: 16 word) < 65535"
proof -
  assume "sz \<noteq> 65535"
  then have "sz \<noteq> - 1" by (simp only: max_uint16) simp
  moreover have "unat (- 1 :: 16 word) = 65535" by (simp add: unsigned_minus_1_eq_mask mask_eq_exp_minus_1)
  ultimately have "unat sz \<noteq> 65535" by (metis unsigned_word_eqI)
  moreover have "unat sz < 2 ^ 16" using unsigned_less [of sz] by simp
  ultimately show ?thesis by simp
qed

lemma push_bounded_retained: "push_bounded sz (retained sz h) x = retained sz (h @ [x])"
proof (cases "sz = 65535")
  case True
  have "\<not> sz < (of_nat (length (h @ [x])) :: 16 word)"
    unfolding True max_uint16 by (rule word_order.extremum_strict)
  then show ?thesis
    using True by (simp add: push_bounded_def retained_def del: length_append)
next
  case False
  let ?n = "unat sz"
  let ?l = "last_n ?n h @ [x]"
  have n: "?n < 65535" using unat_size_bound [OF False] .
  have len: "length ?l = Suc (min ?n (length h))" by (simp add: length_last_n)
  then have unat: "unat (of_nat (length ?l) :: 16 word) = Suc (min ?n (length h))"
    using n by (simp only: len) (rule unat_of_nat_16, simp)
  show ?thesis
  proof (cases "?n < Suc (length h)")
    case True
    then show ?thesis
      using False unat last_n_snoc [of ?n h x]
      by (simp add: push_bounded_def retained_def word_less_nat_alt Let_def)
  next
    case ge: False
    then show ?thesis
      using False unat
      by (simp add: push_bounded_def retained_def word_less_nat_alt Let_def) (simp add: last_n_def)
  qed
qed

lemma retained_Nil [simp]: "retained sz [] = []"
  by (simp add: retained_def last_n_def)

end
