(* ===== verification/EndpointMatch.thy ===== *)
theory EndpointMatch
  imports PathCorrect InMemory
begin

text \<open>
  How a request is matched to an endpoint (\<open>matchRequestToEndpoint\<close> and the functions it
  calls in \<open>mockgo/mock/requestHandler.go\<close>): the attributes of the endpoints at the node
  the path leads to, and the recording of the match or mismatch. A match is allocated and the
  store keeps its address, because the renderer fills in its response later. The time is an
  argument, the match store any record of its methods.
\<close>

section \<open>Attributes\<close>

definition matchQueryParams :: "MatchRequest \<Rightarrow> request \<Rightarrow> bool" where
  "matchQueryParams mr r =
     (if length (mrQuery mr) > 0
      then list_all (\<lambda>(key, val). values_get (urlQuery r) key = val) (mrQuery mr) else True)"

definition matchHeaderValues :: "MatchRequest \<Rightarrow> request \<Rightarrow> bool" where
  "matchHeaderValues mr r =
     (if length (mrHeaders mr) > 0
      then list_all (\<lambda>(key, val). header_get (reqHeader r) key = val) (mrHeaders mr) else True)"

text \<open>The body is read to its end, so the request is left with what reading leaves.\<close>

definition matchBody :: "MatchRequest \<Rightarrow> request \<Rightarrow> bool \<times> request" where
  "matchBody mr r =
     (case mrBodyRegexp mr of
        None \<Rightarrow> (True, r)
      | Some regexp \<Rightarrow>
          (case io_ReadAll (reqBody r) of
             (Inl e, b) \<Rightarrow> (False, r\<lparr>reqBody := b\<rparr>)
           | (Inr bytes, b) \<Rightarrow> (regexp bytes, r\<lparr>reqBody := b\<rparr>)))"

section \<open>Recording\<close>

record ('t, 's) handler_state =
  hsEpSearchNode :: "'t epSearchNode"
  hsMatchstore :: 's
  hsMatches :: "Match list"                 \<comment> \<open>the allocated matches, by address\<close>
  hsMatchesMetric :: "string \<Rightarrow> nat"
  hsMismatchesMetric :: nat

definition actual_request :: "request \<Rightarrow> ActualRequest" where
  "actual_request r =
     \<lparr>arMethod = reqMethod r, arURL = urlString r, arHeader = group_values (reqHeader r),
      arHost = reqHost r\<rparr>"

definition addMatch ::
  "('s, 'm) backend \<Rightarrow> int \<Rightarrow> 't Endpoint \<Rightarrow> request \<Rightarrow> ('t, 's) handler_state
     \<Rightarrow> nat \<times> ('t, 's) handler_state" where
  "addMatch ms now ep r s =
     (let match = \<lparr>mEndpointID = epID ep, mTimestamp = now, mActualRequest = actual_request r,
                   mActualResponse = None\<rparr>;
          addr = length (hsMatches s)
      in (addr, s\<lparr>hsMatches := hsMatches s @ [match],
                  hsMatchstore := fst (AddMatch (beStore ms (hsMatches s)) (epID ep) (beKept ms addr match) (hsMatchstore s)),
                  hsMatchesMetric := (hsMatchesMetric s)(epID ep := hsMatchesMetric s (epID ep) + 1)\<rparr>))"

definition max_int :: int where
  "max_int = 2 ^ 63 - 1"

definition mismatch_details :: "'t epSearchNode option \<Rightarrow> int \<Rightarrow> string \<Rightarrow> request \<Rightarrow> string result" where
  "mismatch_details sn pathPos endpointMismatchDetails r =
     (case sn of
        None \<Rightarrow> Ok (''path '' @ sq (urlPath r) @ '' matched, but '' @ endpointMismatchDetails)
      | Some _ \<Rightarrow>
          bind_result
            (if pathPos = max_int then Ok (urlPath r)
             else bind_result (slice_to (pathPos - 1) (path_segments (urlPath r)))
                    (\<lambda>segs. Ok (join_with ''/'' segs)))
            (\<lambda>matchedSubPath.
              Ok (''path '' @ sq (urlPath r) @ '' not matched, subpath which matched: ''
                @ sq matchedSubPath)))"

definition addMismatch ::
  "('s, 'm) backend \<Rightarrow> int \<Rightarrow> 't epSearchNode option \<Rightarrow> int \<Rightarrow> string \<Rightarrow> request
     \<Rightarrow> ('t, 's) handler_state \<Rightarrow> ('t, 's) handler_state result" where
  "addMismatch ms now sn pathPos endpointMismatchDetails r s =
     bind_result (mismatch_details sn pathPos endpointMismatchDetails r) (\<lambda>details.
       let mismatch = \<lparr>mmDetails = details, mmTimestamp = now, mmActualRequest = actual_request r\<rparr>
       in Ok (s\<lparr>hsMatchstore := fst (AddMismatch (beStore ms (hsMatches s)) mismatch (hsMatchstore s)),
                hsMismatchesMetric := hsMismatchesMetric s + 1\<rparr>))"

section \<open>Choosing an endpoint\<close>

definition no_query_msg :: "'t Endpoint \<Rightarrow> string" where
  "no_query_msg ep = '', endpointId '' @ sq (epID ep) @ '' not matched because of wanted query params: ''
     @ fmt_map (mrQuery (epRequest ep))"

definition no_header_msg :: "'t Endpoint \<Rightarrow> string" where
  "no_header_msg ep = '', endpointId '' @ sq (epID ep) @ '' not matched because of wanted header: ''
     @ fmt_map (mrHeaders (epRequest ep))"

definition no_body_msg :: "'t Endpoint \<Rightarrow> string" where
  "no_body_msg ep = '', endpointId '' @ sq (epID ep) @ '' not matched because of wanted body: ''
     @ sq (mrBody (epRequest ep))"

text \<open>The loop over the candidates: the chosen endpoint or the collected message, and the
  request as the regular expressions have left it.\<close>

primrec choose_endpoint ::
  "'t Endpoint list \<Rightarrow> string \<Rightarrow> request \<Rightarrow> (string + 't Endpoint) \<times> request" where
  "choose_endpoint [] mismatchMessage r = (Inl mismatchMessage, r)"
| "choose_endpoint (ep # eps) mismatchMessage r =
     (if \<not> matchQueryParams (epRequest ep) r
      then choose_endpoint eps (mismatchMessage @ no_query_msg ep) r
      else if \<not> matchHeaderValues (epRequest ep) r
      then choose_endpoint eps (mismatchMessage @ no_header_msg ep) r
      else case matchBody (epRequest ep) r of
             (matched, r') \<Rightarrow>
               if \<not> matched then choose_endpoint eps (mismatchMessage @ no_body_msg ep) r'
               else (Inr ep, r'))"

text \<open>What a matching attempt yields: endpoint, address of its match, path parameters, query
  parameters.\<close>

record 't match_outcome =
  moEndpoint :: "'t Endpoint option"
  moMatch :: "nat option"
  moPathParams :: "string \<rightharpoonup> string"
  moQueryParams :: "string \<rightharpoonup> string"

definition matchEndPointsAttributes ::
  "('s, 'm) backend \<Rightarrow> int \<Rightarrow> 't Endpoint list \<Rightarrow> request \<Rightarrow> ('t, 's) handler_state
     \<Rightarrow> (('t Endpoint option \<times> nat option) \<times> request \<times> ('t, 's) handler_state) result" where
  "matchEndPointsAttributes ms now eps r s =
     (case choose_endpoint eps [] r of
        (Inr ep, r') \<Rightarrow>
          (case addMatch ms now ep r' s of (addr, s') \<Rightarrow> Ok ((Some ep, Some addr), r', s'))
      | (Inl mismatchMessage, r') \<Rightarrow>
          bind_result (addMismatch ms now None (- 1) mismatchMessage r' s)
            (\<lambda>s'. Ok ((None, None), r', s')))"

definition no_method_msg :: "request \<Rightarrow> string" where
  "no_method_msg r = ''no endpoint found with method '' @ sq (reqMethod r)"

definition candidates :: "'t epSearchNode \<Rightarrow> request \<Rightarrow> 't Endpoint list" where
  "candidates sn r =
     eps_of sn (''+'' @ reqMethod r @ ''-'' @ hd (split_on (CHR '':'') (reqHost r)))
       @ eps_of sn (reqMethod r)"

definition matchSearchNode ::
  "('s, 'm) backend \<Rightarrow> int \<Rightarrow> 't epSearchNode \<Rightarrow> request
     \<Rightarrow> (string \<rightharpoonup> string) \<Rightarrow> (string \<rightharpoonup> string) \<Rightarrow> ('t, 's) handler_state
     \<Rightarrow> ('t match_outcome \<times> request \<times> ('t, 's) handler_state) result" where
  "matchSearchNode ms now sn r pathParams queryParams s =
     (if endpoints sn \<noteq> None then
        (if length (candidates sn r) > 0 then
           bind_result (matchEndPointsAttributes ms now (candidates sn r) r s)
             (\<lambda>((ep, match), r', s').
               Ok (\<lparr>moEndpoint = ep, moMatch = match, moPathParams = pathParams,
                    moQueryParams = queryParams\<rparr>, r', s'))
         else
           bind_result (addMismatch ms now None (- 1) (no_method_msg r) r s)
             (\<lambda>s'. Ok (\<lparr>moEndpoint = None, moMatch = None, moPathParams = pathParams,
                        moQueryParams = queryParams\<rparr>, r, s')))
      else
        bind_result (addMismatch ms now (Some sn) max_int [] r s)
          (\<lambda>s'. Ok (\<lparr>moEndpoint = None, moMatch = None, moPathParams = pathParams,
                     moQueryParams = queryParams\<rparr>, r, s')))"

definition matchRequestToEndpoint ::
  "('s, 'm) backend \<Rightarrow> int \<Rightarrow> request \<Rightarrow> ('t, 's) handler_state
     \<Rightarrow> ('t match_outcome \<times> request \<times> ('t, 's) handler_state) result" where
  "matchRequestToEndpoint ms now r s =
     (let queryParams = map_of (first_values (urlQuery r))
      in case walk_path (hsEpSearchNode s) (urlPath r) of
           NotReached sn pos pathParams \<Rightarrow>
             bind_result (addMismatch ms now (Some sn) (int pos) [] r s)
               (\<lambda>s'. Ok (\<lparr>moEndpoint = None, moMatch = None, moPathParams = pathParams,
                          moQueryParams = queryParams\<rparr>, r, s'))
         | Reached sn pathParams \<Rightarrow> matchSearchNode ms now sn r pathParams queryParams s)"

end
