(* ===== verification/Render.thy ===== *)
theory Render
  imports EndpointMatch
begin

text \<open>
  Rendering a response (\<open>renderResponse\<close> and \<open>createResponseTemplateData\<close> in
  \<open>mockgo/mock/requestHandler.go\<close>). The execution of a named template, which may change
  the world of the template functions (the key-value store), and the parsing of JSON and of
  YAML headers are arguments; executing a template whose functions panic is an error of the
  execution. \<open>'j\<close> is a JSON object, \<open>'k\<close> the world of the template functions.
\<close>

section \<open>Template data\<close>

record 'j responseTemplateData =
  RequestPathParams :: "string \<rightharpoonup> string"
  RequestQueryParams :: "string \<rightharpoonup> string"
  RequestHeader :: "string \<rightharpoonup> string"
  RequestURL :: string
  RequestPath :: string
  RequestHost :: string
  RequestBody :: string
  RequestBodyJSONData :: "'j option"
  ResponseStatus :: int

record ('t, 'j, 'k) template_env =
  ExecuteTemplate :: "'t \<Rightarrow> string \<Rightarrow> 'j responseTemplateData \<Rightarrow> 'k \<Rightarrow> (error + string) \<times> 'k"
  unmarshal_object :: "string \<Rightarrow> error + 'j"
  unmarshal_headers :: "string \<Rightarrow> error + (string, string) entries"

definition templateResponseBody :: string where "templateResponseBody = ''responseBody''"
definition templateResponseStatus :: string where "templateResponseStatus = ''responseStatus''"
definition templateResponseHeader :: string where "templateResponseHeader = ''responseHeader''"
definition headerKeyEndpointID :: string where "headerKeyEndpointID = ''endpoint-Id''"

definition createResponseTemplateData ::
  "('t, 'j, 'k) template_env \<Rightarrow> request \<Rightarrow> (string \<rightharpoonup> string) \<Rightarrow> (string \<rightharpoonup> string)
     \<Rightarrow> error + 'j responseTemplateData" where
  "createResponseTemplateData env r requestPathParams queryParams =
     (case fst (io_ReadAll (reqBody r)) of
        Inl e \<Rightarrow> Inl e
      | Inr body \<Rightarrow>
          Inr \<lparr>RequestPathParams = requestPathParams, RequestQueryParams = queryParams,
               RequestHeader = map_of (first_values (reqHeader r)), RequestURL = urlString r,
               RequestPath = urlPath r, RequestHost = urlHost r, RequestBody = body,
               RequestBodyJSONData =
                 (case unmarshal_object env body of Inl e \<Rightarrow> None | Inr j \<Rightarrow> Some j),
               ResponseStatus = 0\<rparr>)"

section \<open>Rendering\<close>

text \<open>What a rendering leaves: the response, the allocated matches, the world, and the panic
  that ended it, if one did.\<close>

record 'k render_state =
  rdWriter :: response_writer
  rdMatches :: "Match list"
  rdWorld :: 'k
  rdPanic :: "error option"

text \<open>The answer to an error: status 500 and a message.\<close>

definition render_error :: "string \<Rightarrow> error \<Rightarrow> 'k render_state \<Rightarrow> 'k render_state" where
  "render_error what e st =
     st\<lparr>rdWriter := write_bytes (''Error '' @ what @ '': '' @ e) (put_status 500 (rdWriter st))\<rparr>"

definition set_panic :: "error \<Rightarrow> 'k render_state \<Rightarrow> 'k render_state" where
  "set_panic e st = st\<lparr>rdPanic := Some e\<rparr>"

text \<open>Executing a named template of an endpoint into a buffer; a template that was never
  created is a nil dereference.\<close>

definition exec_template ::
  "('t, 'j, 'k) template_env \<Rightarrow> 't Endpoint \<Rightarrow> string \<Rightarrow> string \<Rightarrow> 'j responseTemplateData
     \<Rightarrow> 'k render_state \<Rightarrow> (string \<Rightarrow> 'k render_state \<Rightarrow> 'k render_state) \<Rightarrow> 'k render_state" where
  "exec_template env ep name what data st cont =
     (case rsTemplate (epResponse ep) of
        None \<Rightarrow> set_panic nil_deref st
      | Some t \<Rightarrow>
          (case ExecuteTemplate env t name data (rdWorld st) of
             (Inl e, k) \<Rightarrow> render_error what e (st\<lparr>rdWorld := k\<rparr>)
           | (Inr text, k) \<Rightarrow> cont text (st\<lparr>rdWorld := k\<rparr>)))"

text \<open>The last step: \<open>match.ActualResponse\<close> is set through the pointer.\<close>

definition set_actual_response :: "nat option \<Rightarrow> int \<Rightarrow> 'k render_state \<Rightarrow> 'k render_state" where
  "set_actual_response match status st =
     (case match of
        None \<Rightarrow> set_panic nil_deref st
      | Some a \<Rightarrow>
          st\<lparr>rdMatches := (rdMatches st)[a := (rdMatches st ! a)
               \<lparr>mActualResponse := Some \<lparr>asStatusCode = status, asHeader = []\<rparr>\<rparr>]\<rparr>)"

definition send_response :: "int \<Rightarrow> string \<Rightarrow> nat option \<Rightarrow> 'k render_state \<Rightarrow> 'k render_state" where
  "send_response status body match st =
     (case write_header status (rdWriter st) of
        Panic p \<Rightarrow> set_panic p st
      | Err e \<Rightarrow> set_panic e st
      | Ok w \<Rightarrow> set_actual_response match status (st\<lparr>rdWriter := write_bytes body w\<rparr>))"

definition add_headers :: "(string, string) entries \<Rightarrow> response_writer \<Rightarrow> response_writer" where
  "add_headers hs w = fold (\<lambda>(key, val). header_add key val) hs w"

definition renderResponse ::
  "('t, 'j, 'k) template_env \<Rightarrow> request \<Rightarrow> 't Endpoint option \<Rightarrow> nat option
     \<Rightarrow> (string \<rightharpoonup> string) \<Rightarrow> (string \<rightharpoonup> string) \<Rightarrow> 'k render_state \<Rightarrow> 'k render_state" where
  "renderResponse env r endpoint match requestPathParams queryParams st =
     (case endpoint of
        None \<Rightarrow> set_panic nil_deref st
      | Some ep \<Rightarrow>
          let st = st\<lparr>rdWriter := header_add headerKeyEndpointID (epID ep) (rdWriter st)\<rparr>
          in case createResponseTemplateData env r requestPathParams queryParams of
               Inl e \<Rightarrow> render_error ''rendering response'' e st
             | Inr data \<Rightarrow>
                 exec_template env ep templateResponseHeader ''rendering response headers'' data st
                   (\<lambda>renderedHeaders st.
                 case unmarshal_headers env renderedHeaders of
                   Inl e \<Rightarrow> render_error ''unmarshalling response headers'' e st
                 | Inr headers \<Rightarrow>
                     let st = st\<lparr>rdWriter := add_headers headers (rdWriter st)\<rparr>
                     in exec_template env ep templateResponseStatus ''rendering response status'' data st
                          (\<lambda>renderedStatus st.
                        case atoi renderedStatus of
                          Inl e \<Rightarrow> render_error ''converting response status'' e st
                        | Inr status \<Rightarrow>
                            exec_template env ep templateResponseBody ''rendering response body''
                              (data\<lparr>ResponseStatus := status\<rparr>) st
                              (\<lambda>renderedBody st. send_response status renderedBody match st))))"

end
