(* ===== verification/PathProps.thy ===== *)
theory PathProps
  imports PathCorrect
begin

text \<open>
  The properties of registration and path matching: insertion by priority, what a tree of
  registered endpoints holds, soundness and completeness of the walk, and the cases in which
  the walk departs from the README.
\<close>

section \<open>A single registered path\<close>

text \<open>The path parameters a pattern binds, segment by segment.\<close>

fun bindings :: "string list \<Rightarrow> string list \<Rightarrow> (string \<rightharpoonup> string) \<Rightarrow> (string \<rightharpoonup> string)" where
  "bindings (p # segs) (s # ss) ps =
     bindings segs ss (if segment_param p \<noteq> [] then ps(segment_param p \<mapsto> s) else ps)"
| "bindings segs ss ps = ps"

definition plain_segment :: "string \<Rightarrow> bool" where
  "plain_segment s \<longleftrightarrow> s \<noteq> ''*'' \<and> s \<noteq> ''**''"

lemma pathParamName_register_path [simp]:
  "pathParamName (register_path ep segs sn) = pathParamName sn"
  by (cases segs) (simp_all add: Let_def)

lemma segment_param_key: "segment_param p \<noteq> [] \<Longrightarrow> segment_key p = ''*''"
  by (simp add: segment_param_def segment_key_def split: if_splits)

lemma eps_of_put_fresh: "endpoints sn = None \<Longrightarrow> eps_of (put_endpoint ep sn) (ep_key ep) = [ep]"
  by (simp add: eps_of_put_endpoint) (simp add: eps_of_def insert_endpoint_eq has_lower_def)

lemma walk_single:
  assumes "searchNodes sn = None" and "endpoints sn = None"
    and "''**'' \<notin> set (butlast (map segment_key segs))"
    and "glob_match (map segment_key segs) ss" and "list_all plain_segment ss"
  shows "\<exists>n. walk (register_path ep segs sn) ss False ps = Some (n, bindings segs ss ps)
    \<and> eps_of n (ep_key ep) = [ep]"
  using assms
proof (induction segs arbitrary: sn ss ps)
  case Nil
  then show ?case by (simp add: eps_of_put_fresh)
next
  case (Cons p segs)
  from Cons.prems(4) obtain s ss' where ss: "ss = s # ss'" by (cases ss) auto
  define child where "child = register_path ep segs (set_param (segment_param p) empty_node)"
  have nodes: "searchNodes (register_path ep (p # segs) sn) = Some [segment_key p \<mapsto> child]"
    using Cons.prems(1) by (simp add: child_def Let_def)
  have param: "pathParamName child = segment_param p" by (simp add: child_def)
  have "plain_segment s" and rest: "list_all plain_segment ss'"
    using Cons.prems(5) by (simp_all add: ss)
  then have plain: "s \<noteq> ''*''" "s \<noteq> ''**''" "list_all plain_segment ss'"
    by (simp_all add: plain_segment_def)
  show ?case
  proof (cases "segment_key p = ''**''")
    case True
    with Cons.prems(3) have segs: "segs = []" by (auto split: if_splits)
    from True have "segment_param p = []" using segment_param_key by force
    moreover have "walk child ss' True ps = Some (child, ps)"
      by (cases ss') (simp_all add: child_def segs)
    ultimately show ?thesis
      using nodes True plain
      by (simp add: ss segs child_def eps_of_put_fresh del: register_path.simps(2))
  next
    case False
    have sub: "\<exists>n. walk child ss' False ps' = Some (n, bindings segs ss' ps')
        \<and> eps_of n (ep_key ep) = [ep]" for ps'
      unfolding child_def
      using Cons.prems(3,4) plain(3) False
      by (intro Cons.IH) (auto simp: ss dest: in_set_butlastD split: if_splits)
    show ?thesis
    proof (cases "segment_key p = ''*''")
      case True
      with sub [of "if segment_param p \<noteq> [] then ps(segment_param p \<mapsto> s) else ps"] nodes plain param
      show ?thesis
        by (cases "segment_param p = []") (simp_all add: ss bind_param_def del: register_path.simps(2))
    next
      case lit: False
      with False Cons.prems(4) have "segment_key p = s" by (simp add: ss)
      moreover from lit have "segment_param p = []" using segment_param_key by blast
      ultimately show ?thesis
        using sub [of ps] nodes by (simp add: ss del: register_path.simps(2))
    qed
  qed
qed

section \<open>Example endpoints for the closed theorems\<close>

definition example_ep :: "string \<Rightarrow> int \<Rightarrow> string \<Rightarrow> unit Endpoint" where
  "example_ep i prio path =
     \<lparr>epID = i, epMock = None, epPrio = prio,
      epRequest = \<lparr>mrHost = [], mrMethod = [], mrPath = path, mrQuery = [], mrHeaders = [],
        mrBody = [], mrBodyRegexp = None\<rparr>,
      epResponse = \<lparr>rsTemplate = None, rsStatusCode = [], rsHeaders = [], rsBody = [],
        rsBodyFilename = []\<rparr>\<rparr>"

definition reached_ids ::
  "'t Endpoint list \<Rightarrow> string \<Rightarrow> (string list \<times> (string \<rightharpoonup> string)) option" where
  "reached_ids eps path =
     map_option (\<lambda>(n, ps). (map epID (eps_of n ''GET''), ps))
       (reached (walk_path (fold registerEndpoint eps empty_node) path))"

definition reached_param :: "'t Endpoint list \<Rightarrow> string \<Rightarrow> string \<Rightarrow> string option" where
  "reached_param eps path name = Option.bind (reached_ids eps path) (\<lambda>(_, ps). ps name)"

definition reached_endpoints :: "'t Endpoint list \<Rightarrow> string \<Rightarrow> string list option" where
  "reached_endpoints eps path = map_option fst (reached_ids eps path)"

section \<open>Registration\<close>

text \<open>C20: Registration loses and invents nothing: after any sequence of registrations the
  endpoints stored at a tree position under an endpoint key are exactly the registered
  endpoints with those path keys and that method/host key (with the default method filled in),
  as many as were registered.\<close>

theorem registered_endpoints_exact:
  fixes eps :: "'t Endpoint list"
  shows "set (eps_at (fold registerEndpoint eps empty_node) ks key) =
      {e \<in> default_method ` set eps. tree_keys e = ks \<and> ep_key e = key}
    \<and> length (eps_at (fold registerEndpoint eps empty_node) ks key) =
      length (filter (\<lambda>e. tree_keys e = ks \<and> ep_key (default_method e) = key) eps)"
proof
  show "length (eps_at (fold registerEndpoint eps empty_node) ks key) =
      length (filter (\<lambda>e. tree_keys e = ks \<and> ep_key (default_method e) = key) eps)"
    by (simp add: eps_at_fold_register length_fold_insert filter_map comp_def registered_under_def)
qed (rule eps_at_registered)

text \<open>C21: Inserting an endpoint into a list sorted by descending priority keeps the list sorted
  exactly when the list holds an endpoint of lower priority, or only endpoints of the same
  priority. In particular it breaks the order when every registered endpoint has a priority at
  least as high and one is higher, because the index loop then leaves its initial value 0.\<close>

theorem insert_endpoint_sorted_iff:
  assumes "prio_sorted eps"
  shows "prio_sorted (insert_endpoint ep eps) \<longleftrightarrow>
    (\<exists>e\<in>set eps. epPrio e < epPrio ep) \<or> (\<forall>e\<in>set eps. epPrio e = epPrio ep)"
proof (cases "has_lower ep eps")
  case True
  then show ?thesis
    using prio_sorted_insert_lower [OF assms True] by (simp add: has_lower_def)
next
  case False
  then show ?thesis
    using prio_sorted_insert_front [OF assms False] by (auto simp: has_lower_def)
qed

theorem insert_endpoint_sorted_iff_witness:
  "prio_sorted [example_ep ''a'' 3 ''/p'', example_ep ''b'' 1 ''/p''] \<and>
   prio_sorted (insert_endpoint (example_ep ''c'' 2 ''/p'')
     [example_ep ''a'' 3 ''/p'', example_ep ''b'' 1 ''/p''])"
proof -
  have s: "prio_sorted [example_ep ''a'' 3 ''/p'', example_ep ''b'' 1 ''/p'']"
    by (simp add: prio_sorted_def example_ep_def)
  show ?thesis
    using s insert_endpoint_sorted_iff [OF s, of "example_ep ''c'' 2 ''/p''"]
    by (simp add: example_ep_def)
qed

text \<open>An endpoint of low priority registered after one of high priority for the same path,
  method and host is put in front of it, so it is the one tried first: priority 1 wins over
  priority 5.\<close>

theorem low_priority_registered_last_wins:
  "reached_endpoints [example_ep ''high'' 5 ''/p'', example_ep ''low'' 1 ''/p''] ''/p'' =
     Some [''low'', ''high'']"
  by code_simp

section \<open>Path matching\<close>

lemma path_match_sound_aux:
  assumes "\<forall>ep\<in>set eps. [] \<notin> set (path_segments (mrPath (epRequest ep)))"
    and "walk_path (fold registerEndpoint eps empty_node) path = Reached n ps"
    and "e \<in> set (eps_of n key)"
  shows "e \<in> default_method ` set eps \<and> ep_key e = key
    \<and> glob_match (tree_keys e) (effective (path_segments path))"
proof -
  let ?root = "fold registerEndpoint eps empty_node"
  have "walk ?root (effective (path_segments path)) False Map.empty = Some (n, ps)"
    using assms(2) walk_path_walk [of ?root path] by (simp add: reached_def)
  from walk_sound [OF this keys_nonempty_registered [OF assms(1)]] obtain ks where
    ks: "node_at ?root ks = Some n" "glob_match ks (effective (path_segments path))" by auto
  from ks(1) assms(3) have "e \<in> set (eps_at ?root ks key)" by (simp add: eps_at_def)
  with ks(2) show ?thesis unfolding eps_at_registered by auto
qed

text \<open>C4: Soundness of path matching: in a tree built by registering endpoints none of whose
  paths has an empty segment, every endpoint offered at the node a request path reaches is a
  registered one whose path pattern, read as in the README (\<open>*\<close> and \<open>{name}\<close> one
  segment, \<open>**\<close> one or more), matches the request's segments up to the first empty one.\<close>

theorem path_match_sound:
  assumes "\<forall>ep\<in>set eps. [] \<notin> set (path_segments (mrPath (epRequest ep)))"
    and "walk_path (fold registerEndpoint eps empty_node) path = Reached n ps"
    and "e \<in> set (eps_of n key)"
  shows "e \<in> default_method ` set eps \<and> ep_key e = key
    \<and> glob_match (tree_keys e) (effective (path_segments path))"
  using assms by (rule path_match_sound_aux)

theorem path_match_sound_witness:
  "glob_match (tree_keys (default_method (example_ep ''w'' 0 ''/a/*/c'')))
     (effective (path_segments ''/a/b/c''))"
proof -
  let ?eps = "[example_ep ''w'' 0 ''/a/*/c'']"
  have segs: "path_segments ''/a/*/c'' = [''a'', ''*'', ''c'']" by (simp add: path_segments_def)
  have h1: "\<forall>ep\<in>set ?eps. [] \<notin> set (path_segments (mrPath (epRequest ep)))"
    by (simp add: example_ep_def segs)
  have "map_option (\<lambda>(n, ps). map epID (eps_of n ''GET''))
      (reached (walk_path (fold registerEndpoint ?eps empty_node) ''/a/b/c'')) = Some [''w'']"
    by code_simp
  then obtain n ps where n: "walk_path (fold registerEndpoint ?eps empty_node) ''/a/b/c'' = Reached n ps"
    "map epID (eps_of n ''GET'') = [''w'']"
    by (auto simp: reached_def split: path_result.splits)
  then obtain e where e: "e \<in> set (eps_of n ''GET'')" by (cases "eps_of n ''GET''") auto
  from path_match_sound [OF h1 n(1) e] show ?thesis by auto
qed

text \<open>A path without wildcards and parameters is always found: whatever else is registered,
  a request for exactly that path reaches the node that holds the endpoint, with no path
  parameter bound, because a child for the literal segment is preferred to \<open>*\<close> and
  \<open>**\<close>.\<close>

theorem literal_path_found:
  assumes "ep \<in> set eps"
    and "\<forall>seg\<in>set (path_segments (mrPath (epRequest ep))). seg \<noteq> [] \<and> \<not> is_path_param seg"
  shows "\<exists>n. walk_path (fold registerEndpoint eps empty_node) (mrPath (epRequest ep)) = Reached n Map.empty
    \<and> default_method ep \<in> set (eps_of n (ep_key (default_method ep)))"
proof -
  let ?root = "fold registerEndpoint eps empty_node"
  let ?segs = "path_segments (mrPath (epRequest ep))"
  have keys: "tree_keys ep = ?segs"
    using assms(2) by (auto simp: tree_keys_def segment_key_def map_idI)
  have eff: "effective ?segs = ?segs"
    using assms(2) by (auto simp: effective_def takeWhile_eq_all_conv)
  have "node_at ?root ?segs \<noteq> None"
  proof -
    have "\<exists>e\<in>set eps. \<exists>t. tree_keys e = ?segs @ t" using assms(1) keys by (metis append_Nil2)
    then show ?thesis by (simp only: node_at_fold_register simp_thms)
  qed
  then obtain n where n: "node_at ?root ?segs = Some n" by auto
  then have "walk_path ?root (mrPath (epRequest ep)) = Reached n Map.empty"
    using walk_exact [OF n] walk_path_walk [of ?root "mrPath (epRequest ep)"]
    by (simp add: eff reached_iff)
  moreover have "default_method ep \<in> set (eps_at ?root ?segs (ep_key (default_method ep)))"
    using assms(1) keys by (simp add: eps_at_registered)
  ultimately show ?thesis using n by (auto simp: eps_at_def)
qed

theorem literal_path_found_witness:
  "\<exists>n. walk_path (fold registerEndpoint
       [example_ep ''w'' 0 ''/a/*'', example_ep ''l'' 0 ''/a/b''] empty_node) ''/a/b'' = Reached n Map.empty
     \<and> default_method (example_ep ''l'' 0 ''/a/b'') \<in> set (eps_of n ''GET'')"
proof -
  let ?eps = "[example_ep ''w'' 0 ''/a/*'', example_ep ''l'' 0 ''/a/b'']"
  let ?ep = "example_ep ''l'' 0 ''/a/b''"
  have path: "mrPath (epRequest ?ep) = ''/a/b''" by (simp add: example_ep_def)
  have segs: "path_segments ''/a/b'' = [''a'', ''b'']" by (simp add: path_segments_def)
  have key: "ep_key (default_method ?ep) = ''GET''" by code_simp
  show ?thesis
    using literal_path_found [of ?ep ?eps] unfolding path segs key
    by (simp add: is_path_param_def has_prefix_def)
qed

lemma walk_path_single:
  fixes ep :: "'t Endpoint" and path :: string
  defines "segs \<equiv> path_segments (mrPath (epRequest ep))"
    and "ss \<equiv> effective (path_segments path)"
    and "key \<equiv> ep_key (default_method ep)"
  assumes "[] \<notin> set segs" and "''**'' \<notin> set (butlast (tree_keys ep))"
    and "list_all plain_segment ss"
  shows "case walk_path (registerEndpoint ep empty_node) path of
      Reached n ps \<Rightarrow>
        eps_of n key = (if glob_match (tree_keys ep) ss then [default_method ep] else [])
        \<and> (glob_match (tree_keys ep) ss \<longrightarrow> ps = bindings segs ss Map.empty)
    | NotReached _ _ _ \<Rightarrow> \<not> glob_match (tree_keys ep) ss"
proof -
  let ?root = "registerEndpoint ep empty_node"
  have root: "?root = register_path (default_method ep) segs empty_node"
    by (simp add: registerEndpoint_def Let_def segs_def)
  have keys: "tree_keys ep = map segment_key segs" by (simp add: tree_keys_def segs_def)
  show ?thesis
  proof (cases "glob_match (tree_keys ep) ss")
    case True
    with assms(5,6) obtain n where
      n: "walk ?root ss False Map.empty = Some (n, bindings segs ss Map.empty)"
      "eps_of n key = [default_method ep]"
      using walk_single [of empty_node segs ss "default_method ep" Map.empty]
      by (auto simp: root keys key_def)
    then have "walk_path ?root path = Reached n (bindings segs ss Map.empty)"
      using walk_path_walk [of ?root path] by (simp add: ss_def reached_iff)
    with n(2) True show ?thesis by simp
  next
    case False
    have "eps_of n key = []" if reached: "walk_path ?root path = Reached n ps" for n ps
    proof (rule ccontr)
      assume "eps_of n key \<noteq> []"
      then obtain e where "e \<in> set (eps_of n key)" by (cases "eps_of n key") auto
      with path_match_sound_aux [of "[ep]" path n ps e key] reached assms(4)
      have "glob_match (tree_keys e) (effective (path_segments path)) \<and> e = default_method ep"
        by (auto simp: segs_def)
      with False show False by (auto simp: ss_def)
    qed
    with False show ?thesis by (simp split: path_result.split)
  qed
qed

text \<open>C5: One registered path whose only \<open>**\<close> (if any) is its last segment is matched
  exactly by the requests its pattern matches: the endpoint is offered if and only if the
  pattern matches, and then every \<open>{name}\<close> is bound to the request segment at its place
  (request segments that are themselves \<open>*\<close> or \<open>**\<close> are excluded: they hit
  the wildcard nodes literally).\<close>

theorem single_path_complete:
  fixes ep :: "'t Endpoint" and path :: string
  defines "segs \<equiv> path_segments (mrPath (epRequest ep))"
    and "ss \<equiv> effective (path_segments path)"
    and "key \<equiv> ep_key (default_method ep)"
  assumes "[] \<notin> set segs" and "''**'' \<notin> set (butlast (tree_keys ep))"
    and "list_all plain_segment ss"
  shows "case walk_path (registerEndpoint ep empty_node) path of
      Reached n ps \<Rightarrow>
        eps_of n key = (if glob_match (tree_keys ep) ss then [default_method ep] else [])
        \<and> (glob_match (tree_keys ep) ss \<longrightarrow> ps = bindings segs ss Map.empty)
    | NotReached _ _ _ \<Rightarrow> \<not> glob_match (tree_keys ep) ss"
  unfolding segs_def ss_def key_def by (rule walk_path_single [OF assms(4-6) [unfolded segs_def ss_def]])

theorem single_path_complete_witness:
  "case walk_path (registerEndpoint (example_ep ''u'' 0 ''/users/{id}/**'') empty_node) ''/users/7/a/b'' of
      Reached n ps \<Rightarrow> map epID (eps_of n ''GET'') = [''u''] \<and> ps ''id'' = Some ''7''
    | NotReached _ _ _ \<Rightarrow> False"
proof -
  let ?ep = "example_ep ''u'' 0 ''/users/{id}/**''"
  have segs: "path_segments (mrPath (epRequest ?ep)) = [''users'', ''{id}'', ''**'']"
    by (simp add: path_segments_def example_ep_def)
  have keys: "tree_keys ?ep = [''users'', ''*'', ''**'']" by code_simp
  have ss: "effective (path_segments ''/users/7/a/b'') = [''users'', ''7'', ''a'', ''b'']" by code_simp
  have key: "ep_key (default_method ?ep) = ''GET''" by code_simp
  have b: "bindings [''users'', ''{id}'', ''**''] [''users'', ''7'', ''a'', ''b''] Map.empty ''id'' = Some ''7''"
    by code_simp
  have "[] \<notin> set (path_segments (mrPath (epRequest ?ep)))"
    and "''**'' \<notin> set (butlast (tree_keys ?ep))"
    and "list_all plain_segment (effective (path_segments ''/users/7/a/b''))"
    unfolding segs keys ss by (simp_all add: plain_segment_def)
  from single_path_complete [OF this] show ?thesis
    unfolding segs keys ss key using b
    by (auto simp: example_ep_def default_method_def split: path_result.splits)
qed

text \<open>A trailing slash of the request is ignored: the walk for \<open>p/\<close> ends at the same
  node with the same path parameters as the walk for \<open>p\<close> (for an absolute path p).\<close>

theorem trailing_slash_ignored:
  assumes "has_prefix p ''/''"
  shows "reached (walk_path root (p @ ''/'')) = reached (walk_path root p)"
proof -
  have split: "split_on c (q @ [c]) = split_on c q @ [[]]" for c q
    by (induction q) (auto split: list.splits)
  have "path_segments (p @ ''/'') = path_segments p @ [[]]"
    by (simp add: path_segments_def split tl_append split: list.split)
  then have "effective (path_segments (p @ ''/'')) = effective (path_segments p)"
    by (simp add: effective_def takeWhile_tail)
  then show ?thesis by (simp add: walk_path_walk)
qed

theorem trailing_slash_ignored_witness:
  "reached_endpoints [example_ep ''f'' 0 ''/foo''] (''/foo'' @ ''/'') = Some [''f'']"
proof -
  have p: "has_prefix ''/foo'' ''/''" by (simp add: has_prefix_def)
  have "reached_endpoints [example_ep ''f'' 0 ''/foo''] ''/foo'' = Some [''f'']" by code_simp
  then show ?thesis
    by (simp only: reached_endpoints_def reached_ids_def trailing_slash_ignored [OF p])
qed

text \<open>An endpoint registered for the path \<open>/\<close> alone is never offered: for no request
  path does the walk end at a node that holds it.\<close>

theorem root_path_unreachable:
  assumes "mrPath (epRequest ep) = ''/''"
    and "walk_path (registerEndpoint ep empty_node) path = Reached n ps"
  shows "eps_of n key = []"
proof -
  let ?root = "registerEndpoint ep empty_node"
  have "path_segments ''/'' = [[]]" by (simp add: path_segments_def)
  then have root: "?root = register_path (default_method ep) [[]] empty_node"
    using assms(1) by (simp add: registerEndpoint_def Let_def)
  have key: "segment_key [] = []" by simp
  have "walk ?root (effective (path_segments path)) False Map.empty = Some (n, ps)"
    using assms(2) walk_path_walk [of ?root path] by (simp add: reached_def)
  moreover have "s \<noteq> []" if "effective (path_segments path) = s # ss" for s ss
    using that by (cases "path_segments path") (auto simp: effective_def split: if_splits)
  ultimately have "n = ?root"
    by (cases "effective (path_segments path)") (auto simp: root Let_def key split: if_splits)
  then show ?thesis by (simp add: root eps_of_def Let_def)
qed

theorem root_path_unreachable_witness:
  "reached_endpoints [example_ep ''root'' 0 ''/''] ''/'' = Some []"
proof -
  have w: "reached (walk_path (registerEndpoint (example_ep ''root'' 0 ''/'') empty_node) ''/'') \<noteq> None"
    by code_simp
  then obtain n ps where n: "walk_path (registerEndpoint (example_ep ''root'' 0 ''/'') empty_node) ''/'' = Reached n ps"
    by (auto simp: reached_iff)
  have p: "mrPath (epRequest (example_ep ''root'' 0 ''/'')) = ''/''" by (simp add: example_ep_def)
  show ?thesis
    using n root_path_unreachable [OF p n, of "''GET''"]
    by (simp add: reached_endpoints_def reached_ids_def reached_def)
qed

text \<open>The walk does not backtrack: with \<open>/a/*/c\<close> and \<open>/a/b/d\<close> registered, a
  request for \<open>/a/b/c\<close> is a mismatch although the first pattern matches it, because the
  literal child \<open>b\<close> is entered and never left. Registering the second endpoint thus
  changes which requests the first one serves.\<close>

theorem wildcard_shadowed_by_literal:
  "reached_endpoints [example_ep ''w'' 0 ''/a/*/c''] ''/a/b/c'' = Some [''w'']
   \<and> reached_endpoints [example_ep ''w'' 0 ''/a/*/c'', example_ep ''l'' 0 ''/a/b/d''] ''/a/b/c'' = None
   \<and> glob_match (tree_keys (example_ep ''w'' 0 ''/a/*/c'')) (effective (path_segments ''/a/b/c''))"
  by (intro conjI; code_simp)

text \<open>A \<open>**\<close> followed by a wildcard or a parameter takes one segment only:
  \<open>/foo/**/{bar}\<close> matches \<open>/foo/x/1\<close>, binding \<open>bar\<close> to the empty
  string, and does not match \<open>/foo/x/y/1\<close>, which the pattern language accepts.\<close>

theorem stars_before_param_take_one:
  "reached_param [example_ep ''e'' 0 ''/foo/**/{bar}''] ''/foo/x/1'' ''bar'' = Some []
   \<and> reached_endpoints [example_ep ''e'' 0 ''/foo/**/{bar}''] ''/foo/x/1'' = Some [''e'']
   \<and> reached_endpoints [example_ep ''e'' 0 ''/foo/**/{bar}''] ''/foo/x/y/1'' = None
   \<and> glob_match (tree_keys (example_ep ''e'' 0 ''/foo/**/{bar}'')) (effective (path_segments ''/foo/x/y/1''))"
  by (intro conjI; code_simp)

text \<open>A wildcard node has one parameter name, that of the last registration: with
  \<open>/a/{x}/b\<close> and then \<open>/a/{y}/c\<close> registered, a request served by the first
  endpoint binds \<open>y\<close> and leaves \<open>x\<close> unbound.\<close>

theorem path_param_name_overwritten:
  "reached_param [example_ep ''b'' 0 ''/a/{x}/b''] ''/a/1/b'' ''x'' = Some ''1''
   \<and> reached_endpoints [example_ep ''b'' 0 ''/a/{x}/b'', example_ep ''c'' 0 ''/a/{y}/c''] ''/a/1/b'' = Some [''b'']
   \<and> reached_param [example_ep ''b'' 0 ''/a/{x}/b'', example_ep ''c'' 0 ''/a/{y}/c''] ''/a/1/b'' ''x'' = None
   \<and> reached_param [example_ep ''b'' 0 ''/a/{x}/b'', example_ep ''c'' 0 ''/a/{y}/c''] ''/a/1/b'' ''y'' = Some ''1''"
  by (intro conjI; code_simp)

end
