(* ===== verification/EndpointProps.thy ===== *)
theory EndpointProps
  imports EndpointMatch PathProps
begin

text \<open>
  What matching a request does: which endpoint is chosen among the candidates and how the
  body is consumed on the way, that every request is recorded exactly once and nothing
  panics, and that the metrics and the store agree.
\<close>

section \<open>The choice\<close>

definition wants_body :: "'t Endpoint \<Rightarrow> bool" where
  "wants_body ep \<longleftrightarrow> mrBodyRegexp (epRequest ep) \<noteq> None"

definition attributes_match :: "'t Endpoint \<Rightarrow> request \<Rightarrow> bool" where
  "attributes_match ep r \<longleftrightarrow> matchQueryParams (epRequest ep) r \<and> matchHeaderValues (epRequest ep) r"

text \<open>The endpoint matches the request if the body it sees is \<open>b\<close>.\<close>

definition satisfied :: "'t Endpoint \<Rightarrow> request \<Rightarrow> string \<Rightarrow> bool" where
  "satisfied ep r b \<longleftrightarrow> attributes_match ep r
     \<and> (case mrBodyRegexp (epRequest ep) of None \<Rightarrow> True | Some regexp \<Rightarrow> regexp b)"

definition reads_body :: "request \<Rightarrow> 't Endpoint \<Rightarrow> bool" where
  "reads_body r ep \<longleftrightarrow> attributes_match ep r \<and> wants_body ep"

text \<open>The body left for a candidate: nothing once an earlier candidate has read it.\<close>

definition body_left :: "request \<Rightarrow> string \<Rightarrow> 't Endpoint list \<Rightarrow> string" where
  "body_left r b before = (if list_ex (reads_body r) before then [] else b)"

lemma attributes_match_body [simp]:
  "matchQueryParams mr (r\<lparr>reqBody := b\<rparr>) = matchQueryParams mr r"
  "matchHeaderValues mr (r\<lparr>reqBody := b\<rparr>) = matchHeaderValues mr r"
  "attributes_match ep (r\<lparr>reqBody := b\<rparr>) = attributes_match ep r"
  "satisfied ep (r\<lparr>reqBody := b\<rparr>) = satisfied ep r"
  "reads_body (r\<lparr>reqBody := b\<rparr>) = reads_body r"
  by (auto simp: matchQueryParams_def matchHeaderValues_def attributes_match_def satisfied_def
      reads_body_def fun_eq_iff)

lemma body_left_body [simp]: "body_left (r\<lparr>reqBody := x\<rparr>) = body_left r"
  by (simp add: body_left_def fun_eq_iff)

lemma choose_endpoint_step:
  assumes "reqBody r = Unread b"
  shows "choose_endpoint (ep # eps) msg r =
    (let r' = (if reads_body r ep then r\<lparr>reqBody := Unread []\<rparr> else r)
     in if satisfied ep r b then (Inr ep, r')
        else choose_endpoint eps
          (msg @ (if \<not> matchQueryParams (epRequest ep) r then no_query_msg ep
                  else if \<not> matchHeaderValues (epRequest ep) r then no_header_msg ep
                  else no_body_msg ep)) r')"
  using assms
  by (auto simp: satisfied_def reads_body_def wants_body_def attributes_match_def matchBody_def
      Let_def split: option.split)

definition none_satisfied :: "request \<Rightarrow> string \<Rightarrow> 't Endpoint list \<Rightarrow> bool" where
  "none_satisfied r b eps \<longleftrightarrow>
     (\<forall>i<length eps. \<not> satisfied (eps ! i) r (body_left r b (take i eps)))"

lemma none_satisfied_Nil [simp]: "none_satisfied r b []"
  by (simp add: none_satisfied_def)

lemma none_satisfied_Cons:
  "none_satisfied r b (ep # eps) \<longleftrightarrow>
   \<not> satisfied ep r b \<and> none_satisfied r (if reads_body r ep then [] else b) eps"
proof -
  have left: "body_left r b (ep # l) = body_left r (if reads_body r ep then [] else b) l" for l
    by (simp add: body_left_def)
  show ?thesis
    by (simp add: none_satisfied_def All_less_Suc2 left) (simp add: body_left_def)
qed

lemma none_satisfied_body [simp]: "none_satisfied (r\<lparr>reqBody := x\<rparr>) = none_satisfied r"
  by (simp add: none_satisfied_def fun_eq_iff)

lemma choose_endpoint_split:
  assumes "reqBody r = Unread b"
  shows "case fst (choose_endpoint eps msg r) of
      Inr ep \<Rightarrow> \<exists>i<length eps. ep = eps ! i \<and> satisfied ep r (body_left r b (take i eps))
        \<and> none_satisfied r b (take i eps)
    | Inl m \<Rightarrow> none_satisfied r b eps"
  using assms
proof (induction eps arbitrary: msg r b)
  case (Cons ep eps)
  define b' where "b' = (if reads_body r ep then [] else b)"
  define r' where "r' = (if reads_body r ep then r\<lparr>reqBody := Unread []\<rparr> else r)"
  have r': "reqBody r' = Unread b'" "satisfied e r' = satisfied e r"
    "body_left r' b' = body_left r b'" "none_satisfied r' b' = none_satisfied r b'" for e :: "'a Endpoint"
    using Cons.prems by (simp_all add: r'_def b'_def)
  show ?case
  proof (cases "satisfied ep r b")
    case True
    then show ?thesis
      by (simp only: choose_endpoint_step [OF Cons.prems] Let_def if_True fst_conv sum.case)
        (auto simp: body_left_def intro: exI [where x = 0])
  next
    case False
    define msg' where "msg' = msg @ (if \<not> matchQueryParams (epRequest ep) r then no_query_msg ep
                  else if \<not> matchHeaderValues (epRequest ep) r then no_header_msg ep
                  else no_body_msg ep)"
    have step: "choose_endpoint (ep # eps) msg r = choose_endpoint eps msg' r'"
      using False by (simp only: choose_endpoint_step [OF Cons.prems] Let_def if_False r'_def msg'_def)
    have left: "body_left r b (ep # l) = body_left r b' l" for l
      by (simp add: body_left_def b'_def)
    have none: "none_satisfied r b (ep # l) \<longleftrightarrow> none_satisfied r b' l" for l
      using False by (simp add: none_satisfied_Cons b'_def)
    show ?thesis
    proof (cases "fst (choose_endpoint eps msg' r')")
      case (Inl m)
      with Cons.IH [OF r'(1), of msg'] show ?thesis
        by (simp only: step none sum.case r')
    next
      case (Inr e)
      with Cons.IH [OF r'(1), of msg'] obtain i where
        "i < length eps" "e = eps ! i" "satisfied e r (body_left r b' (take i eps))"
        "none_satisfied r b' (take i eps)"
        by (auto simp: r')
      then have "Suc i < length (ep # eps) \<and> e = (ep # eps) ! Suc i
          \<and> satisfied e r (body_left r b (take (Suc i) (ep # eps)))
          \<and> none_satisfied r b (take (Suc i) (ep # eps))"
        by (simp add: left none)
      with Inr show ?thesis by (simp only: step sum.case) blast
    qed
  qed
qed simp

lemma choose_endpoint_request: "\<exists>b. snd (choose_endpoint eps msg r) = r\<lparr>reqBody := b\<rparr>"
proof (induction eps arbitrary: msg r)
  case Nil
  show ?case by (rule exI [where x = "reqBody r"]) simp
next
  case (Cons ep eps)
  obtain ok b where m: "matchBody (epRequest ep) r = (ok, r\<lparr>reqBody := b\<rparr>)"
  proof (cases "mrBodyRegexp (epRequest ep)")
    case None
    then show ?thesis using that [of True "reqBody r"] by (simp add: matchBody_def)
  next
    case (Some re)
    then show ?thesis
      using that [of "fst (matchBody (epRequest ep) r)" "snd (io_ReadAll (reqBody r))"]
      by (cases "reqBody r") (simp_all add: matchBody_def)
  qed
  have id: "\<exists>b. r = r\<lparr>reqBody := b\<rparr>" by (rule exI [where x = "reqBody r"]) simp
  show ?case
    using Cons.IH [of _ r] Cons.IH [of _ "r\<lparr>reqBody := b\<rparr>"] id by (auto simp: m)
qed

section \<open>Recording\<close>

text \<open>What matching a request may do to the state: the record of a match of an endpoint, or of a
  mismatch.\<close>

definition match_recorded ::
  "('s, 'm) backend \<Rightarrow> int \<Rightarrow> 't Endpoint \<Rightarrow> request \<Rightarrow> ('t, 's) handler_state
     \<Rightarrow> ('t, 's) handler_state" where
  "match_recorded ms now ep r s =
     s\<lparr>hsMatches := hsMatches s @ [\<lparr>mEndpointID = epID ep, mTimestamp = now,
         mActualRequest = actual_request r, mActualResponse = None\<rparr>],
       hsMatchstore := fst (AddMatch (beStore ms (hsMatches s)) (epID ep) (beKept ms (length (hsMatches s))
         \<lparr>mEndpointID = epID ep, mTimestamp = now,
         mActualRequest = actual_request r, mActualResponse = None\<rparr>) (hsMatchstore s)),
       hsMatchesMetric := (hsMatchesMetric s)(epID ep := Suc (hsMatchesMetric s (epID ep)))\<rparr>"

definition mismatch_recorded ::
  "('s, 'm) backend \<Rightarrow> int \<Rightarrow> string \<Rightarrow> request \<Rightarrow> ('t, 's) handler_state
     \<Rightarrow> ('t, 's) handler_state" where
  "mismatch_recorded ms now details r s =
     s\<lparr>hsMatchstore := fst (AddMismatch (beStore ms (hsMatches s)) \<lparr>mmDetails = details, mmTimestamp = now,
         mmActualRequest = actual_request r\<rparr> (hsMatchstore s)),
       hsMismatchesMetric := Suc (hsMismatchesMetric s)\<rparr>"

lemma actual_request_body [simp]: "actual_request (r\<lparr>reqBody := b\<rparr>) = actual_request r"
  by (simp add: actual_request_def)

lemma addMatch_recorded:
  "addMatch ms now ep r s = (length (hsMatches s), match_recorded ms now ep r s)"
  by (simp add: addMatch_def match_recorded_def Let_def)

lemma match_recorded_body [simp]: "match_recorded ms now ep (r\<lparr>reqBody := b\<rparr>) s = match_recorded ms now ep r s"
  by (simp add: match_recorded_def)

lemma mismatch_recorded_body [simp]:
  "mismatch_recorded ms now d (r\<lparr>reqBody := b\<rparr>) s = mismatch_recorded ms now d r s"
  by (simp add: mismatch_recorded_def)

lemma addMismatch_recorded:
  "mismatch_details sn pos msg r = Ok d \<Longrightarrow>
   addMismatch ms now sn pos msg r s = Ok (mismatch_recorded ms now d r s)"
  by (simp add: addMismatch_def mismatch_recorded_def Let_def)

definition path_matched_msg :: "request \<Rightarrow> string \<Rightarrow> string" where
  "path_matched_msg r why = ''path '' @ sq (urlPath r) @ '' matched, but '' @ why"

definition path_unmatched_msg :: "request \<Rightarrow> string \<Rightarrow> string" where
  "path_unmatched_msg r sub = ''path '' @ sq (urlPath r) @ '' not matched, subpath which matched: '' @ sq sub"

lemma mismatch_msg_body [simp]:
  "path_matched_msg (r\<lparr>reqBody := b\<rparr>) = path_matched_msg r"
  "path_unmatched_msg (r\<lparr>reqBody := b\<rparr>) = path_unmatched_msg r"
  by (simp_all add: path_matched_msg_def path_unmatched_msg_def fun_eq_iff)

text \<open>The part of the path that the walk has passed when it stops at position \<open>k\<close>; the
  largest position stands for the whole path.\<close>

definition walked_subpath :: "request \<Rightarrow> nat \<Rightarrow> string" where
  "walked_subpath r k =
     (if int k = max_int then urlPath r
      else join_with ''/'' (take (k - 1) (path_segments (urlPath r))))"

lemma mismatch_details_eq:
  "mismatch_details None (- 1) why r = Ok (path_matched_msg r why)"
  "mismatch_details (Some sn) max_int why r = Ok (path_unmatched_msg r (urlPath r))"
  "1 \<le> k \<Longrightarrow> k \<le> length (path_segments (urlPath r)) \<Longrightarrow>
   mismatch_details (Some sn) (int k) why r = Ok (path_unmatched_msg r (walked_subpath r k))"
  by (simp_all add: walked_subpath_def mismatch_details_def path_matched_msg_def path_unmatched_msg_def slice_to_def
      nat_diff_distrib)

text \<open>The outcome of a request, in closed form.\<close>

definition outcome ::
  "('s, 'm) backend \<Rightarrow> int \<Rightarrow> request \<Rightarrow> ('t, 's) handler_state
     \<Rightarrow> 't Endpoint option \<times> ('t, 's) handler_state" where
  "outcome ms now r s =
     (case walk_path (hsEpSearchNode s) (urlPath r) of
        NotReached sn k ps \<Rightarrow>
          (None, mismatch_recorded ms now (path_unmatched_msg r (walked_subpath r k)) r s)
      | Reached sn ps \<Rightarrow>
          if endpoints sn = None then
            (None, mismatch_recorded ms now (path_unmatched_msg r (urlPath r)) r s)
          else if candidates sn r = [] then
            (None, mismatch_recorded ms now (path_matched_msg r (no_method_msg r)) r s)
          else case fst (choose_endpoint (candidates sn r) [] r) of
            Inl why \<Rightarrow> (None, mismatch_recorded ms now (path_matched_msg r why) r s)
          | Inr ep \<Rightarrow> (Some ep, match_recorded ms now ep r s))"

lemma match_request_outcome:
  "\<exists>out b. matchRequestToEndpoint ms now r s = Ok (out, r\<lparr>reqBody := b\<rparr>, snd (outcome ms now r s))
    \<and> moEndpoint out = fst (outcome ms now r s)
    \<and> moMatch out = map_option (\<lambda>_. length (hsMatches s)) (moEndpoint out)
    \<and> moPathParams out = (case walk_path (hsEpSearchNode s) (urlPath r) of Reached n ps \<Rightarrow> ps | NotReached n k ps \<Rightarrow> ps)
    \<and> moQueryParams out = map_of (urlQuery r)"
proof (cases "walk_path (hsEpSearchNode s) (urlPath r)")
  case (NotReached sn k ps)
  from walk_path_bounds [OF NotReached] have "1 \<le> k" "k \<le> length (path_segments (urlPath r))" by auto
  with NotReached show ?thesis
    by (intro exI [where x = "\<lparr>moEndpoint = None, moMatch = None, moPathParams = ps,
          moQueryParams = map_of (first_values (urlQuery r))\<rparr>"] exI [where x = "reqBody r"])
      (simp add: matchRequestToEndpoint_def outcome_def mismatch_details_eq addMismatch_recorded
        map_of_first_values fun_eq_iff)
next
  case (Reached sn ps)
  obtain c b where ch: "choose_endpoint (candidates sn r) [] r = (c, r\<lparr>reqBody := b\<rparr>)"
    using choose_endpoint_request [of "candidates sn r" "[]" r] by (cases "choose_endpoint (candidates sn r) [] r") auto
  define used where "used = (if endpoints sn = None \<or> candidates sn r = [] then reqBody r else b)"
  define out where "out = \<lparr>moEndpoint = fst (outcome ms now r s),
    moMatch = map_option (\<lambda>_. length (hsMatches s)) (fst (outcome ms now r s)), moPathParams = ps,
    moQueryParams = map_of (first_values (urlQuery r))\<rparr>"
  have "matchRequestToEndpoint ms now r s = Ok (out, r\<lparr>reqBody := used\<rparr>, snd (outcome ms now r s))"
    using Reached ch
    by (cases c) (auto simp: matchRequestToEndpoint_def matchSearchNode_def outcome_def out_def used_def
        matchEndPointsAttributes_def mismatch_details_eq addMismatch_recorded addMatch_recorded)
  then show ?thesis
    using Reached by (auto simp: out_def map_of_first_values fun_eq_iff)
qed

section \<open>The counters of any store\<close>

text \<open>Requests one after the other, each with its time.\<close>

definition match_all ::
  "('s, 'm) backend \<Rightarrow> (int \<times> request) list \<Rightarrow> ('t, 's) handler_state
     \<Rightarrow> ('t, 's) handler_state" where
  "match_all ms reqs s =
     fold (\<lambda>(now, r) s. case matchRequestToEndpoint ms now r s of
        Ok (out, r', s') \<Rightarrow> s' | _ \<Rightarrow> s) reqs s"

lemma match_all_Cons: "match_all ms ((now, r) # reqs) s = match_all ms reqs (snd (outcome ms now r s))"
  using match_request_outcome [of ms now r s] by (auto simp: match_all_def)

lemma match_all_Nil [simp]: "match_all ms [] s = s"
  by (simp add: match_all_def)

lemma outcome_recorded:
  "(\<exists>ep. outcome ms now r s = (Some ep, match_recorded ms now ep r s))
   \<or> (\<exists>d. outcome ms now r s = (None, mismatch_recorded ms now d r s))"
  by (simp add: outcome_def split: path_result.split sum.split) blast

text \<open>The metrics count what the store counts.\<close>

definition counters_agree :: "('s, 'm) backend \<Rightarrow> ('t, 's) handler_state \<Rightarrow> bool" where
  "counters_agree ms s \<longleftrightarrow>
     (\<forall>ep. GetMatchesCount (beStore ms (hsMatches s)) ep (hsMatchstore s) = Ok (of_nat (hsMatchesMetric s ep)))
     \<and> GetMismatchesCount (beStore ms (hsMatches s)) (hsMatchstore s) = Ok (of_nat (hsMismatchesMetric s))"

text \<open>A store that keeps its contract and does not look at the matches in memory.\<close>

locale recording_store = counting_store st invar
  for st :: "('s, 'm, Mismatch) Matchstore" and invar :: "'s \<Rightarrow> bool" +
  fixes ms :: "('s, 'm) backend"
  assumes backend_store: "beStore ms heap = st"
begin

lemma agree_recorded:
  assumes inv: "invar (hsMatchstore s)" and agree: "counters_agree ms s"
  shows "counters_agree ms (match_recorded ms now ep r s)"
    and "counters_agree ms (mismatch_recorded ms now d r s)"
    and "invar (hsMatchstore (match_recorded ms now ep r s))"
    and "invar (hsMatchstore (mismatch_recorded ms now d r s))"
proof -
  have cnt: "\<And>ep'. GetMatchesCount st ep' (hsMatchstore s) =
      Ok (of_nat (length (replicate (hsMatchesMetric s ep') (undefined :: 'm))))"
    and mis: "\<And>x. GetMismatchesCount st (hsMatchstore s) =
      Ok (of_nat (length (replicate (hsMismatchesMetric s) (x::Mismatch))))"
    using agree by (simp_all add: counters_agree_def backend_store)
  let ?add = "AddMatchOp (epID ep) (beKept ms (length (hsMatches s))
    \<lparr>mEndpointID = epID ep, mTimestamp = now, mActualRequest = actual_request r, mActualResponse = None\<rparr>)
      :: ('m, Mismatch) store_op"
  let ?mm = "\<lparr>mmDetails = d, mmTimestamp = now, mmActualRequest = actual_request r\<rparr>"
  show "counters_agree ms (match_recorded ms now ep r s)"
    using count_step [OF inv cnt, of _ ?add] mismatch_count_step [OF inv mis, of ?add]
    by (simp add: counters_agree_def match_recorded_def backend_store)
  show "counters_agree ms (mismatch_recorded ms now d r s)"
    using count_step [OF inv cnt, of _ "AddMismatchOp ?mm"]
      mismatch_count_step [OF inv mis, of "AddMismatchOp ?mm"]
    by (simp add: counters_agree_def mismatch_recorded_def backend_store)
  show "invar (hsMatchstore (match_recorded ms now ep r s))"
    using invar_step [OF inv, of ?add] by (simp add: match_recorded_def backend_store)
  show "invar (hsMatchstore (mismatch_recorded ms now d r s))"
    using invar_step [OF inv, of "AddMismatchOp ?mm"] by (simp add: mismatch_recorded_def backend_store)
qed

lemma agree_match_all:
  "invar (hsMatchstore s) \<Longrightarrow> counters_agree ms s \<Longrightarrow> counters_agree ms (match_all ms reqs s)"
proof (induction reqs arbitrary: s)
  case (Cons x reqs)
  obtain now r where x: "x = (now, r)" by (cases x)
  show ?case
    using outcome_recorded [of ms now r s] agree_recorded [OF Cons.prems]
    by (auto simp: x match_all_Cons intro: Cons.IH)
qed simp

end

interpretation rec: recording_store inmemory_store "\<lambda>_. True" inmemory_backend
  by unfold_locales simp

section \<open>Properties\<close>

text \<open>C2: Matching a request never panics and records it exactly once: when an endpoint is
  chosen, one match of that endpoint is allocated without a response, given to the store and
  counted in the endpoint's metric; otherwise one mismatch is given to the store and counted.
  Nothing else of the state changes, whatever store is used and even if it reports an error.\<close>

theorem request_recorded_once:
  "\<exists>out r' s'. matchRequestToEndpoint ms now r s = Ok (out, r', s')
    \<and> (case moEndpoint out of
        Some ep \<Rightarrow> moMatch out = Some (length (hsMatches s)) \<and> s' = match_recorded ms now ep r s
      | None \<Rightarrow> moMatch out = None \<and> (\<exists>details. s' = mismatch_recorded ms now details r s))"
  using match_request_outcome [of ms now r s] outcome_recorded [of ms now r s] by auto

lemma chosen_candidate:
  assumes "walk_path (hsEpSearchNode s) (urlPath r) = Reached sn ps" and "reqBody r = Unread b"
  shows "case fst (outcome ms now r s) of
      Some ep \<Rightarrow> \<exists>i<length (candidates sn r). ep = candidates sn r ! i
        \<and> satisfied ep r (body_left r b (take i (candidates sn r)))
        \<and> none_satisfied r b (take i (candidates sn r))
    | None \<Rightarrow> none_satisfied r b (candidates sn r)"
proof (cases "endpoints sn = None \<or> candidates sn r = []")
  case True
  then have "candidates sn r = []" by (auto simp: candidates_def eps_of_def)
  with assms(1) show ?thesis by (simp add: outcome_def)
next
  case False
  then show ?thesis
    using choose_endpoint_split [OF assms(2), of "candidates sn r" "[]"] assms(1)
    by (simp add: outcome_def split: sum.splits)
qed

text \<open>C3: At the node a request path reaches, the endpoint chosen is the first candidate (those
  for the request's host, then those without a host) whose query parameters, headers and body
  pattern are satisfied, and none is chosen when no candidate is satisfied. The body a candidate
  sees is empty once an earlier candidate with a body pattern has read it.\<close>

theorem first_satisfied_candidate_is_chosen:
  assumes "walk_path (hsEpSearchNode s) (urlPath r) = Reached sn ps" and "reqBody r = Unread b"
  shows "\<exists>out r' s'. matchRequestToEndpoint ms now r s = Ok (out, r', s')
    \<and> moPathParams out = ps \<and> moQueryParams out = map_of (urlQuery r)
    \<and> (case moEndpoint out of
        Some ep \<Rightarrow> \<exists>i<length (candidates sn r). ep = candidates sn r ! i
          \<and> satisfied ep r (body_left r b (take i (candidates sn r)))
          \<and> (\<forall>j<i. \<not> satisfied (candidates sn r ! j) r (body_left r b (take j (candidates sn r))))
      | None \<Rightarrow> \<forall>j<length (candidates sn r).
          \<not> satisfied (candidates sn r ! j) r (body_left r b (take j (candidates sn r))))"
  using match_request_outcome [of ms now r s] chosen_candidate [OF assms, of ms now] assms(1)
  by (fastforce simp: none_satisfied_def split: option.splits)

definition pattern_ep :: "string \<Rightarrow> (string \<Rightarrow> bool) option \<Rightarrow> unit Endpoint" where
  "pattern_ep i regexp =
     (example_ep i 0 ''/p'')\<lparr>epRequest := (epRequest (example_ep i 0 ''/p''))\<lparr>mrBodyRegexp := regexp\<rparr>\<rparr>"

definition handler_of :: "'t Endpoint list \<Rightarrow> ('t, (nat, Mismatch) InMemoryMatchstore) handler_state" where
  "handler_of eps =
     \<lparr>hsEpSearchNode = fold registerEndpoint eps empty_node, hsMatchstore = NewInMemoryMatchstore 100,
      hsMatches = [], hsMatchesMetric = (\<lambda>_. 0), hsMismatchesMetric = 0\<rparr>"

definition get_request :: "string \<Rightarrow> string \<Rightarrow> request" where
  "get_request path b =
     \<lparr>reqMethod = ''GET'', urlPath = path, urlString = path, urlHost = [], urlQuery = [],
      reqHeader = [], reqHost = ''localhost:8081'', reqBody = Unread b, muxVars = Map.empty\<rparr>"

text \<open>The id of the endpoint that is chosen for a request in a new handler.\<close>

definition chosen_id :: "'t Endpoint list \<Rightarrow> request \<Rightarrow> string option" where
  "chosen_id eps r =
     (case matchRequestToEndpoint inmemory_backend 0 r (handler_of eps) of
        Ok (out, r', s') \<Rightarrow> map_option epID (moEndpoint out) | _ \<Rightarrow> None)"

theorem first_satisfied_candidate_is_chosen_witness:
  "\<exists>out r' s'. matchRequestToEndpoint inmemory_backend 5 (get_request ''/p'' ''x'')
      (handler_of [pattern_ep ''1'' (Some (\<lambda>s. s = ''x''))]) = Ok (out, r', s')
    \<and> moEndpoint out \<noteq> None"
proof -
  let ?s = "handler_of [pattern_ep ''1'' (Some (\<lambda>s. s = ''x''))]"
  let ?r = "get_request ''/p'' ''x''"
  have "case walk_path (hsEpSearchNode ?s) (urlPath ?r) of
      Reached n ps \<Rightarrow> length (candidates n ?r) = 1 \<and> satisfied (candidates n ?r ! 0) ?r ''x''
    | NotReached _ _ _ \<Rightarrow> False"
    by code_simp
  then obtain sn ps where w: "walk_path (hsEpSearchNode ?s) (urlPath ?r) = Reached sn ps"
    and c: "length (candidates sn ?r) = 1" "satisfied (candidates sn ?r ! 0) ?r ''x''"
    by (auto split: path_result.splits)
  have b: "reqBody ?r = Unread ''x''" by (simp add: get_request_def)
  from first_satisfied_candidate_is_chosen [OF w b, of inmemory_backend 5] c show ?thesis
    by (fastforce simp: body_left_def split: option.splits)
qed

text \<open>When at most one candidate has a body pattern, the choice is the intended one: the first
  candidate whose wanted query parameters, headers and body pattern all hold for the request.\<close>

theorem one_body_pattern_choice:
  assumes "walk_path (hsEpSearchNode s) (urlPath r) = Reached sn ps" and "reqBody r = Unread b"
    and "length (filter wants_body (candidates sn r)) \<le> 1"
  shows "\<exists>out r' s'. matchRequestToEndpoint ms now r s = Ok (out, r', s')
    \<and> moEndpoint out = find (\<lambda>ep. satisfied ep r b) (candidates sn r)"
proof -
  let ?c = "candidates sn r"
  have same: "satisfied (?c ! i) r (body_left r b (take i ?c)) = satisfied (?c ! i) r b"
    if "i < length ?c" for i
  proof (cases "wants_body (?c ! i) \<and> list_ex (reads_body r) (take i ?c)")
    case True
    have "?c = take i ?c @ ?c ! i # drop (Suc i) ?c" using that by (simp add: id_take_nth_drop)
    then have "filter wants_body ?c = filter wants_body (take i ?c) @ ?c ! i # filter wants_body (drop (Suc i) ?c)"
      using True by (metis filter.simps(2) filter_append)
    moreover have "filter wants_body (take i ?c) \<noteq> []"
      using True by (auto simp: filter_empty_conv list_ex_iff reads_body_def)
    ultimately have "1 < length (filter wants_body ?c)"
      by (cases "filter wants_body (take i ?c)") auto
    with assms(3) show ?thesis by simp
  next
    case False
    then show ?thesis by (auto simp: satisfied_def wants_body_def body_left_def)
  qed
  have none: "none_satisfied r b (take i ?c) \<longleftrightarrow> (\<forall>j<i. \<not> satisfied (?c ! j) r b)" if "i \<le> length ?c" for i
    using that same by (auto simp: none_satisfied_def)
  have "fst (outcome ms now r s) = find (\<lambda>ep. satisfied ep r b) ?c"
  proof (cases "fst (outcome ms now r s)")
    case None
    with chosen_candidate [OF assms(1,2), of ms now] none [of "length ?c"] have
      "\<forall>j<length ?c. \<not> satisfied (?c ! j) r b" by simp
    then show ?thesis by (auto simp: None find_None_iff2 in_set_conv_nth)
  next
    case (Some ep)
    with chosen_candidate [OF assms(1,2), of ms now] obtain i where
      i: "i < length ?c" "ep = ?c ! i" "satisfied ep r (body_left r b (take i ?c))"
      "none_satisfied r b (take i ?c)" by auto
    then have "find (\<lambda>ep. satisfied ep r b) ?c = Some ep"
      using same [of i] none [of i] by (auto simp: find_Some_iff)
    then show ?thesis by (simp add: Some)
  qed
  then show ?thesis using match_request_outcome [of ms now r s] by auto
qed

theorem one_body_pattern_choice_witness:
  "\<exists>out r' s'. matchRequestToEndpoint inmemory_backend 5 (get_request ''/p'' ''x'')
      (handler_of [pattern_ep ''1'' None, pattern_ep ''2'' (Some (\<lambda>s. s = ''x''))]) = Ok (out, r', s')
    \<and> map_option epID (moEndpoint out) = Some ''2''"
proof -
  let ?s = "handler_of [pattern_ep ''1'' None, pattern_ep ''2'' (Some (\<lambda>s. s = ''x''))]"
  let ?r = "get_request ''/p'' ''x''"
  have "case walk_path (hsEpSearchNode ?s) (urlPath ?r) of
      Reached n ps \<Rightarrow> length (filter wants_body (candidates n ?r)) = 1
        \<and> map_option epID (find (\<lambda>ep. satisfied ep ?r ''x'') (candidates n ?r)) = Some ''2''
    | NotReached _ _ _ \<Rightarrow> False"
    by code_simp
  then obtain sn ps where w: "walk_path (hsEpSearchNode ?s) (urlPath ?r) = Reached sn ps"
    and c: "length (filter wants_body (candidates sn ?r)) \<le> 1"
      "map_option epID (find (\<lambda>ep. satisfied ep ?r ''x'') (candidates sn ?r)) = Some ''2''"
    by (auto split: path_result.splits)
  have b: "reqBody ?r = Unread ''x''" by (simp add: get_request_def)
  from one_body_pattern_choice [OF w b c(1), of inmemory_backend 5] c(2) show ?thesis by auto
qed

text \<open>With two body patterns at one path only the first one tried is ever compared with the
  body: a request that the other endpoint wants is a mismatch, although alone that endpoint
  would serve it.\<close>

theorem second_body_pattern_sees_nothing:
  "chosen_id [pattern_ep ''a'' (Some (\<lambda>s. s = ''a''))] (get_request ''/p'' ''a'') = Some ''a''
   \<and> chosen_id [pattern_ep ''a'' (Some (\<lambda>s. s = ''a'')), pattern_ep ''b'' (Some (\<lambda>s. s = ''b''))]
       (get_request ''/p'' ''a'') = None
   \<and> chosen_id [pattern_ep ''a'' (Some (\<lambda>s. s = ''a'')), pattern_ep ''b'' (Some (\<lambda>s. s = ''b''))]
       (get_request ''/p'' ''b'') = Some ''b''"
  by (intro conjI; code_simp)

text \<open>The metrics and the store agree: after any sequence of requests to a new handler with an
  in-memory store, the match counter of every endpoint and the mismatch counter of the store are
  the values of the metrics, modulo \<open>2 ^ 64\<close>.\<close>

theorem metrics_agree_with_store:
  fixes eps :: "'t Endpoint list"
  shows "im_GetMatchesCount ep (hsMatchstore (match_all inmemory_backend reqs (handler_of eps))) =
      of_nat (hsMatchesMetric (match_all inmemory_backend reqs (handler_of eps)) ep)
    \<and> im_GetMismatchesCount (hsMatchstore (match_all inmemory_backend reqs (handler_of eps))) =
      of_nat (hsMismatchesMetric (match_all inmemory_backend reqs (handler_of eps)))"
proof -
  have "counters_agree inmemory_backend (handler_of eps)"
    by (simp add: counters_agree_def handler_of_def NewInMemoryMatchstore_def im_defs)
  then have "counters_agree inmemory_backend (match_all inmemory_backend reqs (handler_of eps))"
    by (rule rec.agree_match_all [OF TrueI])
  then show ?thesis by (simp add: counters_agree_def)
qed

end
