(* ===== verification/RenderProps.thy ===== *)
theory RenderProps
  imports Render EndpointProps
begin

text \<open>
  What rendering guarantees: the response and the recorded match on every path, and what the
  matching before it has left of the body.
\<close>

section \<open>Intermediate states\<close>

text \<open>Nothing has been sent and recorded yet.\<close>

definition unsent :: "'k render_state \<Rightarrow> 'k render_state \<Rightarrow> bool" where
  "unsent st0 st \<longleftrightarrow> rdMatches st = rdMatches st0 \<and> rdPanic st = None \<and> rwStatus (rdWriter st) = None
     \<and> rwBody (rdWriter st) = []"

lemma unsent_world [simp]: "unsent st0 (st\<lparr>rdWorld := k\<rparr>) = unsent st0 st"
  by (simp add: unsent_def)

lemma add_headers_sel [simp]:
  "rwStatus (add_headers hs w) = rwStatus w"
  "rwBody (add_headers hs w) = rwBody w"
  "rwHeader (add_headers hs w) = rwHeader w @ map (\<lambda>(k, v). (canonical_key k, v)) hs"
  by (induction hs arbitrary: w) (auto simp: add_headers_def)

lemma unsent_headers [simp]:
  "unsent st0 (st\<lparr>rdWriter := add_headers hs (rdWriter st)\<rparr>) = unsent st0 st"
  "unsent st0 (st\<lparr>rdWriter := header_add k v (rdWriter st)\<rparr>) = unsent st0 st"
  by (simp_all add: unsent_def)

definition error_sent :: "'k render_state \<Rightarrow> 'k render_state \<Rightarrow> bool" where
  "error_sent st0 st \<longleftrightarrow> rdPanic st = None \<and> rwStatus (rdWriter st) = Some 500 \<and> rdMatches st = rdMatches st0"

definition final_status :: "int \<Rightarrow> int" where
  "final_status status = (if status < 200 \<and> status \<noteq> 101 then 200 else status)"

definition with_response :: "nat \<Rightarrow> int \<Rightarrow> Match list \<Rightarrow> Match list" where
  "with_response a status heap =
     heap[a := (heap ! a)\<lparr>mActualResponse := Some \<lparr>asStatusCode = status, asHeader = []\<rparr>\<rparr>]"

definition response_sent :: "nat \<Rightarrow> 'k render_state \<Rightarrow> 'k render_state \<Rightarrow> bool" where
  "response_sent a st0 st \<longleftrightarrow> rdPanic st = None
     \<and> (\<exists>status. 100 \<le> status \<and> status \<le> 999 \<and> rwStatus (rdWriter st) = Some (final_status status)
         \<and> rdMatches st = with_response a status (rdMatches st0))"

definition bad_status :: "'k render_state \<Rightarrow> 'k render_state \<Rightarrow> bool" where
  "bad_status st0 st \<longleftrightarrow> rdMatches st = rdMatches st0 \<and> rwStatus (rdWriter st) = None
     \<and> (\<exists>status. (status < 100 \<or> 999 < status) \<and> rdPanic st = Some (''invalid WriteHeader code '' @ itoa status))"

lemma render_error_sent: "unsent st0 st \<Longrightarrow> error_sent st0 (render_error what e st)"
  by (simp add: unsent_def error_sent_def render_error_def rwStatus_write_bytes rwStatus_put_status)

lemma send_response_sent:
  assumes "unsent st0 st"
  shows "response_sent a st0 (send_response status body (Some a) st)
    \<or> bad_status st0 (send_response status body (Some a) st)"
proof (cases "status < 100 \<or> 999 < status")
  case True
  then show ?thesis
    using assms by (auto simp: unsent_def send_response_def write_header_def set_panic_def bad_status_def)
next
  case False
  then have "write_header status (rdWriter st) = Ok (put_status status (rdWriter st))"
    by (simp add: write_header_const)
  moreover have "rwStatus (write_bytes body (put_status status (rdWriter st))) = Some (final_status status)"
    using assms by (auto simp: rwStatus_write_bytes put_status_def unsent_def final_status_def)
  ultimately have "response_sent a st0 (send_response status body (Some a) st)"
    using assms False unfolding response_sent_def
    by (intro conjI exI [where x = status])
      (simp_all add: unsent_def send_response_def set_actual_response_def with_response_def)
  then show ?thesis ..
qed

text \<open>The three ways a rendering ends.\<close>

definition ended :: "nat \<Rightarrow> 'k render_state \<Rightarrow> 'k render_state \<Rightarrow> bool" where
  "ended a st0 st \<longleftrightarrow> error_sent st0 st \<or> response_sent a st0 st \<or> bad_status st0 st"

lemma ended_error: "unsent st0 st \<Longrightarrow> ended a st0 (render_error what e st)"
  by (simp add: ended_def render_error_sent)

lemma ended_send: "unsent st0 st \<Longrightarrow> ended a st0 (send_response status body (Some a) st)"
  using send_response_sent by (fastforce simp: ended_def)

lemma ended_exec:
  assumes "rsTemplate (epResponse ep) = Some t" and "unsent st0 st"
    and "\<And>out k. ended a st0 (cont out (st\<lparr>rdWorld := k\<rparr>))"
  shows "ended a st0 (exec_template env ep name what data st cont)"
  using assms by (auto simp: exec_template_def split: prod.split sum.split intro: ended_error)

section \<open>Properties\<close>

lemma render_ended:
  assumes "rsTemplate (epResponse ep) = Some t" and "rdPanic st = None"
    and "rwStatus (rdWriter st) = None" and "rwBody (rdWriter st) = []"
  shows "ended a st (renderResponse env r (Some ep) (Some a) pp qp st)"
  unfolding renderResponse_def option.case Let_def using assms(2-4)
  by (auto simp: unsent_def split: sum.split
      intro!: ended_exec [OF assms(1)] ended_error ended_send)


text \<open>A template set that prints its texts as they are, for the closed theorems: header lines
  are not parsed but given under one key.\<close>

type_synonym verbatim = "(string \<times> string) list"

definition verbatim_env :: "(verbatim, unit, nat) template_env" where
  "verbatim_env =
     \<lparr>ExecuteTemplate = (\<lambda>t name data k.
        (case map_of t name of None \<Rightarrow> Inl ''template not defined'' | Some s \<Rightarrow> Inr s, Suc k)),
      unmarshal_object = (\<lambda>s. if s = ''{}'' then Inr () else Inl ''no object''),
      unmarshal_headers = (\<lambda>s. if s = [] then Inr [] else Inr [(''x-note'', s)])\<rparr>"

definition verbatim_ep :: "string \<Rightarrow> string \<Rightarrow> string \<Rightarrow> string \<Rightarrow> verbatim Endpoint" where
  "verbatim_ep i path status body =
     \<lparr>epID = i, epMock = None, epPrio = 0,
      epRequest = \<lparr>mrHost = [], mrMethod = [], mrPath = path, mrQuery = [], mrHeaders = [],
        mrBody = [], mrBodyRegexp = None\<rparr>,
      epResponse = \<lparr>rsTemplate = Some [(templateResponseBody, body), (templateResponseStatus, status),
          (templateResponseHeader, ''hello'')],
        rsStatusCode = status, rsHeaders = ''hello'', rsBody = body, rsBodyFilename = []\<rparr>\<rparr>"

definition open_match :: Match where
  "open_match = \<lparr>mEndpointID = ''1'', mTimestamp = 0,
     mActualRequest = actual_request (get_request ''/p'' []), mActualResponse = None\<rparr>"

definition fresh_render :: "Match list \<Rightarrow> 'k \<Rightarrow> 'k render_state" where
  "fresh_render heap k = \<lparr>rdWriter = new_writer, rdMatches = heap, rdWorld = k, rdPanic = None\<rparr>"


text \<open>Rendering that succeeds: the header, status and body templates are executed in this
  order on the data of the request, the body with the rendered status; the answer has the
  rendered status and body, and the endpoint id and the rendered headers as its header; the
  match gets the status as its response, and no other match changes.\<close>

theorem render_success:
  assumes "rsTemplate (epResponse ep) = Some t"
    and "createResponseTemplateData env r pp qp = Inr data"
    and "ExecuteTemplate env t templateResponseHeader data k0 = (Inr h, k1)"
    and "unmarshal_headers env h = Inr hs"
    and "ExecuteTemplate env t templateResponseStatus data k1 = (Inr text, k2)"
    and "atoi text = Inr status" and "200 \<le> status" and "status \<le> 999"
    and "ExecuteTemplate env t templateResponseBody (data\<lparr>ResponseStatus := status\<rparr>) k2 = (Inr body, k3)"
    and "a < length heap"
  shows "\<exists>st. renderResponse env r (Some ep) (Some a) pp qp (fresh_render heap k0) = st
    \<and> rdPanic st = None \<and> rdWorld st = k3
    \<and> rwStatus (rdWriter st) = Some status
    \<and> rwBody (rdWriter st) = (if body_allowed status then body else [])
    \<and> rwSent (rdWriter st) = (''Endpoint-Id'', epID ep) # map (\<lambda>(k, v). (canonical_key k, v)) hs
    \<and> rdMatches st = heap[a := (heap ! a)\<lparr>mActualResponse := Some \<lparr>asStatusCode = status, asHeader = []\<rparr>\<rparr>]"
proof -
  have key: "canonical_key headerKeyEndpointID = ''Endpoint-Id''" by code_simp
  from assms show ?thesis
    by (simp add: renderResponse_def exec_template_def fresh_render_def send_response_def
        write_header_const set_actual_response_def write_bytes_def put_status_def new_writer_def key Let_def)
qed

theorem render_success_witness:
  "rwBody (rdWriter (renderResponse verbatim_env (get_request ''/p'' [])
      (Some (verbatim_ep ''1'' ''/p'' ''201'' ''created'')) (Some 0) Map.empty Map.empty
      (fresh_render [open_match] 0))) = ''created''"
proof -
  let ?ep = "verbatim_ep ''1'' ''/p'' ''201'' ''created''"
  let ?t = "[(templateResponseBody, ''created''), (templateResponseStatus, ''201''), (templateResponseHeader, ''hello'')]"
  obtain data where data: "createResponseTemplateData verbatim_env (get_request ''/p'' []) Map.empty Map.empty = Inr data"
    by (simp add: createResponseTemplateData_def get_request_def)
  have names: "templateResponseHeader \<noteq> templateResponseBody" "templateResponseHeader \<noteq> templateResponseStatus"
    "templateResponseStatus \<noteq> templateResponseBody"
    by (simp_all add: templateResponseHeader_def templateResponseBody_def templateResponseStatus_def)
  have t: "rsTemplate (epResponse ?ep) = Some ?t" by (simp add: verbatim_ep_def)
  have h: "ExecuteTemplate verbatim_env ?t templateResponseHeader data 0 = (Inr ''hello'', 1)"
    and hs: "unmarshal_headers verbatim_env ''hello'' = Inr [(''x-note'', ''hello'')]"
    and s: "ExecuteTemplate verbatim_env ?t templateResponseStatus data 1 = (Inr ''201'', 2)"
    and b: "ExecuteTemplate verbatim_env ?t templateResponseBody (data\<lparr>ResponseStatus := 201\<rparr>) 2 = (Inr ''created'', 3)"
    using names by (simp_all add: verbatim_env_def)
  have i: "atoi ''201'' = Inr 201" by code_simp
  have "body_allowed 201" by (simp add: body_allowed_def)
  with render_success [OF t data h hs s i _ _ b, of 0 "[open_match]"] show ?thesis by simp
qed

lemma choose_endpoint_body:
  assumes "reqBody r = Unread b"
  shows "\<exists>b'. reqBody (snd (choose_endpoint eps msg r)) = Unread b' \<and> (b' = b \<or> b' = [])
    \<and> ((\<exists>ep. fst (choose_endpoint eps msg r) = Inr ep \<and> wants_body ep) \<longrightarrow> b' = [])
    \<and> ((\<forall>ep\<in>set eps. \<not> wants_body ep) \<longrightarrow> b' = b)"
  using assms
proof (induction eps arbitrary: msg r b)
  case (Cons ep eps)
  show ?case
  proof (cases "satisfied ep r b")
    case True
    then have "reads_body r ep \<longleftrightarrow> wants_body ep" by (auto simp: satisfied_def reads_body_def)
    with True Cons.prems show ?thesis
      by (simp only: choose_endpoint_step [OF Cons.prems]) (auto simp: Let_def)
  next
    case False
    define r' where "r' = (if reads_body r ep then r\<lparr>reqBody := Unread []\<rparr> else r)"
    have "reqBody r' = Unread (if reads_body r ep then [] else b)" using Cons.prems by (simp add: r'_def)
    moreover have "reads_body r ep \<Longrightarrow> wants_body ep" by (simp add: reads_body_def)
    ultimately show ?thesis
      using False Cons.IH [of r' "if reads_body r ep then [] else b"]
      by (simp only: choose_endpoint_step [OF Cons.prems] Let_def if_False r'_def [symmetric])
        (fastforce split: if_splits)
  qed
qed simp

text \<open>The body given to the templates of the chosen endpoint: it is the request's body when no
  candidate has a body pattern, and it is always empty when the chosen endpoint itself has one,
  because matching has already read it.\<close>

theorem template_body_after_matching:
  assumes "walk_path (hsEpSearchNode s) (urlPath r) = Reached sn ps" and "reqBody r = Unread b"
    and "matchRequestToEndpoint ms now r s = Ok (out, r', s')" and "moEndpoint out = Some ep"
    and "createResponseTemplateData env r' pp qp = Inr data"
  shows "(wants_body ep \<longrightarrow> RequestBody data = [])
    \<and> ((\<forall>e\<in>set (candidates sn r). \<not> wants_body e) \<longrightarrow> RequestBody data = b)"
proof -
  let ?c = "choose_endpoint (candidates sn r) [] r"
  have out: "fst (outcome ms now r s) = Some ep"
    using match_request_outcome [of ms now r s] assms(3,4) by auto
  then have e: "endpoints sn \<noteq> None" "candidates sn r \<noteq> []" "fst ?c = Inr ep"
    using assms(1) by (auto simp: outcome_def split: if_splits sum.splits)
  then have "r' = snd ?c"
    using assms(1,3) by (cases ?c) (auto simp: matchRequestToEndpoint_def matchSearchNode_def
        matchEndPointsAttributes_def addMatch_recorded)
  with choose_endpoint_body [OF assms(2), of "candidates sn r" "[]"] e(3) obtain b' where
    "reqBody r' = Unread b'" "wants_body ep \<longrightarrow> b' = []"
    "(\<forall>e\<in>set (candidates sn r). \<not> wants_body e) \<longrightarrow> b' = b" by auto
  with assms(5) show ?thesis by (auto simp: createResponseTemplateData_def)
qed

theorem template_body_after_matching_witness:
  "\<exists>out r' s' data. matchRequestToEndpoint inmemory_backend 5 (get_request ''/p'' ''x'')
      (handler_of [pattern_ep ''1'' (Some (\<lambda>s. s = ''x''))]) = Ok (out, r', s')
    \<and> createResponseTemplateData verbatim_env r' Map.empty Map.empty = Inr data \<and> RequestBody data = []"
proof -
  let ?s = "handler_of [pattern_ep ''1'' (Some (\<lambda>s. s = ''x''))]"
  let ?r = "get_request ''/p'' ''x''"
  have "case matchRequestToEndpoint inmemory_backend 5 ?r ?s of
      Ok (out, r', s') \<Rightarrow> (case moEndpoint out of None \<Rightarrow> False | Some ep \<Rightarrow> wants_body ep)
        \<and> (case createResponseTemplateData verbatim_env r' Map.empty Map.empty of Inr d \<Rightarrow> True | Inl e \<Rightarrow> False)
    | _ \<Rightarrow> False"
    by code_simp
  then obtain out r' s' ep data where
    m: "matchRequestToEndpoint inmemory_backend 5 ?r ?s = Ok (out, r', s')" "moEndpoint out = Some ep"
      "wants_body ep" and d: "createResponseTemplateData verbatim_env r' Map.empty Map.empty = Inr data"
    by (auto split: result.splits option.splits sum.splits)
  have "case walk_path (hsEpSearchNode ?s) (urlPath ?r) of Reached n ps \<Rightarrow> True | NotReached _ _ _ \<Rightarrow> False"
    by code_simp
  then obtain sn ps where w: "walk_path (hsEpSearchNode ?s) (urlPath ?r) = Reached sn ps"
    by (auto split: path_result.splits)
  have b: "reqBody ?r = Unread ''x''" by (simp add: get_request_def)
  from template_body_after_matching [OF w b m(1,2) d] m d show ?thesis by blast
qed

end
