(* ===== verification/Loader.thy ===== *)
theory Loader
  imports PathTree
begin

text \<open>
  Reading the mock files into a search tree (\<open>LoadFiles\<close>, \<open>readMockFile\<close>,
  \<open>initResponseTemplates\<close> and \<open>walkMatch\<close> in
  \<open>mockgo/mock/requestHandler.go\<close>). The file system, the YAML decoder, the compilers of
  regular expressions and templates and the file name patterns are arguments.
\<close>

section \<open>The environment\<close>

text \<open>What \<open>filepath.Walk\<close> calls its function with: a path and whether it is a directory,
  or an error.\<close>

datatype walk_entry = Visit string bool | WalkError error

record 't loader_env =
  file_walk :: "string \<Rightarrow> walk_entry list"
  file_match :: "string \<Rightarrow> string \<Rightarrow> error + bool"
  read_file :: "string \<Rightarrow> error + string"
  unmarshal_mock :: "string \<Rightarrow> error + 't Mock"
  compile_regexp :: "string \<Rightarrow> error + (string \<Rightarrow> bool)"
  new_template :: "string \<Rightarrow> 't"
  parse_template :: "string \<Rightarrow> string \<Rightarrow> 't \<Rightarrow> error + 't"   \<comment> \<open>name, text\<close>

text \<open>\<open>filepath.Base\<close>, \<open>Dir\<close>, \<open>IsAbs\<close> and \<open>Join\<close> on clean paths (no empty
  segments, no trailing slash), as the walk delivers them. A joined path is not cleaned: it names
  the same file.\<close>

definition path_base :: "string \<Rightarrow> string" where
  "path_base p = last (split_on (CHR ''/'') p)"

definition path_dir :: "string \<Rightarrow> string" where
  "path_dir p =
     (case butlast (split_on (CHR ''/'') p) of
        [] \<Rightarrow> ''.''
      | segs \<Rightarrow> (let d = join_with ''/'' segs in if d = [] then ''/'' else d))"

definition path_is_abs :: "string \<Rightarrow> bool" where
  "path_is_abs p \<longleftrightarrow> has_prefix p ''/''"

definition path_join :: "string \<Rightarrow> string \<Rightarrow> string" where
  "path_join d f = (if d = [] then f else d @ ''/'' @ f)"

section \<open>Finding the files\<close>

primrec walk_files ::
  "(string \<Rightarrow> string \<Rightarrow> error + bool) \<Rightarrow> string \<Rightarrow> string \<Rightarrow> walk_entry list \<Rightarrow> string list
     \<Rightarrow> error + string list" where
  "walk_files fmatch root pattern [] matches = Inr matches"
| "walk_files fmatch root pattern (e # es) matches =
     (case e of
        WalkError err \<Rightarrow> Inl err
      | Visit path isDir \<Rightarrow>
          if isDir then walk_files fmatch root pattern es matches
          else case fmatch pattern (path_base path) of
                 Inl err \<Rightarrow> Inl err
               | Inr matched \<Rightarrow>
                   if matched then
                     (if path_is_abs root then
                        (if path_dir path = root
                         then walk_files fmatch root pattern es (matches @ [path])
                         else walk_files fmatch root pattern es matches)
                      else walk_files fmatch root pattern es (matches @ [path]))
                   else walk_files fmatch root pattern es matches)"

definition walkMatch :: "'t loader_env \<Rightarrow> string \<Rightarrow> string \<Rightarrow> error + string list" where
  "walkMatch env root pattern = walk_files (file_match env) root pattern (file_walk env root) []"

section \<open>Reading a file\<close>

definition empty_mock :: "'t Mock" where
  "empty_mock = \<lparr>mockName = [], mockEndpoints = []\<rparr>"

text \<open>The loop that compiles the body patterns. The dereferences of the endpoint and its request
  panic when they are nil.\<close>

primrec compile_bodies ::
  "(string \<Rightarrow> error + (string \<Rightarrow> bool)) \<Rightarrow> 't RawEndpoint option list
     \<Rightarrow> 't RawEndpoint option list result" where
  "compile_bodies compile [] = Ok []"
| "compile_bodies compile (endpoint # eps) =
     (case endpoint of
        None \<Rightarrow> Panic nil_deref
      | Some ep \<Rightarrow>
          (case rawRequest ep of
             None \<Rightarrow> Panic nil_deref
           | Some rq \<Rightarrow>
               if length (mrBody rq) > 0 then
                 (case compile (mrBody rq) of
                    Inl err \<Rightarrow> Err err
                  | Inr bodyregexp \<Rightarrow>
                      bind_result (compile_bodies compile eps) (\<lambda>eps'.
                        Ok (Some (ep\<lparr>rawRequest := Some (rq\<lparr>mrBodyRegexp := Some bodyregexp\<rparr>)\<rparr>) # eps')))
               else bind_result (compile_bodies compile eps) (\<lambda>eps'. Ok (Some ep # eps'))))"

definition of_sum :: "error + 'a \<Rightarrow> 'a result" where
  "of_sum x = (case x of Inl e \<Rightarrow> Err e | Inr a \<Rightarrow> Ok a)"

definition readMockFile :: "'t loader_env \<Rightarrow> string \<Rightarrow> 't Mock result" where
  "readMockFile env mockFile =
     bind_result (of_sum (read_file env mockFile)) (\<lambda>mockFileContent.
     bind_result
       (if has_suffix mockFile ''.yaml'' \<or> has_suffix mockFile ''.yml''
        then of_sum (unmarshal_mock env mockFileContent) else Ok empty_mock) (\<lambda>mock.
     let name = (if length (mockName mock) = 0 then path_base mockFile else mockName mock)
     in bind_result (compile_bodies (compile_regexp env) (mockEndpoints mock)) (\<lambda>eps.
          Ok \<lparr>mockName = name, mockEndpoints = eps\<rparr>)))"

section \<open>Initialising an endpoint\<close>

text \<open>The text of the body template: the body, or the file that is named, but not both.\<close>

definition body_text :: "'t loader_env \<Rightarrow> string \<Rightarrow> string \<Rightarrow> 't Response \<Rightarrow> error + string" where
  "body_text env mockDir i resp =
     (if length (rsBody resp) > 0 then
        (if length (rsBodyFilename resp) > 0 then
           Inl (''error parsing endpoint id '' @ [CHR 0x27] @ i @ [CHR 0x27] @
                '' , response.body and response.bodyFilename can'' @ [CHR 0x27] @ ''t be defined both'')
         else Inr (rsBody resp))
      else if length (rsBodyFilename resp) > 0 then read_file env (path_join mockDir (rsBodyFilename resp))
      else Inr [])"

definition bind_sum :: "error + 'a \<Rightarrow> ('a \<Rightarrow> error + 'b) \<Rightarrow> error + 'b" where
  "bind_sum x f = (case x of Inl e \<Rightarrow> Inl e | Inr a \<Rightarrow> f a)"

definition initResponseTemplates ::
  "'t loader_env \<Rightarrow> string \<Rightarrow> string \<Rightarrow> 't Response \<Rightarrow> error + 't Response" where
  "initResponseTemplates env mockDir i resp =
     bind_sum (body_text env mockDir i resp) (\<lambda>body.
     bind_sum (parse_template env ''responseBody'' body (new_template env i)) (\<lambda>t1.
     let status = (if length (rsStatusCode resp) = 0 then itoa 200 else rsStatusCode resp)
     in bind_sum (parse_template env ''responseStatus'' status t1) (\<lambda>t2.
        bind_sum (parse_template env ''responseHeader'' (rsHeaders resp) t2) (\<lambda>t3.
        Inr (resp\<lparr>rsStatusCode := status, rsTemplate := Some t3\<rparr>)))))"

section \<open>Loading all files\<close>

text \<open>One endpoint of a file: the counter is its number among all files; an endpoint whose
  templates cannot be initialised is skipped.\<close>

definition load_endpoint ::
  "'t loader_env \<Rightarrow> string \<Rightarrow> string \<Rightarrow> nat \<Rightarrow> 't RawEndpoint option \<Rightarrow> 't epSearchNode
     \<Rightarrow> 't epSearchNode result" where
  "load_endpoint env mockDir mock_name endPointCounter endpoint tree =
     (case endpoint of
        None \<Rightarrow> Panic nil_deref
      | Some raw \<Rightarrow>
          let i = (if length (rawID raw) = 0 then itoa (int endPointCounter) else rawID raw)
          in case rawResponse raw of
               None \<Rightarrow> Panic nil_deref
             | Some resp \<Rightarrow>
                 (case initResponseTemplates env mockDir i resp of
                    Inl err \<Rightarrow> Ok tree
                  | Inr resp' \<Rightarrow>
                      (case rawRequest raw of
                         None \<Rightarrow> Panic nil_deref
                       | Some rq \<Rightarrow>
                           Ok (registerEndpoint
                                \<lparr>epID = i, epMock = Some mock_name, epPrio = rawPrio raw,
                                 epRequest = rq, epResponse = resp'\<rparr> tree))))"

primrec load_endpoints ::
  "'t loader_env \<Rightarrow> string \<Rightarrow> string \<Rightarrow> 't RawEndpoint option list \<Rightarrow> nat \<Rightarrow> 't epSearchNode
     \<Rightarrow> (nat \<times> 't epSearchNode) result" where
  "load_endpoints env mockDir mock_name [] endPointCounter tree = Ok (endPointCounter, tree)"
| "load_endpoints env mockDir mock_name (ep # eps) endPointCounter tree =
     bind_result (load_endpoint env mockDir mock_name (endPointCounter + 1) ep tree) (\<lambda>tree'.
       load_endpoints env mockDir mock_name eps (endPointCounter + 1) tree')"

primrec load_files ::
  "'t loader_env \<Rightarrow> string \<Rightarrow> string list \<Rightarrow> nat \<Rightarrow> 't epSearchNode \<Rightarrow> 't epSearchNode result" where
  "load_files env mockDir [] endPointCounter tree = Ok tree"
| "load_files env mockDir (mockFile # files) endPointCounter tree =
     bind_result (readMockFile env mockFile) (\<lambda>mock.
     bind_result (load_endpoints env mockDir (mockName mock) (mockEndpoints mock) endPointCounter tree)
       (\<lambda>(endPointCounter', tree'). load_files env mockDir files endPointCounter' tree'))"

text \<open>The new tree; it replaces the handler's tree only when everything went well.\<close>

definition LoadFiles :: "'t loader_env \<Rightarrow> string \<Rightarrow> string \<Rightarrow> 't epSearchNode result" where
  "LoadFiles env mockDir mockFilepattern =
     bind_result (of_sum (walkMatch env mockDir mockFilepattern)) (\<lambda>mockFiles.
       load_files env mockDir mockFiles 0 empty_node)"

end
