(* ===== verification/LoaderProps.thy ===== *)
theory LoaderProps
  imports Loader PathProps
begin

text \<open>
  What loading guarantees: which files are read, that a loaded tree holds exactly the endpoints
  that could be prepared, each ready to be served, and when loading fails.
\<close>

section \<open>The files\<close>

definition wanted_file :: "'t loader_env \<Rightarrow> string \<Rightarrow> string \<Rightarrow> walk_entry \<Rightarrow> string option" where
  "wanted_file env root pattern e =
     (case e of
        Visit path False \<Rightarrow>
          if file_match env pattern (path_base path) = Inr True \<and> (path_is_abs root \<longrightarrow> path_dir path = root)
          then Some path else None
      | _ \<Rightarrow> None)"

definition walk_fails :: "'t loader_env \<Rightarrow> string \<Rightarrow> walk_entry \<Rightarrow> bool" where
  "walk_fails env pattern e =
     (case e of
        WalkError err \<Rightarrow> True
      | Visit path isDir \<Rightarrow>
          \<not> isDir \<and> (case file_match env pattern (path_base path) of Inl err \<Rightarrow> True | Inr b \<Rightarrow> False))"

lemma walk_files_spec:
  "(\<exists>e\<in>set es. walk_fails env pattern e) \<Longrightarrow> \<exists>err. walk_files (file_match env) root pattern es acc = Inl err"
  "\<forall>e\<in>set es. \<not> walk_fails env pattern e \<Longrightarrow>
   walk_files (file_match env) root pattern es acc = Inr (acc @ List.map_filter (wanted_file env root pattern) es)"
proof (induction es arbitrary: acc)
  case (Cons e es)
  { case 1
    with Cons.IH(1) show ?case
      by (cases e) (auto simp: walk_fails_def split: sum.splits)
  next
    case 2
    with Cons.IH(2) show ?case
      by (cases e)
        (auto simp: walk_fails_def wanted_file_def map_filter_simps split: sum.splits bool.splits)
  }
qed (simp_all add: map_filter_simps)

text \<open>Which files are read: when the walk of the mock directory reports no error and the
  pattern is well formed, the mock files are, in the order of the walk, the regular files whose
  base name matches the pattern; below an absolute directory only those directly in it, below a
  relative one those of all subdirectories. Any error of the walk makes the whole search fail.\<close>

theorem walk_match_files:
  "if \<exists>e\<in>set (file_walk env root). walk_fails env pattern e
   then \<exists>err. walkMatch env root pattern = Inl err
   else walkMatch env root pattern = Inr (List.map_filter (wanted_file env root pattern) (file_walk env root))"
  using walk_files_spec [of "file_walk env root" env pattern root "[]"] by (simp add: walkMatch_def)

definition clean_path :: "string \<Rightarrow> bool" where
  "clean_path p \<longleftrightarrow> [] \<notin> set (tl (split_on (CHR ''/'') p))"

lemma join_with_last: "segs \<noteq> [] \<Longrightarrow> last segs \<noteq> [] \<Longrightarrow> join_with sep segs \<noteq> [] \<and> last (join_with sep segs) = last (last segs)"
  by (induction sep segs rule: join_with.induct) (auto simp: last_append)

lemma path_dir_clean:
  assumes "clean_path p" and "path_dir p = d @ ''/''"
  shows "d = []"
proof -
  let ?segs = "butlast (split_on (CHR ''/'') p)"
  show ?thesis
  proof (cases "?segs")
    case Nil
    with assms(2) show ?thesis by (simp add: path_dir_def)
  next
    case (Cons a as)
    show ?thesis
    proof (cases "join_with ''/'' ?segs = []")
      case True
      with assms(2) Cons show ?thesis by (simp add: path_dir_def Let_def)
    next
      case False
      have mem: "x \<in> set (tl (split_on (CHR ''/'') p))" if "x \<in> set (tl ?segs)" for x
        using that by (metis butlast_tl in_set_butlastD)
      have "last ?segs \<noteq> []"
      proof (cases as)
        case Nil
        then show ?thesis using Cons False by simp
      next
        case (Cons b bs)
        then have "last ?segs \<in> set (tl ?segs)" using \<open>?segs = a # as\<close> by simp
        then show ?thesis using mem assms(1) by (auto simp: clean_path_def)
      qed
      with join_with_last [of ?segs "''/''"] Cons
      have l: "last (join_with ''/'' ?segs) = last (last ?segs)" "last ?segs \<noteq> []" by auto
      have "path_dir p = join_with ''/'' ?segs" using Cons False by (simp add: path_dir_def Let_def)
      with assms(2) l have "last (last ?segs) = CHR ''/''" by (metis last_snoc)
      moreover have "last (last ?segs) \<in> set (last ?segs)" using l(2) by simp
      moreover have "last ?segs \<in> set (split_on (CHR ''/'') p)"
        using Cons by (metis in_set_butlastD last_in_set list.distinct(1))
      ultimately show ?thesis using split_on_pieces by fastforce
    qed
  qed
qed

text \<open>An absolute mock directory that is configured with a trailing slash finds no mock file
  at all: every visited path is clean, so its directory never equals the configured string.\<close>

theorem absolute_dir_with_trailing_slash_finds_nothing:
  assumes "root = d @ ''/''" and "d \<noteq> []" and "path_is_abs root"
    and "\<forall>p isDir. Visit p isDir \<in> set (file_walk env root) \<longrightarrow> isDir \<or> clean_path p"
    and "walkMatch env root pattern = Inr files"
  shows "files = []"
proof -
  have "wanted_file env root pattern e = None" if "e \<in> set (file_walk env root)" for e
    using that assms(1-4) path_dir_clean
    by (auto simp: wanted_file_def split: walk_entry.split bool.split)
  then have "List.map_filter (wanted_file env root pattern) (file_walk env root) = []"
    by (auto simp: map_filter_def filter_empty_conv)
  with walk_match_files [of env root pattern] assms(5) show ?thesis
    by (auto split: if_splits)
qed

text \<open>A file system of mock files given by their decoded content, for the closed theorems: every
  text but an opened brace is a template.\<close>

definition example_loader ::
  "(string \<times> (string \<times> string) list Mock) list \<Rightarrow> (string \<times> string) list loader_env" where
  "example_loader files =
     \<lparr>file_walk = (\<lambda>root. Visit root True # map (\<lambda>(p, m). Visit p False) files),
      file_match = (\<lambda>pattern b. Inr (has_suffix b ''-mock.yaml'')),
      read_file = (\<lambda>p. Inr p),
      unmarshal_mock = (\<lambda>c. case map_of files c of None \<Rightarrow> Inl ''no yaml'' | Some m \<Rightarrow> Inr m),
      compile_regexp = (\<lambda>s. Inr (\<lambda>b. b = s)),
      new_template = (\<lambda>i. []),
      parse_template = (\<lambda>name body t. if body = ''{{'' then Inl ''unclosed action'' else Inr ((name, body) # t))\<rparr>"

theorem absolute_dir_with_trailing_slash_finds_nothing_witness:
  "walkMatch (example_loader [(''/m/a-mock.yaml'', \<lparr>mockName = [], mockEndpoints = []\<rparr>)]) ''/m/'' ''*-mock.*'' = Inr []
   \<and> walkMatch (example_loader [(''/m/a-mock.yaml'', \<lparr>mockName = [], mockEndpoints = []\<rparr>)]) ''/m'' ''*-mock.*'' =
       Inr [''/m/a-mock.yaml'']"
proof
  let ?env = "example_loader [(''/m/a-mock.yaml'', \<lparr>mockName = [], mockEndpoints = []\<rparr>)]"
  show "walkMatch ?env ''/m'' ''*-mock.*'' = Inr [''/m/a-mock.yaml'']" by code_simp
  have "\<not> walk_fails ?env pattern e" if "e \<in> set (file_walk ?env root)" for e root pattern
    using that by (auto simp: walk_fails_def example_loader_def split: walk_entry.splits)
  then obtain files where w: "walkMatch ?env ''/m/'' ''*-mock.*'' = Inr files"
    using walk_match_files [of ?env "''/m/''" "''*-mock.*''"] by (auto split: if_splits)
  have "\<forall>p isDir. Visit p isDir \<in> set (file_walk ?env ''/m/'') \<longrightarrow> isDir \<or> clean_path p"
    by (simp add: example_loader_def clean_path_def)
  from absolute_dir_with_trailing_slash_finds_nothing [OF _ _ _ this w, of "''/m''"] w
  show "walkMatch ?env ''/m/'' ''*-mock.*'' = Inr []"
    by (simp add: path_is_abs_def has_prefix_def)
qed

section \<open>The loaded tree\<close>

text \<open>The endpoint made of an entry, or none when its templates cannot be initialised.\<close>

definition prepare ::
  "'t loader_env \<Rightarrow> string \<Rightarrow> nat \<Rightarrow> string \<times> 't RawEndpoint \<Rightarrow> 't Endpoint option" where
  "prepare env mockDir n entry =
     (case entry of (name, raw) \<Rightarrow>
        let i = (if rawID raw = [] then itoa (int n) else rawID raw)
        in case initResponseTemplates env mockDir i (the (rawResponse raw)) of
             Inl e \<Rightarrow> None
           | Inr resp \<Rightarrow> Some \<lparr>epID = i, epMock = Some name, epPrio = rawPrio raw,
               epRequest = the (rawRequest raw), epResponse = resp\<rparr>)"

primrec prepare_all ::
  "'t loader_env \<Rightarrow> string \<Rightarrow> nat \<Rightarrow> (string \<times> 't RawEndpoint) list \<Rightarrow> 't Endpoint list" where
  "prepare_all env mockDir n [] = []"
| "prepare_all env mockDir n (x # xs) =
     (case prepare env mockDir (n + 1) x of None \<Rightarrow> [] | Some ep \<Rightarrow> [ep]) @ prepare_all env mockDir (n + 1) xs"

lemma prepare_all_append:
  "prepare_all env mockDir n (xs @ ys) =
     prepare_all env mockDir n xs @ prepare_all env mockDir (n + length xs) ys"
  by (induction xs arbitrary: n) auto

definition complete :: "'t RawEndpoint option \<Rightarrow> bool" where
  "complete ep = (case ep of None \<Rightarrow> False | Some raw \<Rightarrow> rawRequest raw \<noteq> None \<and> rawResponse raw \<noteq> None)"

lemma load_endpoint_Ok:
  "load_endpoint env dir name n ep tree = Ok tree' \<Longrightarrow> rawRequest (the ep) \<noteq> None \<Longrightarrow>
   complete ep \<and> tree' = fold registerEndpoint
     (case prepare env dir n (name, the ep) of None \<Rightarrow> [] | Some e \<Rightarrow> [e]) tree"
  by (auto simp: load_endpoint_def prepare_def complete_def Let_def split: option.splits sum.splits if_splits)

lemma load_endpoints_Ok:
  "load_endpoints env dir name eps n tree = Ok (n', tree') \<Longrightarrow> \<forall>ep\<in>set eps. rawRequest (the ep) \<noteq> None \<Longrightarrow>
   list_all complete eps \<and> n' = n + length eps
   \<and> tree' = fold registerEndpoint (prepare_all env dir n (map (\<lambda>ep. (name, the ep)) eps)) tree"
proof (induction eps arbitrary: n tree)
  case (Cons ep eps)
  from Cons.prems(1) obtain t where t: "load_endpoint env dir name (n + 1) ep tree = Ok t"
    "load_endpoints env dir name eps (n + 1) t = Ok (n', tree')" by (auto simp: bind_result_Ok_iff)
  show ?case
    using load_endpoint_Ok [OF t(1)] Cons.IH [OF t(2)] Cons.prems(2)
    by (auto split: option.split)
qed simp

lemma compile_bodies_requests:
  "compile_bodies compile eps = Ok eps' \<Longrightarrow> \<forall>ep\<in>set eps'. rawRequest (the ep) \<noteq> None"
  by (induction eps arbitrary: eps') (auto simp: bind_result_Ok_iff split: option.splits if_splits sum.splits)

lemma readMockFile_requests:
  "readMockFile env f = Ok m \<Longrightarrow> \<forall>ep\<in>set (mockEndpoints m). rawRequest (the ep) \<noteq> None"
  using compile_bodies_requests by (fastforce simp: readMockFile_def bind_result_Ok_iff Let_def)

definition entries_of :: "'t Mock list \<Rightarrow> (string \<times> 't RawEndpoint) list" where
  "entries_of mocks = concat (map (\<lambda>m. map (\<lambda>ep. (mockName m, the ep)) (mockEndpoints m)) mocks)"

lemma load_files_Ok:
  "load_files env dir files n tree = Ok tree' \<Longrightarrow>
   \<exists>mocks. map (readMockFile env) files = map Ok mocks \<and> (\<forall>m\<in>set mocks. list_all complete (mockEndpoints m))
     \<and> tree' = fold registerEndpoint (prepare_all env dir n (entries_of mocks)) tree"
proof (induction files arbitrary: n tree)
  case Nil
  then show ?case by (simp add: entries_of_def)
next
  case (Cons f files)
  from Cons.prems obtain m n1 t1 where m: "readMockFile env f = Ok m"
    "load_endpoints env dir (mockName m) (mockEndpoints m) n tree = Ok (n1, t1)"
    "load_files env dir files n1 t1 = Ok tree'" by (auto simp: bind_result_Ok_iff)
  note one = load_endpoints_Ok [OF m(2) readMockFile_requests [OF m(1)]]
  from Cons.IH [OF m(3)] obtain mocks where
    "map (readMockFile env) files = map Ok mocks" "\<forall>m\<in>set mocks. list_all complete (mockEndpoints m)"
    "tree' = fold registerEndpoint (prepare_all env dir n1 (entries_of mocks)) t1" by blast
  with m(1) one show ?case
    by (intro exI [where x = "m # mocks"]) (simp add: entries_of_def prepare_all_append)
qed

text \<open>C6: A successful load: all mock files were read, every entry of every file has a request and
  a response, and the new tree is what registering, in the order of the files and entries, the
  endpoints whose templates could be initialised makes of an empty tree; an endpoint without an
  id is named by its number, counted over all files and over the skipped ones.\<close>

theorem load_files_registers_prepared:
  assumes "LoadFiles env mockDir pattern = Ok tree"
  shows "\<exists>files mocks. walkMatch env mockDir pattern = Inr files
    \<and> map (readMockFile env) files = map Ok mocks
    \<and> (\<forall>m\<in>set mocks. list_all complete (mockEndpoints m))
    \<and> tree = fold registerEndpoint (prepare_all env mockDir 0 (entries_of mocks)) empty_node"
proof -
  from assms obtain files where w: "walkMatch env mockDir pattern = Inr files"
    "load_files env mockDir files 0 empty_node = Ok tree"
    by (auto simp: LoadFiles_def bind_result_Ok_iff of_sum_def split: sum.splits)
  with load_files_Ok [OF w(2)] show ?thesis by auto
qed

definition example_raw :: "string \<Rightarrow> string \<Rightarrow> string \<Rightarrow> (string \<times> string) list RawEndpoint" where
  "example_raw i path body =
     \<lparr>rawID = i, rawPrio = 0,
      rawRequest = Some \<lparr>mrHost = [], mrMethod = [], mrPath = path, mrQuery = [], mrHeaders = [],
        mrBody = [], mrBodyRegexp = None\<rparr>,
      rawResponse = Some \<lparr>rsTemplate = None, rsStatusCode = [], rsHeaders = [], rsBody = body,
        rsBodyFilename = []\<rparr>\<rparr>"

definition example_files :: "(string \<times> (string \<times> string) list Mock) list" where
  "example_files =
     [(''a-mock.yaml'', \<lparr>mockName = [], mockEndpoints = [Some (example_raw [] ''/a'' ''hello''), Some (example_raw [] ''/b'' ''{{'')]\<rparr>),
      (''b-mock.yaml'', \<lparr>mockName = ''second'', mockEndpoints = [Some (example_raw [] ''/c'' ''bye'')]\<rparr>)]"

lemma example_files_loaded:
  "(case LoadFiles (example_loader example_files) ''.'' ''*-mock.*'' of
      Ok tree \<Rightarrow> (map epID (eps_at tree [''a''] ''GET''), eps_at tree [''b''] ''GET'' = [],
        map (\<lambda>e. (epID e, epMock e)) (eps_at tree [''c''] ''GET''))
    | _ \<Rightarrow> ([], False, [])) = ([''1''], True, [(''3'', Some ''second'')])"
proof -
  have "(case LoadFiles (example_loader example_files) ''.'' ''*-mock.*'' of
      Ok tree \<Rightarrow> (map epID (eps_at tree [''a''] ''GET''), length (eps_at tree [''b''] ''GET'') = 0,
        map (\<lambda>e. (epID e, epMock e)) (eps_at tree [''c''] ''GET''))
    | _ \<Rightarrow> ([], False, [])) = ([''1''], True, [(''3'', Some ''second'')])"
    by code_simp
  then show ?thesis by (simp split: result.splits)
qed

theorem load_files_registers_prepared_witness:
  "\<exists>tree mocks. LoadFiles (example_loader example_files) ''.'' ''*-mock.*'' = Ok tree
    \<and> tree = fold registerEndpoint (prepare_all (example_loader example_files) ''.'' 0 (entries_of mocks)) empty_node
    \<and> map epID (eps_at tree [''a''] ''GET'') = [''1''] \<and> eps_at tree [''b''] ''GET'' = []
    \<and> map epID (eps_at tree [''c''] ''GET'') = [''3'']"
proof -
  obtain tree where tree: "LoadFiles (example_loader example_files) ''.'' ''*-mock.*'' = Ok tree"
    and ids: "map epID (eps_at tree [''a''] ''GET'') = [''1'']" "eps_at tree [''b''] ''GET'' = []"
      "map (\<lambda>e. (epID e, epMock e)) (eps_at tree [''c''] ''GET'') = [(''3'', Some ''second'')]"
    using example_files_loaded by (auto split: result.splits)
  from ids(3) have "map epID (eps_at tree [''c''] ''GET'') = [''3'']" by auto
  moreover obtain mocks where
    "tree = fold registerEndpoint (prepare_all (example_loader example_files) ''.'' 0 (entries_of mocks)) empty_node"
    using load_files_registers_prepared [OF tree] by auto
  ultimately show ?thesis using tree ids(1,2)
    by (intro exI [where x = tree] exI [where x = mocks] conjI)
qed

section \<open>Loaded endpoints are ready\<close>

definition ready :: "'t Endpoint \<Rightarrow> bool" where
  "ready ep \<longleftrightarrow> epID ep \<noteq> [] \<and> epMock ep \<noteq> None \<and> mrMethod (epRequest ep) \<noteq> []
     \<and> rsTemplate (epResponse ep) \<noteq> None \<and> rsStatusCode (epResponse ep) \<noteq> []"

lemma itoa_not_Nil [simp]: "itoa n \<noteq> []"
  by (simp add: itoa_def)

lemma initResponseTemplates_ready:
  "initResponseTemplates env dir i resp = Inr resp' \<Longrightarrow> rsTemplate resp' \<noteq> None \<and> rsStatusCode resp' \<noteq> []"
  by (auto simp: initResponseTemplates_def bind_sum_def Let_def split: sum.splits if_splits)

lemma prepare_ready: "prepare env dir n x = Some ep \<Longrightarrow> ready (default_method ep)"
  using initResponseTemplates_ready
  by (fastforce simp: prepare_def ready_def default_method_def Let_def split: prod.splits sum.splits if_splits)

lemma prepare_all_ready: "ep \<in> set (prepare_all env dir n xs) \<Longrightarrow> ready (default_method ep)"
  by (induction xs arbitrary: n) (auto dest: prepare_ready prepare_ready [OF sym] split: option.splits)

lemma walk_reaches_node: "walk sn ss am ps = Some (n, ps') \<Longrightarrow> \<exists>ks. node_at sn ks = Some n"
proof (induction sn ss am ps arbitrary: n ps' rule: walk.induct)
  case (1 sn am ps)
  then show ?case by (intro exI [where x = "[]"]) simp
next
  case (2 sn s ss am ps)
  show ?case
  proof (cases "searchNodes sn")
    case None
    with "2.prems" show ?thesis by (intro exI [where x = "[]"]) (simp split: if_splits)
  next
    case (Some nodes)
    obtain x xs where x: "(if am then skip_list nodes s ss else (s, ss)) = (x, xs)"
      by (cases "if am then skip_list nodes s ss else (s, ss)")
    have step: "\<exists>ks. node_at sn ks = Some n" if "nodes k = Some c" "\<exists>ks. node_at c ks = Some n" for k c
    proof -
      from that(2) obtain ks where "node_at c ks = Some n" ..
      with that(1) Some show ?thesis by (intro exI [where x = "k # ks"]) simp
    qed
    show ?thesis
      using "2.prems" "2.IH" [OF Some x [symmetric] refl] Some x
      by (auto simp del: node_at.simps split: option.splits intro: step)
  qed
qed

lemma loaded_endpoint_ready:
  assumes "LoadFiles env mockDir pattern = Ok tree" and "e \<in> set (eps_at tree ks key)"
  shows "ready e"
proof -
  obtain mocks where
    tree: "tree = fold registerEndpoint (prepare_all env mockDir 0 (entries_of mocks)) empty_node"
  proof -
    from assms(1) obtain files where "load_files env mockDir files 0 empty_node = Ok tree"
      by (auto simp: LoadFiles_def bind_result_Ok_iff)
    from load_files_Ok [OF this] show ?thesis using that by blast
  qed
  from assms(2) show ?thesis
    unfolding tree eps_at_registered by (auto dest: prepare_all_ready)
qed

text \<open>Every endpoint that a request can reach in a loaded tree is ready to be served: it has an
  id, its mock file, a method, a status text, and its templates are there, so matching and
  rendering never meet a nil template.\<close>

theorem loaded_endpoints_ready:
  assumes "LoadFiles env mockDir pattern = Ok tree" and "walk_path tree path = Reached sn ps"
    and "e \<in> set (eps_of sn key)"
  shows "ready e"
proof -
  have "walk tree (effective (path_segments path)) False Map.empty = Some (sn, ps)"
    using assms(2) walk_path_walk [of tree path] by (simp add: reached_def)
  then obtain ks where "node_at tree ks = Some sn" using walk_reaches_node by blast
  with assms(3) have "e \<in> set (eps_at tree ks key)" by (simp add: eps_at_def)
  with loaded_endpoint_ready [OF assms(1)] show ?thesis by blast
qed

theorem loaded_endpoints_ready_witness:
  "\<exists>tree sn ps e. LoadFiles (example_loader example_files) ''.'' ''*-mock.*'' = Ok tree
    \<and> walk_path tree ''/a'' = Reached sn ps \<and> e \<in> set (eps_of sn ''GET'') \<and> ready e"
proof -
  have "case LoadFiles (example_loader example_files) ''.'' ''*-mock.*'' of
      Ok tree \<Rightarrow> (case walk_path tree ''/a'' of Reached sn ps \<Rightarrow> length (eps_of sn ''GET'') = 1 | _ \<Rightarrow> False)
    | _ \<Rightarrow> False"
    by code_simp
  then obtain tree sn ps where t: "LoadFiles (example_loader example_files) ''.'' ''*-mock.*'' = Ok tree"
    "walk_path tree ''/a'' = Reached sn ps" and "length (eps_of sn ''GET'') = 1"
    by (auto split: result.splits path_result.splits)
  then obtain e where "e \<in> set (eps_of sn ''GET'')" by (cases "eps_of sn ''GET''") auto
  with loaded_endpoints_ready [OF t this] t show ?thesis by blast
qed

text \<open>A mock file whose endpoint has no request, has no response, or is null does not make
  loading report an error: loading panics with a nil dereference.\<close>

theorem incomplete_endpoint_panics:
  assumes "walkMatch env mockDir pattern = Inr [f]" and "read_file env f = Inr content"
    and "has_suffix f ''.yaml''" and "unmarshal_mock env content = Inr mock"
    and "mockEndpoints mock = [endpoint]" and "\<not> complete endpoint"
    and "\<forall>s. \<exists>re. compile_regexp env s = Inr re"
  shows "LoadFiles env mockDir pattern = Panic nil_deref"
proof (cases endpoint)
  case None
  with assms show ?thesis
    by (simp add: LoadFiles_def of_sum_def readMockFile_def Let_def)
next
  case (Some raw)
  show ?thesis
  proof (cases "rawRequest raw")
    case None
    with Some assms show ?thesis
      by (simp add: LoadFiles_def of_sum_def readMockFile_def Let_def)
  next
    case req: (Some rq)
    with Some assms(6) have "rawResponse raw = None" by (simp add: complete_def)
    moreover obtain re where "compile_regexp env (mrBody rq) = Inr re" using assms(7) by blast
    ultimately show ?thesis
      using req Some assms
      by (simp add: LoadFiles_def of_sum_def readMockFile_def load_endpoint_def Let_def)
  qed
qed

theorem incomplete_endpoint_panics_witness:
  "LoadFiles (example_loader [(''a-mock.yaml'', \<lparr>mockName = [],
       mockEndpoints = [Some ((example_raw [] ''/a'' ''hello'')\<lparr>rawResponse := None\<rparr>)]\<rparr>)]) ''.'' ''*-mock.*'' =
     Panic nil_deref"
proof -
  let ?ep = "Some ((example_raw [] ''/a'' ''hello'')\<lparr>rawResponse := None\<rparr>)"
  let ?m = "\<lparr>mockName = [], mockEndpoints = [?ep]\<rparr>"
  let ?env = "example_loader [(''a-mock.yaml'', ?m)]"
  have w: "walkMatch ?env ''.'' ''*-mock.*'' = Inr [''a-mock.yaml'']" by code_simp
  have "has_suffix ''a-mock.yaml'' ''.yaml''" by code_simp
  moreover have "\<not> complete ?ep" by (simp add: complete_def)
  ultimately show ?thesis
    by (intro incomplete_endpoint_panics [OF w, where content = "''a-mock.yaml''" and mock = ?m
          and endpoint = ?ep]) (simp_all add: example_loader_def)
qed

end
