(* ===== verification/MockHandler.thy ===== *)
theory MockHandler
  imports RenderProps LoaderProps
begin

text \<open>
  The HTTP side of the mock endpoints (\<open>AddRoutes\<close> and \<open>handleReload\<close> in
  \<open>mockgo/mock/requestHandler.go\<close>). The route consists of a matcher function and a handler
  function that share four variables of \<open>AddRoutes\<close>; every request runs the matcher and
  then, when it matched, the handler, in its own goroutine. A step relation interleaves these
  two steps of any number of requests and reloads.
\<close>

section \<open>The matcher and the handler\<close>

record ('t, 's, 'k) server_state =
  svHandler :: "('t, 's) handler_state"
  svEndPoint :: "'t Endpoint option"                  \<comment> \<open>the shared variables of \<open>AddRoutes\<close>\<close>
  svMatch :: "nat option"
  svRequestPathParam :: "string \<rightharpoonup> string"
  svQueryParams :: "string \<rightharpoonup> string"
  svWorld :: 'k                                       \<comment> \<open>what template functions change\<close>

definition mock_matcher ::
  "('s, 'm) backend \<Rightarrow> string \<Rightarrow> int \<Rightarrow> request \<Rightarrow> ('t, 's, 'k) server_state
     \<Rightarrow> (bool \<times> request \<times> ('t, 's, 'k) server_state) result" where
  "mock_matcher ms pathPrefix now r sv =
     (if has_prefix (urlPath r) pathPrefix then Ok (False, r, sv)
      else bind_result (matchRequestToEndpoint ms now r (svHandler sv)) (\<lambda>(out, r', h').
        Ok (moEndpoint out \<noteq> None, r',
            sv\<lparr>svHandler := h', svEndPoint := moEndpoint out, svMatch := moMatch out,
               svRequestPathParam := moPathParams out, svQueryParams := moQueryParams out\<rparr>)))"

definition mock_handler ::
  "('t, 'j, 'k) template_env \<Rightarrow> request \<Rightarrow> ('t, 's, 'k) server_state
     \<Rightarrow> 'k render_state \<times> ('t, 's, 'k) server_state" where
  "mock_handler env r sv =
     (let st = renderResponse env r (svEndPoint sv) (svMatch sv) (svRequestPathParam sv)
                 (svQueryParams sv) (fresh_render (hsMatches (svHandler sv)) (svWorld sv))
      in (st, sv\<lparr>svHandler := (svHandler sv)\<lparr>hsMatches := rdMatches st\<rparr>, svWorld := rdWorld st\<rparr>))"

text \<open>A reload that fails or panics leaves the tree alone; the panic is caught by the server.\<close>

definition handleReload ::
  "'t loader_env \<Rightarrow> string \<Rightarrow> string \<Rightarrow> request \<Rightarrow> response_writer \<Rightarrow> ('t, 's, 'k) server_state
     \<Rightarrow> (response_writer \<times> ('t, 's, 'k) server_state) result" where
  "handleReload env mockDir mockFilepattern r w sv =
     (case LoadFiles env mockDir mockFilepattern of
        Err e \<Rightarrow> Ok (put_status 500 w, sv)
      | Ok tree \<Rightarrow> Ok (put_status 200 w, sv\<lparr>svHandler := (svHandler sv)\<lparr>hsEpSearchNode := tree\<rparr>\<rparr>)
      | Panic p \<Rightarrow> Panic p)"

section \<open>One request after the other\<close>

datatype answer = NotFound | Answered response_writer | Failed error

definition answer_of :: "'k render_state \<Rightarrow> answer" where
  "answer_of st = (case rdPanic st of None \<Rightarrow> Answered (rdWriter st) | Some e \<Rightarrow> Failed e)"

definition serve ::
  "('s, 'm) backend \<Rightarrow> ('t, 'j, 'k) template_env \<Rightarrow> string \<Rightarrow> int \<Rightarrow> request
     \<Rightarrow> ('t, 's, 'k) server_state \<Rightarrow> answer \<times> ('t, 's, 'k) server_state" where
  "serve ms env pathPrefix now r sv =
     (case mock_matcher ms pathPrefix now r sv of
        Ok (True, r', sv') \<Rightarrow> (case mock_handler env r' sv' of (st, sv'') \<Rightarrow> (answer_of st, sv''))
      | Ok (False, r', sv') \<Rightarrow> (NotFound, sv')
      | Err e \<Rightarrow> (Failed e, sv)
      | Panic e \<Rightarrow> (Failed e, sv))"

section \<open>Requests in parallel\<close>

datatype request_phase = Waiting int request | Routed request | Done answer

type_synonym ('t, 's, 'k) config = "('t, 's, 'k) server_state \<times> request_phase list"

inductive server_step ::
  "('s, 'm) backend \<Rightarrow> ('t, 'j, 'k) template_env \<Rightarrow> 't loader_env \<Rightarrow> string
     \<Rightarrow> ('t, 's, 'k) config \<Rightarrow> ('t, 's, 'k) config \<Rightarrow> bool"
  for ms env loader pathPrefix where
  Match: "i < length phs \<Longrightarrow> phs ! i = Waiting now r
    \<Longrightarrow> mock_matcher ms pathPrefix now r sv = Ok (True, r', sv')
    \<Longrightarrow> server_step ms env loader pathPrefix (sv, phs) (sv', phs[i := Routed r'])"
| NoMatch: "i < length phs \<Longrightarrow> phs ! i = Waiting now r
    \<Longrightarrow> mock_matcher ms pathPrefix now r sv = Ok (False, r', sv')
    \<Longrightarrow> server_step ms env loader pathPrefix (sv, phs) (sv', phs[i := Done NotFound])"
| Handle: "i < length phs \<Longrightarrow> phs ! i = Routed r
    \<Longrightarrow> mock_handler env r sv = (st, sv')
    \<Longrightarrow> server_step ms env loader pathPrefix (sv, phs) (sv', phs[i := Done (answer_of st)])"
| Reload: "handleReload loader dir pattern r new_writer sv = Ok (w, sv')
    \<Longrightarrow> server_step ms env loader pathPrefix (sv, phs) (sv', phs)"

inductive_cases server_step_cases: "server_step ms env loader pathPrefix (sv, phs) (sv', phs')"

text \<open>A new server and requests that have arrived but not been looked at.\<close>

definition start_server ::
  "'t epSearchNode \<Rightarrow> 's \<Rightarrow> 'k \<Rightarrow> ('t, 's, 'k) server_state" where
  "start_server tree store world =
     \<lparr>svHandler = \<lparr>hsEpSearchNode = tree, hsMatchstore = store, hsMatches = [],
        hsMatchesMetric = (\<lambda>_. 0), hsMismatchesMetric = 0\<rparr>,
      svEndPoint = None, svMatch = None, svRequestPathParam = Map.empty, svQueryParams = Map.empty,
      svWorld = world\<rparr>"

definition waiting_requests :: "(int \<times> request) list \<Rightarrow> request_phase list" where
  "waiting_requests reqs = map (\<lambda>(now, r). Waiting now r) reqs"

section \<open>What the steps do\<close>

lemma mock_matcher_outcome:
  assumes "\<not> has_prefix (urlPath r) pathPrefix"
  shows "\<exists>sv' b. mock_matcher ms pathPrefix now r sv =
      Ok (fst (outcome ms now r (svHandler sv)) \<noteq> None, r\<lparr>reqBody := b\<rparr>, sv')
    \<and> svHandler sv' = snd (outcome ms now r (svHandler sv))
    \<and> svEndPoint sv' = fst (outcome ms now r (svHandler sv))
    \<and> svMatch sv' = map_option (\<lambda>_. length (hsMatches (svHandler sv))) (svEndPoint sv')
    \<and> svRequestPathParam sv' = (case walk_path (hsEpSearchNode (svHandler sv)) (urlPath r) of
        Reached n ps \<Rightarrow> ps | NotReached n k ps \<Rightarrow> ps)
    \<and> svQueryParams sv' = map_of (urlQuery r) \<and> svWorld sv' = svWorld sv"
  using match_request_outcome [of ms now r "svHandler sv"] assms by (auto simp: mock_matcher_def)

lemma mock_matcher_prefix:
  "has_prefix (urlPath r) pathPrefix \<Longrightarrow> mock_matcher ms pathPrefix now r sv = Ok (False, r, sv)"
  by (simp add: mock_matcher_def)

lemma outcome_counts:
  "length (hsMatches (snd (outcome ms now r s))) + hsMismatchesMetric (snd (outcome ms now r s)) =
     Suc (length (hsMatches s) + hsMismatchesMetric s)"
  using outcome_recorded [of ms now r s] by (auto simp: match_recorded_def mismatch_recorded_def)

text \<open>The header of an answer starts with the id of the endpoint that was rendered.\<close>

definition tagged :: "string \<Rightarrow> response_writer \<Rightarrow> bool" where
  "tagged i w \<longleftrightarrow> (\<exists>hs. rwHeader w = (''Endpoint-Id'', i) # hs
     \<and> (rwStatus w = None \<or> (\<exists>hs'. rwSent w = (''Endpoint-Id'', i) # hs')))"

lemma tagged_steps [simp]:
  "tagged i w \<Longrightarrow> tagged i (put_status c w)"
  "tagged i w \<Longrightarrow> tagged i (add_headers hs w)"
  "tagged i w \<Longrightarrow> tagged i (w\<lparr>rwBody := b\<rparr>)"
proof -
  show "tagged i w \<Longrightarrow> tagged i (put_status c w)" and "tagged i w \<Longrightarrow> tagged i (w\<lparr>rwBody := b\<rparr>)"
    by (auto simp: tagged_def put_status_def)
  show "tagged i w \<Longrightarrow> tagged i (add_headers hs w)"
  proof -
    have "rwSent (add_headers hs w) = rwSent w"
      by (induction hs arbitrary: w) (auto simp: add_headers_def)
    then show "tagged i w \<Longrightarrow> tagged i (add_headers hs w)" by (auto simp: tagged_def)
  qed
qed

lemma tagged_write_bytes [simp]: "tagged i w \<Longrightarrow> tagged i (write_bytes b w)"
  by (simp add: write_bytes_def Let_def split: option.split)

lemma tagged_exec:
  assumes "tagged i (rdWriter st)"
    and "\<And>out st'. tagged i (rdWriter st') \<Longrightarrow> tagged i (rdWriter (cont out st'))"
  shows "tagged i (rdWriter (exec_template env ep name what data st cont))"
  using assms
  by (auto simp: exec_template_def set_panic_def render_error_def split: option.split prod.split sum.split)

lemma tagged_send: "tagged i (rdWriter st) \<Longrightarrow> tagged i (rdWriter (send_response status body m st))"
  by (auto simp: send_response_def set_panic_def set_actual_response_def write_header_def
      split: option.split result.split)

lemma renderResponse_tagged:
  "tagged (epID ep) (rdWriter (renderResponse env r (Some ep) m pp qp (fresh_render heap k)))"
proof -
  have "canonical_key headerKeyEndpointID = ''Endpoint-Id''" by code_simp
  then have "tagged (epID ep) (header_add headerKeyEndpointID (epID ep) new_writer)"
    by (simp add: tagged_def new_writer_def)
  then show ?thesis
    unfolding renderResponse_def option.case Let_def
    by (auto simp: fresh_render_def render_error_def split: sum.split intro!: tagged_exec tagged_send)
qed

end
