(* ===== verification/MockHandlerProps.thy ===== *)
theory MockHandlerProps
  imports MockHandler
begin

text \<open>
  What the mock handler guarantees for requests one after the other, what it keeps under every
  interleaving, and what goes wrong when two requests overlap.
\<close>

section \<open>Every request is recorded once\<close>

definition is_waiting :: "request_phase \<Rightarrow> bool" where
  "is_waiting p = (case p of Waiting now r \<Rightarrow> True | _ \<Rightarrow> False)"

lemma is_waiting_simps [simp]:
  "is_waiting (Waiting now r)" "\<not> is_waiting (Routed r)" "\<not> is_waiting (Done a)"
  by (simp_all add: is_waiting_def)

definition seen :: "request_phase list \<Rightarrow> nat" where
  "seen phs = length (filter (\<lambda>p. \<not> is_waiting p) phs)"

lemma seen_update:
  "i < length phs \<Longrightarrow> \<not> is_waiting p \<Longrightarrow>
   seen (phs[i := p]) = (if is_waiting (phs ! i) then Suc (seen phs) else seen phs)"
proof -
  assume i: "i < length phs" and p: "\<not> is_waiting p"
  have "seen (take i phs @ x # drop (Suc i) phs) =
      seen (take i phs) + (if is_waiting x then 0 else 1) + seen (drop (Suc i) phs)" for x
    by (simp add: seen_def)
  from this [of p] this [of "phs ! i"] p show ?thesis
    using i by (simp add: upd_conv_take_nth_drop id_take_nth_drop [symmetric])
qed

definition recorded :: "('t, 's, 'k) server_state \<Rightarrow> nat" where
  "recorded sv = length (hsMatches (svHandler sv)) + hsMismatchesMetric (svHandler sv)"

text \<open>The invariant: as many records as requests looked at, and the requests still waiting are for
  mock endpoints.\<close>

definition recording_inv :: "string \<Rightarrow> ('t, 's, 'k) config \<Rightarrow> bool" where
  "recording_inv pathPrefix c \<longleftrightarrow> recorded (fst c) = seen (snd c)
     \<and> (\<forall>now r. Waiting now r \<in> set (snd c) \<longrightarrow> \<not> has_prefix (urlPath r) pathPrefix)"

lemma heap_length_render_error [simp]: "rdMatches (render_error what e st) = rdMatches st"
  by (simp add: render_error_def)

lemma heap_length_send: "length (rdMatches (send_response status body m st)) = length (rdMatches st)"
  by (auto simp: send_response_def set_panic_def set_actual_response_def split: result.split option.split)

lemma heap_length_exec:
  "(\<And>out st'. length (rdMatches (cont out st')) = length (rdMatches st')) \<Longrightarrow>
   length (rdMatches (exec_template env ep name what data st cont)) = length (rdMatches st)"
  by (auto simp: exec_template_def set_panic_def split: option.split prod.split sum.split)

lemma renderResponse_heap_length:
  "length (rdMatches (renderResponse env r ep m pp qp st)) = length (rdMatches st)"
  by (auto simp: renderResponse_def Let_def set_panic_def heap_length_send heap_length_exec
      split: option.split sum.split)

lemma recorded_handler: "mock_handler env r sv = (st, sv') \<Longrightarrow> recorded sv' = recorded sv"
  by (auto simp: mock_handler_def Let_def recorded_def fresh_render_def renderResponse_heap_length)

lemma recorded_matcher:
  assumes "\<not> has_prefix (urlPath r) pathPrefix"
    and "mock_matcher ms pathPrefix now r sv = Ok (found, r', sv')"
  shows "recorded sv' = Suc (recorded sv)"
  using mock_matcher_outcome [OF assms(1), of ms now sv] assms(2) outcome_counts [of ms now r "svHandler sv"]
  by (auto simp: recorded_def)

lemma recorded_reload: "handleReload loader dir pattern r w sv = Ok (w', sv') \<Longrightarrow> recorded sv' = recorded sv"
  by (auto simp: handleReload_def recorded_def split: result.splits)

lemma recording_inv_step:
  "server_step ms env loader pathPrefix c c' \<Longrightarrow> recording_inv pathPrefix c \<Longrightarrow> recording_inv pathPrefix c'"
proof (induction rule: server_step.induct)
  case (Match i phs now r sv r' sv')
  then have "Waiting now r \<in> set phs" by (metis nth_mem)
  with Match have "recorded sv' = Suc (recorded sv)"
    by (intro recorded_matcher [of r pathPrefix ms now]) (auto simp: recording_inv_def)
  with Match show ?case
    by (auto simp: recording_inv_def seen_update dest!: set_update_subset_insert [THEN subsetD])
next
  case (NoMatch i phs now r sv r' sv')
  then have "Waiting now r \<in> set phs" by (metis nth_mem)
  with NoMatch have "recorded sv' = Suc (recorded sv)"
    by (intro recorded_matcher [of r pathPrefix ms now]) (auto simp: recording_inv_def)
  with NoMatch show ?case
    by (auto simp: recording_inv_def seen_update dest!: set_update_subset_insert [THEN subsetD])
next
  case (Handle i phs r sv st sv')
  then show ?case
    using recorded_handler [OF Handle(3)]
    by (auto simp: recording_inv_def seen_update dest!: set_update_subset_insert [THEN subsetD])
next
  case (Reload dir pattern r sv w sv' phs)
  then show ?case using recorded_reload [OF Reload(1)] by (simp add: recording_inv_def)
qed

lemma recording_inv_reachable:
  "(server_step ms env loader pathPrefix)\<^sup>*\<^sup>* c c' \<Longrightarrow> recording_inv pathPrefix c \<Longrightarrow> recording_inv pathPrefix c'"
  by (induction rule: rtranclp_induct) (auto intro: recording_inv_step)

lemma recording_inv_start:
  assumes "\<forall>(now, r)\<in>set reqs. \<not> has_prefix (urlPath r) pathPrefix"
  shows "recording_inv pathPrefix (start_server tree store world, waiting_requests reqs)"
proof -
  have "filter (\<lambda>p. \<not> is_waiting p) (waiting_requests reqs) = []"
    by (auto simp: waiting_requests_def filter_empty_conv)
  with assms show ?thesis
    by (auto simp: recording_inv_def recorded_def seen_def start_server_def waiting_requests_def)
qed

section \<open>Properties\<close>

text \<open>However requests and reloads interleave, every request for a mock endpoint that has been
  looked at is recorded exactly once: the matches allocated and the mismatches counted are
  together as many as the requests that are no longer waiting.\<close>

theorem every_interleaving_records_each_request_once:
  assumes "(server_step ms env loader pathPrefix)\<^sup>*\<^sup>*
      (start_server tree store world, waiting_requests reqs) (sv, phs)"
    and "\<forall>(now, r)\<in>set reqs. \<not> has_prefix (urlPath r) pathPrefix"
  shows "length (hsMatches (svHandler sv)) + hsMismatchesMetric (svHandler sv) =
    length (filter (\<lambda>p. \<not> is_waiting p) phs)"
  using recording_inv_reachable [OF assms(1) recording_inv_start [OF assms(2)]]
  by (simp add: recording_inv_def recorded_def seen_def)

text \<open>A server with two endpoints, at \<open>/a\<close> and \<open>/b\<close>.\<close>

definition ab_server :: "(verbatim, (nat, Mismatch) InMemoryMatchstore, nat) server_state" where
  "ab_server = start_server
     (fold registerEndpoint [verbatim_ep ''a'' ''/a'' ''200'' ''A'', verbatim_ep ''b'' ''/b'' ''200'' ''B''] empty_node)
     (NewInMemoryMatchstore 10) 0"

lemma first_step_matches:
  "case mock_matcher inmemory_backend ''/__'' 1 (get_request ''/a'' []) ab_server of
     Ok (found, r', sv') \<Rightarrow> found | _ \<Rightarrow> False"
  by code_simp

theorem every_interleaving_records_each_request_once_witness:
  "\<exists>sv phs. (server_step inmemory_backend verbatim_env (example_loader []) ''/__'')\<^sup>*\<^sup>*
      (ab_server, waiting_requests [(1, get_request ''/a'' []), (2, get_request ''/b'' [])]) (sv, phs)
    \<and> phs \<noteq> waiting_requests [(1, get_request ''/a'' []), (2, get_request ''/b'' [])]
    \<and> length (hsMatches (svHandler sv)) + hsMismatchesMetric (svHandler sv) = 1"
proof -
  let ?reqs = "[(1, get_request ''/a'' []), (2, get_request ''/b'' [])]"
  let ?step = "server_step inmemory_backend verbatim_env (example_loader []) ''/__''"
  obtain r' sv' where m: "mock_matcher inmemory_backend ''/__'' 1 (get_request ''/a'' []) ab_server = Ok (True, r', sv')"
    using first_step_matches by (auto split: result.splits)
  have phs: "waiting_requests ?reqs = [Waiting 1 (get_request ''/a'' []), Waiting 2 (get_request ''/b'' [])]"
    by (simp add: waiting_requests_def)
  have "?step (ab_server, waiting_requests ?reqs)
      (sv', (waiting_requests ?reqs)[0 := Routed r'])"
    by (rule Match [OF _ _ m]) (simp_all add: phs)
  then have reach: "?step\<^sup>*\<^sup>* (ab_server, waiting_requests ?reqs)
      (sv', [Routed r', Waiting 2 (get_request ''/b'' [])])"
    by (simp add: phs)
  have "\<forall>(now, r)\<in>set ?reqs. \<not> has_prefix (urlPath r) ''/__''"
    by (simp add: get_request_def has_prefix_def)
  from every_interleaving_records_each_request_once [OF reach [unfolded ab_server_def] this] reach
  show ?thesis by (auto simp: phs)
qed

text \<open>A request that is matched and answered without another one in between is answered by
  the endpoint that was chosen for it: the answer is the rendering for that endpoint, that match
  and those parameters, and its header starts with the endpoint's id.\<close>

theorem sequential_request_served_by_its_endpoint:
  assumes "\<not> has_prefix (urlPath r) pathPrefix"
    and "matchRequestToEndpoint ms now r (svHandler sv) = Ok (out, r', h')"
    and "moEndpoint out = Some ep" and "rsTemplate (epResponse ep) \<noteq> None"
  shows "fst (serve ms env pathPrefix now r sv) =
      answer_of (renderResponse env r' (Some ep) (moMatch out) (moPathParams out) (moQueryParams out)
        (fresh_render (hsMatches h') (svWorld sv)))
    \<and> (\<forall>w. fst (serve ms env pathPrefix now r sv) = Answered w \<longrightarrow>
        (\<exists>hs. rwSent w = (''Endpoint-Id'', epID ep) # hs))"
proof -
  let ?st = "renderResponse env r' (Some ep) (moMatch out) (moPathParams out) (moQueryParams out)
    (fresh_render (hsMatches h') (svWorld sv))"
  have ans: "fst (serve ms env pathPrefix now r sv) = answer_of ?st"
    using assms(1-3) by (simp add: serve_def mock_matcher_def mock_handler_def Let_def)
  have "rwStatus (rdWriter ?st) \<noteq> None" if "rdPanic ?st = None"
  proof -
    obtain t where t: "rsTemplate (epResponse ep) = Some t" using assms(4) by auto
    obtain a where "moMatch out = Some a"
      using match_request_outcome [of ms now r "svHandler sv"] assms(2,3) by auto
    with render_ended [OF t, of "fresh_render (hsMatches h') (svWorld sv)" a env r'
        "moPathParams out" "moQueryParams out"] that
    show ?thesis
      by (auto simp: fresh_render_def new_writer_def ended_def error_sent_def response_sent_def bad_status_def)
  qed
  with renderResponse_tagged [of ep env r' "moMatch out" "moPathParams out" "moQueryParams out"
      "hsMatches h'" "svWorld sv"]
  show ?thesis by (auto simp: ans answer_of_def tagged_def split: option.splits)
qed

theorem sequential_request_served_by_its_endpoint_witness:
  "\<exists>w hs. fst (serve inmemory_backend verbatim_env ''/__'' 1 (get_request ''/a'' []) ab_server) = Answered w
    \<and> rwSent w = (''Endpoint-Id'', ''a'') # hs"
proof -
  let ?r = "get_request ''/a'' []"
  have p: "\<not> has_prefix (urlPath ?r) ''/__''" by (simp add: get_request_def has_prefix_def)
  have "case matchRequestToEndpoint inmemory_backend 1 ?r (svHandler ab_server) of
      Ok (out, r', h') \<Rightarrow> (case moEndpoint out of None \<Rightarrow> False
        | Some ep \<Rightarrow> epID ep = ''a'' \<and> \<not> Option.is_none (rsTemplate (epResponse ep)))
    | _ \<Rightarrow> False"
    by code_simp
  then obtain out r' h' ep where m: "matchRequestToEndpoint inmemory_backend 1 ?r (svHandler ab_server) = Ok (out, r', h')"
    "moEndpoint out = Some ep" and ep: "epID ep = ''a''" "rsTemplate (epResponse ep) \<noteq> None"
    by (auto simp: Option.is_none_def split: result.splits option.splits)
  have "case fst (serve inmemory_backend verbatim_env ''/__'' 1 ?r ab_server) of Answered w \<Rightarrow> True | _ \<Rightarrow> False"
    by code_simp
  then obtain w where "fst (serve inmemory_backend verbatim_env ''/__'' 1 ?r ab_server) = Answered w"
    by (auto split: answer.splits)
  moreover have "\<forall>w. fst (serve inmemory_backend verbatim_env ''/__'' 1 ?r ab_server) = Answered w \<longrightarrow>
      (\<exists>hs. rwSent w = (''Endpoint-Id'', epID ep) # hs)"
    by (rule conjunct2 [OF sequential_request_served_by_its_endpoint [OF p m ep(2)]])
  ultimately show ?thesis unfolding ep(1) by blast
qed

text \<open>The run in which two requests are looked at, one after the other, and then the first one, if
  matched, is handled.\<close>

definition overlap ::
  "('s, 'm) backend \<Rightarrow> ('t, 'j, 'k) template_env \<Rightarrow> string \<Rightarrow> request \<Rightarrow> request
     \<Rightarrow> ('t, 's, 'k) server_state \<Rightarrow> (answer \<times> request_phase \<times> ('t, 's, 'k) server_state) option" where
  "overlap ms env pathPrefix r1 r2 sv =
     (case mock_matcher ms pathPrefix 1 r1 sv of
        Ok (found1, r1', sv1) \<Rightarrow>
          (case mock_matcher ms pathPrefix 2 r2 sv1 of
             Ok (found2, r2', sv2) \<Rightarrow>
               if found1 then
                 (case mock_handler env r1' sv2 of
                    (st, sv3) \<Rightarrow> Some (answer_of st, if found2 then Routed r2' else Done NotFound, sv3))
               else None
           | _ \<Rightarrow> None)
      | _ \<Rightarrow> None)"

lemma overlap_reachable:
  assumes "overlap ms env pathPrefix r1 r2 sv = Some (ans, p, sv3)"
  shows "(server_step ms env loader pathPrefix)\<^sup>*\<^sup>*
    (sv, waiting_requests [(1, r1), (2, r2)]) (sv3, [Done ans, p])"
proof -
  let ?step = "server_step ms env loader pathPrefix"
  from assms obtain r1' sv1 found2 r2' sv2 st where
    m1: "mock_matcher ms pathPrefix 1 r1 sv = Ok (True, r1', sv1)"
    and m2: "mock_matcher ms pathPrefix 2 r2 sv1 = Ok (found2, r2', sv2)"
    and h: "mock_handler env r1' sv2 = (st, sv3)"
    and ans: "ans = answer_of st" and p: "p = (if found2 then Routed r2' else Done NotFound)"
    by (auto simp: overlap_def split: result.splits prod.splits if_splits)
  let ?p = "[Waiting 1 r1, Waiting 2 r2]"
  have "?step (sv, ?p) (sv1, ?p[0 := Routed r1'])"
    by (rule Match [OF _ _ m1]) simp_all
  moreover have "?step (sv1, ?p[0 := Routed r1']) (sv2, ?p[0 := Routed r1', 1 := p])"
  proof (cases found2)
    case True
    then show ?thesis
      using Match [of 1 "?p[0 := Routed r1']" 2 r2 ms pathPrefix sv1 r2' sv2 env loader] m2 p by simp
  next
    case False
    then show ?thesis
      using NoMatch [of 1 "?p[0 := Routed r1']" 2 r2 ms pathPrefix sv1 r2' sv2 env loader] m2 p by simp
  qed
  moreover have "?step (sv2, ?p[0 := Routed r1', 1 := p]) (sv3, ?p[0 := Routed r1', 1 := p, 0 := Done ans])"
    unfolding ans by (rule Handle [OF _ _ h]) simp_all
  ultimately show ?thesis
    by (simp add: waiting_requests_def converse_rtranclp_into_rtranclp)
qed

text \<open>When two requests overlap, one can be answered by the endpoint of the other: with
  endpoints at \<open>/a\<close> and \<open>/b\<close>, both requests are matched, and then the one for
  \<open>/a\<close> is answered with the id and the body of the endpoint for \<open>/b\<close>; the response is
  recorded for the match of \<open>/b\<close>, and the match of \<open>/a\<close> keeps none.\<close>

theorem overlapping_requests_mix_endpoints:
  "\<exists>sv w p. (server_step inmemory_backend verbatim_env (example_loader []) ''/__'')\<^sup>*\<^sup>*
      (ab_server, waiting_requests [(1, get_request ''/a'' []), (2, get_request ''/b'' [])])
      (sv, [Done (Answered w), p])
    \<and> hd (rwSent w) = (''Endpoint-Id'', ''b'') \<and> rwBody w = ''B''
    \<and> map mActualResponse (hsMatches (svHandler sv)) = [None, Some \<lparr>asStatusCode = 200, asHeader = []\<rparr>]"
proof -
  have "case overlap inmemory_backend verbatim_env ''/__'' (get_request ''/a'' []) (get_request ''/b'' []) ab_server of
      Some (Answered w, p, sv) \<Rightarrow> hd (rwSent w) = (''Endpoint-Id'', ''b'') \<and> rwBody w = ''B''
        \<and> map mActualResponse (hsMatches (svHandler sv)) = [None, Some \<lparr>asStatusCode = 200, asHeader = []\<rparr>]
    | _ \<Rightarrow> False"
    by code_simp
  then obtain w p sv where
    o: "overlap inmemory_backend verbatim_env ''/__'' (get_request ''/a'' []) (get_request ''/b'' []) ab_server
      = Some (Answered w, p, sv)"
    and w: "hd (rwSent w) = (''Endpoint-Id'', ''b'')" "rwBody w = ''B''"
      "map mActualResponse (hsMatches (svHandler sv)) = [None, Some \<lparr>asStatusCode = 200, asHeader = []\<rparr>]"
    by (auto split: option.splits prod.splits answer.splits)
  from overlap_reachable [OF o] w show ?thesis
    by (intro exI [where x = sv] exI [where x = w] exI [where x = p] conjI)
qed

text \<open>A request that has been matched fails with a nil dereference when another request finds no
  endpoint before it is handled, because the shared endpoint variable is reset to nil.\<close>

theorem overlapping_mismatch_fails_a_matched_request:
  "\<exists>sv. (server_step inmemory_backend verbatim_env (example_loader []) ''/__'')\<^sup>*\<^sup>*
      (ab_server, waiting_requests [(1, get_request ''/a'' []), (2, get_request ''/none'' [])])
      (sv, [Done (Failed nil_deref), Done NotFound])"
proof -
  have "case overlap inmemory_backend verbatim_env ''/__'' (get_request ''/a'' []) (get_request ''/none'' []) ab_server of
      Some (Failed e, p, sv) \<Rightarrow> e = nil_deref
        \<and> (case p of Done a \<Rightarrow> (case a of NotFound \<Rightarrow> True | _ \<Rightarrow> False) | _ \<Rightarrow> False)
    | _ \<Rightarrow> False"
    by code_simp
  then obtain p sv where
    o: "overlap inmemory_backend verbatim_env ''/__'' (get_request ''/a'' []) (get_request ''/none'' []) ab_server
      = Some (Failed nil_deref, p, sv)"
    and p: "case p of Done a \<Rightarrow> (case a of NotFound \<Rightarrow> True | _ \<Rightarrow> False) | _ \<Rightarrow> False"
    by (auto split: option.splits prod.splits answer.splits)
  from p have "p = Done NotFound" by (auto split: request_phase.splits answer.splits)
  with overlap_reachable [OF o] show ?thesis by (intro exI [where x = sv]) simp
qed

text \<open>A reload either replaces the tree by the one loaded and answers 200, or answers 500, or
  panics; unless it succeeds the server's state, its old tree included, does not change.\<close>

theorem reload_is_all_or_nothing:
  assumes "rwStatus w = None"
  shows "case handleReload loader mockDir pattern r w sv of
      Ok (w', sv') \<Rightarrow>
        (case LoadFiles loader mockDir pattern of
           Ok tree \<Rightarrow> rwStatus w' = Some 200
             \<and> sv' = sv\<lparr>svHandler := (svHandler sv)\<lparr>hsEpSearchNode := tree\<rparr>\<rparr>
         | Err e \<Rightarrow> rwStatus w' = Some 500 \<and> sv' = sv
         | Panic p \<Rightarrow> False)
    | Err e \<Rightarrow> False
    | Panic p \<Rightarrow> LoadFiles loader mockDir pattern = Panic p"
  using assms by (simp add: handleReload_def put_status_def split: result.split)

theorem reload_is_all_or_nothing_witness:
  "\<exists>w'. handleReload ((example_loader [])\<lparr>file_walk := \<lambda>_. [WalkError ''no such directory'']\<rparr>) ''.'' ''*-mock.*''
      (get_request ''/__/reload'' []) new_writer ab_server = Ok (w', ab_server) \<and> rwStatus w' = Some 500"
proof -
  let ?env = "(example_loader [])\<lparr>file_walk := \<lambda>_. [WalkError ''no such directory'']\<rparr>"
  have "LoadFiles ?env ''.'' ''*-mock.*'' = Err ''no such directory''"
    by (simp add: LoadFiles_def walkMatch_def of_sum_def)
  moreover have "rwStatus new_writer = None" by (simp add: new_writer_def)
  ultimately show ?thesis
    using reload_is_all_or_nothing [where w = new_writer and loader = ?env and mockDir = "''.''"
        and pattern = "''*-mock.*''" and r = "get_request ''/__/reload'' []" and sv = ab_server]
    by (auto split: result.splits)
qed

end
