(* ===== verification/TreeTypes.thy ===== *)
theory TreeTypes
  imports MockHandlerProps
begin

text \<open>
  The type invariant of the search tree, kept by every registration and so by every load, and by
  everything a running server does; and the bound on the number of iterations of the walk, with
  the loops given a fuel.
\<close>

section \<open>Well-formed trees\<close>

text \<open>Every list of endpoints at a node is non-empty and holds endpoints of that path and key, whose
  method is set; only a wildcard node has a parameter name.\<close>

definition node_typed :: "string list \<Rightarrow> 't epSearchNode \<Rightarrow> bool" where
  "node_typed ks n \<longleftrightarrow>
     (\<forall>key l. gomap_get (endpoints n) key = Some l \<longrightarrow>
        l \<noteq> [] \<and> (\<forall>ep\<in>set l. tree_keys ep = ks \<and> ep_key ep = key \<and> mrMethod (epRequest ep) \<noteq> []))
     \<and> (pathParamName n \<noteq> [] \<longrightarrow> ks \<noteq> [] \<and> last ks = ''*'')"

text \<open>No node is there for nothing.\<close>

definition node_used :: "'t epSearchNode \<Rightarrow> bool" where
  "node_used n \<longleftrightarrow> searchNodes n \<noteq> None \<or> endpoints n \<noteq> None"

definition well_formed :: "string list \<Rightarrow> 't epSearchNode \<Rightarrow> bool" where
  "well_formed pre sn \<longleftrightarrow>
     (\<forall>ks n. node_at sn ks = Some n \<longrightarrow> node_typed (pre @ ks) n \<and> (ks \<noteq> [] \<longrightarrow> node_used n))"

lemma well_formed_iff:
  "well_formed pre sn \<longleftrightarrow> node_typed pre sn
     \<and> (\<forall>k c. gomap_get (searchNodes sn) k = Some c \<longrightarrow> node_used c \<and> well_formed (pre @ [k]) c)"
  (is "?wf \<longleftrightarrow> ?root \<and> ?children")
proof
  assume wf: ?wf
  have "node_used c \<and> well_formed (pre @ [k]) c" if "gomap_get (searchNodes sn) k = Some c" for k c
  proof -
    have at: "node_at sn (k # ks) = node_at c ks" for ks using that by simp
    have "node_at sn [k] = Some c" using that by simp
    then have "node_used c" using wf unfolding well_formed_def by blast
    moreover have "node_typed (pre @ k # ks) n \<and> node_used n" if "node_at c ks = Some n" for ks n
      using wf [unfolded well_formed_def, rule_format, of "k # ks" n] that at by simp
    ultimately show ?thesis by (simp add: well_formed_def)
  qed
  moreover have ?root using wf [unfolded well_formed_def, rule_format, of "[]" sn] by simp
  ultimately show "?root \<and> ?children" by blast
next
  assume *: "?root \<and> ?children"
  show ?wf
    unfolding well_formed_def
  proof (intro allI impI)
    fix ks n assume n: "node_at sn ks = Some n"
    show "node_typed (pre @ ks) n \<and> (ks \<noteq> [] \<longrightarrow> node_used n)"
    proof (cases ks)
      case Nil
      with n * show ?thesis by simp
    next
      case (Cons k ks')
      with n obtain c where c: "gomap_get (searchNodes sn) k = Some c" "node_at c ks' = Some n"
        by (auto split: option.splits)
      with * have "node_used c" "well_formed (pre @ [k]) c" by blast+
      with c(2) Cons show ?thesis
        by (cases "ks' = []") (auto simp: well_formed_def)
    qed
  qed
qed

lemma endpoints_put:
  "gomap_get (endpoints (put_endpoint ep sn)) key =
     (if key = ep_key ep then Some (insert_endpoint ep (eps_of sn key)) else gomap_get (endpoints sn) key)"
  by (simp add: put_endpoint_def ep_key_def eps_of_def Let_def gomap_get_def split: option.split)

lemma node_typed_eps:
  "node_typed ks n \<Longrightarrow> e \<in> set (eps_of n key) \<Longrightarrow>
   tree_keys e = ks \<and> ep_key e = key \<and> mrMethod (epRequest e) \<noteq> []"
  by (cases "gomap_get (endpoints n) key") (simp_all add: node_typed_def eps_of_def)

lemma well_formed_put:
  assumes "well_formed ks sn" and "tree_keys ep = ks" and "mrMethod (epRequest ep) \<noteq> []"
  shows "well_formed ks (put_endpoint ep sn) \<and> node_used (put_endpoint ep sn)"
proof -
  have typed: "node_typed ks sn" using assms(1) well_formed_iff by blast
  have "node_typed ks (put_endpoint ep sn)"
    unfolding node_typed_def endpoints_put
  proof (intro conjI allI impI)
    fix key l assume l: "(if key = ep_key ep then Some (insert_endpoint ep (eps_of sn key))
        else gomap_get (endpoints sn) key) = Some l"
    show "l \<noteq> []" "\<forall>e\<in>set l. tree_keys e = ks \<and> ep_key e = key \<and> mrMethod (epRequest e) \<noteq> []"
      using l typed assms(2,3) node_typed_eps [OF typed] by (auto simp: node_typed_def split: if_splits)
  qed (use typed in \<open>simp_all add: node_typed_def\<close>)
  moreover have "node_used (put_endpoint ep sn)"
    by (simp add: node_used_def put_endpoint_def Let_def)
  ultimately show ?thesis
    using assms(1) by (simp add: well_formed_iff [of ks sn] well_formed_iff [of ks "put_endpoint ep sn"])
qed

lemma well_formed_set_param:
  assumes "well_formed ks sn" and "p \<noteq> [] \<Longrightarrow> ks \<noteq> [] \<and> last ks = ''*''"
  shows "well_formed ks (set_param p sn)"
  using assms by (auto simp: well_formed_iff [of ks sn] well_formed_iff [of ks "set_param p sn"] node_typed_def)

lemma well_formed_fresh: "well_formed ks empty_node"
  by (simp add: well_formed_iff [of ks empty_node] node_typed_def)

lemma well_formed_register_path:
  "well_formed pre sn \<Longrightarrow> tree_keys ep = pre @ map segment_key segs \<Longrightarrow> mrMethod (epRequest ep) \<noteq> [] \<Longrightarrow>
   well_formed pre (register_path ep segs sn) \<and> node_used (register_path ep segs sn)"
proof (induction segs arbitrary: pre sn)
  case Nil
  then show ?case using well_formed_put by simp
next
  case (Cons seg segs)
  let ?k = "segment_key seg"
  define child where "child = (case gomap_get (searchNodes sn) ?k of None \<Rightarrow> empty_node | Some c \<Rightarrow> c)"
  define new where "new = register_path ep segs (set_param (segment_param seg) child)"
  have "well_formed (pre @ [?k]) child"
    using Cons.prems(1) well_formed_fresh by (auto simp: child_def well_formed_iff [of pre sn] split: option.split)
  then have "well_formed (pre @ [?k]) (set_param (segment_param seg) child)"
    by (rule well_formed_set_param) (simp add: segment_param_key)
  with Cons have new: "well_formed (pre @ [?k]) new \<and> node_used new"
    by (simp add: new_def)
  have reg: "register_path ep (seg # segs) sn =
      SearchNode (Some ((case searchNodes sn of None \<Rightarrow> Map.empty | Some f \<Rightarrow> f)(?k \<mapsto> new)))
        (endpoints sn) (pathParamName sn)"
    by (simp add: new_def child_def Let_def gomap_get_def split: option.split)
  have "node_typed pre (register_path ep (seg # segs) sn)"
    using Cons.prems(1) by (simp only: reg) (simp add: well_formed_iff [of pre sn] node_typed_def)
  moreover have "node_used c \<and> well_formed (pre @ [k]) c"
    if "gomap_get (searchNodes (register_path ep (seg # segs) sn)) k = Some c" for k c
    using that new Cons.prems(1)
    by (simp only: reg) (auto simp: well_formed_iff [of pre sn] split: option.splits if_splits)
  ultimately show ?case
    using well_formed_iff [of pre "register_path ep (seg # segs) sn"] by (auto simp: node_used_def Let_def)
qed

lemma default_method_set: "mrMethod (epRequest (default_method ep)) \<noteq> []"
  by (simp add: default_method_def)

lemma well_formed_register:
  "well_formed [] sn \<Longrightarrow> well_formed [] (registerEndpoint ep sn)"
  using well_formed_register_path [of "[]" sn "default_method ep"]
  by (simp add: registerEndpoint_def Let_def default_method_set tree_keys_def)

lemma well_formed_fold:
  "well_formed [] sn \<Longrightarrow> well_formed [] (fold registerEndpoint eps sn)"
  by (induction eps arbitrary: sn) (simp_all add: well_formed_register)

lemma well_formed_loaded: "LoadFiles env mockDir pattern = Ok tree \<Longrightarrow> well_formed [] tree"
  using load_files_Ok [of env mockDir _ 0 empty_node tree] well_formed_fold [OF well_formed_fresh]
  by (fastforce simp: LoadFiles_def bind_result_Ok_iff of_sum_def split: sum.splits)

section \<open>The tree of a running server\<close>

lemma outcome_tree [simp]: "hsEpSearchNode (snd (outcome ms now r s)) = hsEpSearchNode s"
  by (simp add: outcome_def match_recorded_def mismatch_recorded_def split: path_result.split sum.split)

lemma tree_matcher:
  assumes "mock_matcher ms pathPrefix now r sv = Ok (found, r', sv')"
  shows "hsEpSearchNode (svHandler sv') = hsEpSearchNode (svHandler sv)"
proof (cases "has_prefix (urlPath r) pathPrefix")
  case True
  with assms show ?thesis by (simp add: mock_matcher_prefix)
next
  case False
  with mock_matcher_outcome [OF False, of ms now sv] assms show ?thesis by auto
qed

lemma tree_handler: "mock_handler env r sv = (st, sv') \<Longrightarrow> hsEpSearchNode (svHandler sv') = hsEpSearchNode (svHandler sv)"
  by (auto simp: mock_handler_def Let_def)

definition tree_inv :: "('t, 's, 'k) config \<Rightarrow> bool" where
  "tree_inv c \<longleftrightarrow> well_formed [] (hsEpSearchNode (svHandler (fst c)))"

lemma tree_inv_step: "server_step ms env loader pathPrefix c c' \<Longrightarrow> tree_inv c \<Longrightarrow> tree_inv c'"
proof (induction rule: server_step.induct)
  case (Reload dir pattern r sv w sv' phs)
  then show ?case
    by (auto simp: tree_inv_def handleReload_def dest: well_formed_loaded split: result.splits)
qed (auto simp: tree_inv_def tree_matcher tree_handler)

text \<open>Typing of the search tree: whatever mock files are loaded, and whatever requests and
  reloads a server started with them goes through, its tree is well formed: each list of endpoints is
  non-empty and holds endpoints with a method registered for exactly the path and key it is stored
  under, only wildcard nodes bind a parameter, and every node below the root has children or
  endpoints.\<close>

theorem tree_always_well_formed:
  assumes "LoadFiles loader mockDir pattern = Ok tree"
    and "(server_step ms env loader pathPrefix)\<^sup>*\<^sup>* (start_server tree store world, phs) (sv, phs')"
    and "node_at (hsEpSearchNode (svHandler sv)) ks = Some n"
  shows "node_typed ks n \<and> (ks \<noteq> [] \<longrightarrow> node_used n)"
proof -
  have "tree_inv (start_server tree store world, phs)"
    using well_formed_loaded [OF assms(1)] by (simp add: tree_inv_def start_server_def)
  with assms(2) have "tree_inv (sv, phs')"
    by (induction rule: rtranclp_induct) (auto intro: tree_inv_step)
  with assms(3) show ?thesis by (auto simp: tree_inv_def well_formed_def)
qed

theorem tree_always_well_formed_witness:
  "\<exists>tree n. LoadFiles (example_loader example_files) ''.'' ''*-mock.*'' = Ok tree
    \<and> node_at tree [''a''] = Some n \<and> node_typed [''a''] n \<and> node_used n"
proof -
  obtain tree where tree: "LoadFiles (example_loader example_files) ''.'' ''*-mock.*'' = Ok tree"
    "map epID (eps_at tree [''a''] ''GET'') = [''1'']"
    using example_files_loaded by (auto split: result.splits)
  from tree(2) obtain n where n: "node_at tree [''a''] = Some n"
    by (cases "node_at tree [''a'']") (simp_all add: eps_at_def)
  have "node_at (hsEpSearchNode (svHandler (start_server tree (NewInMemoryMatchstore 5) (0::nat)))) [''a''] = Some n"
    using n by (simp only: start_server_def server_state.simps handler_state.simps)
  from tree_always_well_formed
    [where ms = "inmemory_backend :: ((nat, Mismatch) InMemoryMatchstore, nat) backend"
      and env = verbatim_env and pathPrefix = "''/__''" and phs = "[]", OF tree(1) rtranclp.rtrancl_refl this]
  have "node_typed [''a''] n \<and> node_used n" by simp
  with tree(1) n show ?thesis by blast
qed

section \<open>The number of iterations\<close>

text \<open>The two loops of \<open>matchRequestToEndpoint\<close> with a fuel that every iteration uses up.\<close>

primrec skip_fuel ::
  "nat \<Rightarrow> (string \<rightharpoonup> 't epSearchNode) \<Rightarrow> string list \<Rightarrow> nat \<Rightarrow> nat \<Rightarrow> string \<Rightarrow> (nat \<times> string) option" where
  "skip_fuel 0 nodes segs pos i seg = None"
| "skip_fuel (Suc n) nodes segs pos i seg =
     (if seg = [] then Some (pos, seg)
      else if nodes seg \<noteq> None then Some (i, seg)
      else skip_fuel n nodes segs pos (i + 1) (getPathSegment segs i))"

primrec path_loop_fuel ::
  "nat \<Rightarrow> string list \<Rightarrow> 't epSearchNode \<Rightarrow> nat \<Rightarrow> string \<Rightarrow> bool \<Rightarrow> (string \<rightharpoonup> string) \<Rightarrow> 't path_result option" where
  "path_loop_fuel 0 segs sn pos seg allMatch ps = None"
| "path_loop_fuel (Suc n) segs sn pos seg allMatch ps =
     (if seg = [] then Some (Reached sn ps)
      else case searchNodes sn of
        None \<Rightarrow> Some (if allMatch then Reached sn ps else NotReached sn pos ps)
      | Some nodes \<Rightarrow>
          (case (if allMatch then skip_fuel (Suc n) nodes segs pos pos seg else Some (pos, seg)) of
             None \<Rightarrow> None
           | Some (pos, seg) \<Rightarrow>
               (case nodes seg of
                  Some child \<Rightarrow> path_loop_fuel n segs child (pos + 1) (getPathSegment segs pos) False ps
                | None \<Rightarrow>
                    (case nodes ''*'' of
                       Some child \<Rightarrow>
                         path_loop_fuel n segs child (pos + 1) (getPathSegment segs pos) False (bind_param child seg ps)
                     | None \<Rightarrow>
                         (case nodes ''**'' of
                            Some child \<Rightarrow>
                              path_loop_fuel n segs child (pos + 1) (getPathSegment segs pos) True ps
                          | None \<Rightarrow> Some (NotReached sn pos ps))))))"

lemma skip_fuel_enough:
  "length segs + 2 \<le> n + i \<Longrightarrow> i \<le> length segs + 1 \<Longrightarrow> (seg \<noteq> [] \<Longrightarrow> i \<le> length segs) \<Longrightarrow>
   skip_fuel n nodes segs pos i seg = Some (skip_to nodes segs pos i seg)"
proof (induction n arbitrary: i seg)
  case (Suc n)
  have "getPathSegment segs i \<noteq> [] \<Longrightarrow> i + 1 \<le> length segs"
    using getPathSegment_nonempty [of segs i] by simp
  with Suc show ?case by (auto simp: skip_to.simps [of nodes segs pos i seg])
qed simp

lemma skip_to_bound:
  "pos \<le> length segs \<Longrightarrow> i \<le> length segs + 1 \<Longrightarrow> (seg \<noteq> [] \<Longrightarrow> i \<le> length segs) \<Longrightarrow>
   fst (skip_to nodes segs pos i seg) \<le> length segs"
proof (induction nodes segs pos i seg rule: skip_to.induct)
  case (1 nodes segs pos i seg)
  have "getPathSegment segs i \<noteq> [] \<Longrightarrow> i + 1 \<le> length segs"
    using getPathSegment_nonempty [of segs i] by simp
  with 1 show ?case by (auto simp: skip_to.simps [of nodes segs pos i seg])
qed

lemma path_loop_fuel_enough:
  fixes sn :: "'t epSearchNode"
  shows "length segs + 2 \<le> n + pos \<Longrightarrow> pos \<le> length segs + 1 \<Longrightarrow> (seg \<noteq> [] \<Longrightarrow> pos \<le> length segs) \<Longrightarrow>
   path_loop_fuel n segs sn pos seg am ps = Some (path_loop segs sn pos seg am ps)"
proof (induction n arbitrary: sn pos seg am ps)
  case (Suc n)
  show ?case
  proof (cases "seg = [] \<or> searchNodes sn = None")
    case True
    then show ?thesis by (auto simp: path_loop.simps [of segs sn pos seg])
  next
    case False
    then obtain nodes where seg: "seg \<noteq> []" and nodes: "searchNodes sn = Some nodes" by auto
    obtain pos' seg' where step: "(if am then skip_to nodes segs pos pos seg else (pos, seg)) = (pos', seg')"
      by fastforce
    have skip: "(if am then skip_fuel (Suc n) nodes segs pos pos seg else Some (pos, seg)) = Some (pos', seg')"
      using step skip_fuel_enough [OF Suc.prems, where nodes = nodes and pos = pos] by (cases am) (simp_all del: skip_fuel.simps)
    have "pos \<le> pos'" "pos' \<le> length segs"
      using step skip_to_ge [of pos pos nodes segs seg] skip_to_bound [of pos segs pos seg nodes] Suc.prems seg
      by (auto split: if_splits)
    then have "length segs + 2 \<le> n + (pos' + 1)" "pos' + 1 \<le> length segs + 1"
      "getPathSegment segs pos' \<noteq> [] \<Longrightarrow> pos' + 1 \<le> length segs"
      using Suc.prems(1) getPathSegment_nonempty [of segs pos'] by simp_all
    then have IH: "path_loop_fuel n segs c (Suc pos') (getPathSegment segs pos') am' ps' =
        Some (path_loop segs c (Suc pos') (getPathSegment segs pos') am' ps')" for c :: "'t epSearchNode" and am' ps'
      using Suc.IH [of "pos' + 1" "getPathSegment segs pos'"] by simp
    show ?thesis
      by (simp add: path_loop.simps [of segs sn pos seg] seg nodes step skip IH split: option.split)
  qed
qed simp

text \<open>C31: Termination: for every tree, also a cyclic-looking mix of wildcards, the walk of a request
  path ends after at most one iteration more than the path has segments, and so does every
  search for a segment after a \<open>**\<close>.\<close>

theorem path_walk_terminates:
  "path_loop_fuel (length (path_segments path) + 1) (path_segments path) root 1
     (getPathSegment (path_segments path) 0) False Map.empty = Some (walk_path root path)"
proof -
  have "getPathSegment (path_segments path) 0 \<noteq> [] \<Longrightarrow> 1 \<le> length (path_segments path)"
    by (cases "path_segments path") (simp_all add: getPathSegment_def)
  then show ?thesis
    by (simp only: walk_path_def Let_def) (rule path_loop_fuel_enough; cases "path_segments path"; simp)
qed

end
