(* ===== verification/BasicCredentials.thy ===== *)
theory BasicCredentials
  imports NetHttp
begin

text \<open>
  Basic authentication as the code and the standard library have it: the header value
  \<open>BasicAuth\<close> of \<open>mockgo/util/http.go\<close> builds for a client, the standard base64
  encoding, and the reading of the header by \<open>Request.BasicAuth\<close> of \<open>net/http\<close>.
\<close>

section \<open>Base64\<close>

text \<open>The standard alphabet.\<close>

definition b64_char :: "nat \<Rightarrow> char" where
  "b64_char n =
     (if n < 26 then char_of (65 + n) else if n < 52 then char_of (71 + n)
      else if n < 62 then char_of (n - 4) else if n = 62 then CHR ''+'' else CHR ''/'')"

definition b64_val :: "char \<Rightarrow> nat option" where
  "b64_val c =
     (let n = of_char c in
      if 65 \<le> n \<and> n \<le> 90 then Some (n - 65)
      else if 97 \<le> n \<and> n \<le> 122 then Some (n - 71)
      else if 48 \<le> n \<and> n \<le> 57 then Some (n + 4)
      else if n = 43 then Some 62
      else if n = 47 then Some 63
      else None)"

text \<open>\<open>EncodeToString\<close>: three bytes become four characters, the last group is padded.\<close>

fun b64_encode :: "string \<Rightarrow> string" where
  "b64_encode [] = []"
| "b64_encode [x] =
     [b64_char (of_char x div 4), b64_char (of_char x mod 4 * 16), CHR ''='', CHR ''='']"
| "b64_encode [x, y] =
     [b64_char (of_char x div 4), b64_char (of_char x mod 4 * 16 + of_char y div 16),
      b64_char (of_char y mod 16 * 4), CHR ''='']"
| "b64_encode (x # y # z # bs) =
     b64_char (of_char x div 4) # b64_char (of_char x mod 4 * 16 + of_char y div 16)
       # b64_char (of_char y mod 16 * 4 + of_char z div 64) # b64_char (of_char z mod 64)
       # b64_encode bs"

text \<open>\<open>DecodeString\<close>: line breaks are skipped, padding must end the input, the unused bits of
  the last character are not looked at.\<close>

fun b64_groups :: "string \<Rightarrow> string option" where
  "b64_groups [] = Some []"
| "b64_groups (a # b # c # d # cs) =
     (case (b64_val a, b64_val b) of
        (Some va, Some vb) \<Rightarrow>
          if c = CHR ''='' then
            (if d = CHR ''='' \<and> cs = [] then Some [char_of (va * 4 + vb div 16)] else None)
          else
            (case b64_val c of
               None \<Rightarrow> None
             | Some vc \<Rightarrow>
                 if d = CHR ''='' then
                   (if cs = [] then Some [char_of (va * 4 + vb div 16), char_of (vb mod 16 * 16 + vc div 4)]
                    else None)
                 else
                   (case (b64_val d, b64_groups cs) of
                      (Some vd, Some bs) \<Rightarrow>
                        Some (char_of (va * 4 + vb div 16) # char_of (vb mod 16 * 16 + vc div 4)
                          # char_of (vc mod 4 * 64 + vd) # bs)
                    | _ \<Rightarrow> None))
      | _ \<Rightarrow> None)"
| "b64_groups _ = None"

definition b64_decode :: "string \<Rightarrow> string option" where
  "b64_decode s = b64_groups (filter (\<lambda>c. c \<noteq> CHR 0x0A \<and> c \<noteq> CHR 0x0D) s)"

lemma b64_val_char [simp]: "n < 64 \<Longrightarrow> b64_val (b64_char n) = Some n"
  by (auto simp: b64_val_def b64_char_def Let_def)

lemma b64_char_not_special:
  assumes "n < 64"
  shows "b64_char n \<noteq> CHR ''=''" "b64_char n \<noteq> CHR 0x0A" "b64_char n \<noteq> CHR 0x0D"
proof -
  have "b64_val (CHR ''='') = None" "b64_val (CHR 0x0A) = None" "b64_val (CHR 0x0D) = None"
    by (simp_all add: b64_val_def)
  with b64_val_char [OF assms] show "b64_char n \<noteq> CHR ''=''" "b64_char n \<noteq> CHR 0x0A" "b64_char n \<noteq> CHR 0x0D"
    by force+
qed

lemma of_char_byte: "(of_char c :: nat) < 256"
  using of_char_of [where ?'a = nat] nat_of_char_less_256 by blast

text \<open>The four sextets of three bytes are read back, and put together they are the bytes.\<close>

lemma div_mod_digit:
  fixes a b n :: nat
  shows "b < n \<Longrightarrow> (a * n + b) div n = a" "b < n \<Longrightarrow> (a * n + b) mod n = b"
  by simp_all

lemma sextets:
  fixes x y :: nat
  assumes "x < 256" and "y < 256"
  shows "x div 4 < 64" "x mod 4 * 16 + y div 16 < 64" "x mod 4 * 16 < 64" "x mod 16 * 4 + y div 64 < 64"
    "x mod 16 * 4 < 64" "x mod 64 < 64"
  using assms by auto

lemma bytes_of_sextets:
  fixes x y z :: nat
  assumes "y < 256" and "z < 256"
  shows "x div 4 * 4 + (x mod 4 * 16 + y div 16) div 16 = x" "x div 4 * 4 + (x mod 4 * 16) div 16 = x"
    "(x mod 4 * 16 + y div 16) mod 16 * 16 + (y mod 16 * 4 + z div 64) div 4 = y"
    "(x mod 4 * 16 + y div 16) mod 16 * 16 + (y mod 16 * 4) div 4 = y"
    "(y mod 16 * 4 + z div 64) mod 4 * 64 + z mod 64 = z"
proof -
  have d: "y div 16 < 16" "z div 64 < 4" using assms by auto
  show "x div 4 * 4 + (x mod 4 * 16 + y div 16) div 16 = x" "x div 4 * 4 + (x mod 4 * 16) div 16 = x"
    "(x mod 4 * 16 + y div 16) mod 16 * 16 + (y mod 16 * 4 + z div 64) div 4 = y"
    "(x mod 4 * 16 + y div 16) mod 16 * 16 + (y mod 16 * 4) div 4 = y"
    "(y mod 16 * 4 + z div 64) mod 4 * 64 + z mod 64 = z"
    by (simp_all only: div_mod_digit [OF d(1)] div_mod_digit [OF d(2)] nonzero_mult_div_cancel_right
        div_mult_mod_eq zero_neq_numeral not_False_eq_True)
qed

lemmas byte_sextets = sextets [OF of_char_byte of_char_byte]
lemmas sextet_facts = byte_sextets [THEN b64_val_char] byte_sextets [THEN b64_char_not_special(1)]
  byte_sextets [THEN b64_char_not_special(2)] byte_sextets [THEN b64_char_not_special(3)]
lemmas bytes_again = bytes_of_sextets [OF of_char_byte of_char_byte]

lemma b64_groups_encode: "b64_groups (b64_encode bs) = Some bs"
  by (induction bs rule: b64_encode.induct)
    (simp_all only: b64_encode.simps b64_groups.simps sextet_facts bytes_again char_of_char
      prod.case option.case if_True if_False simp_thms append.simps)

lemma b64_encode_no_breaks: "\<forall>c\<in>set (b64_encode bs). c \<noteq> CHR 0x0A \<and> c \<noteq> CHR 0x0D"
  by (induction bs rule: b64_encode.induct)
    (simp_all only: b64_encode.simps list.set ball_simps sextet_facts simp_thms, simp_all)

lemma b64_decode_encode: "b64_decode (b64_encode bs) = Some bs"
proof -
  have "filter (\<lambda>c. c \<noteq> CHR 0x0A \<and> c \<noteq> CHR 0x0D) (b64_encode bs) = b64_encode bs"
    using b64_encode_no_breaks by (simp add: filter_id_conv)
  then show ?thesis by (simp only: b64_decode_def b64_groups_encode)
qed

section \<open>The authorization header\<close>

definition BasicAuth :: "string \<Rightarrow> string \<Rightarrow> string" where
  "BasicAuth username password = ''Basic '' @ b64_encode (username @ '':'' @ password)"

text \<open>\<open>parseBasicAuth\<close>: the scheme in any case, then the text up to the first colon is
  the user.\<close>

definition parseBasicAuth :: "string \<Rightarrow> (string \<times> string) option" where
  "parseBasicAuth auth =
     (if map to_lower (take 6 auth) \<noteq> ''basic '' then None
      else case b64_decode (drop 6 auth) of
        None \<Rightarrow> None
      | Some cs \<Rightarrow>
          if CHR '':'' \<in> set cs
          then Some (takeWhile (\<lambda>c. c \<noteq> CHR '':'') cs, drop 1 (dropWhile (\<lambda>c. c \<noteq> CHR '':'') cs))
          else None)"

definition request_BasicAuth :: "request \<Rightarrow> (string \<times> string) option" where
  "request_BasicAuth r =
     (let auth = header_get (reqHeader r) ''Authorization'' in if auth = [] then None else parseBasicAuth auth)"

lemma parseBasicAuth_BasicAuth:
  "parseBasicAuth (BasicAuth user pass) =
     Some (takeWhile (\<lambda>c. c \<noteq> CHR '':'') (user @ '':'' @ pass),
           drop 1 (dropWhile (\<lambda>c. c \<noteq> CHR '':'') (user @ '':'' @ pass)))"
proof -
  have "map to_lower ''Basic '' = ''basic ''" by code_simp
  then show ?thesis by (simp add: parseBasicAuth_def BasicAuth_def b64_decode_encode)
qed

lemma until_colon:
  "CHR '':'' \<notin> set user \<Longrightarrow> takeWhile (\<lambda>c. c \<noteq> CHR '':'') (user @ CHR '':'' # pass) = user"
  "CHR '':'' \<notin> set user \<Longrightarrow> dropWhile (\<lambda>c. c \<noteq> CHR '':'') (user @ CHR '':'' # pass) = CHR '':'' # pass"
  by (induction user) auto

lemma parseBasicAuth_user: "parseBasicAuth auth = Some (user, pass) \<Longrightarrow> CHR '':'' \<notin> set user"
  by (auto simp: parseBasicAuth_def split: if_splits option.splits dest: set_takeWhileD)

lemma request_BasicAuth_user: "request_BasicAuth r = Some (user, pass) \<Longrightarrow> CHR '':'' \<notin> set user"
  by (auto simp: request_BasicAuth_def Let_def split: if_splits dest: parseBasicAuth_user)

lemma request_BasicAuth_header:
  assumes "header_get (reqHeader r) ''Authorization'' = BasicAuth user pass" and "CHR '':'' \<notin> set user"
  shows "request_BasicAuth r = Some (user, pass)"
proof -
  have "BasicAuth user pass \<noteq> []" by (simp add: BasicAuth_def)
  with assms show ?thesis
    by (simp add: request_BasicAuth_def parseBasicAuth_BasicAuth until_colon)
qed

end
