(* ===== verification/HttpUtil.thy ===== *)
theory HttpUtil
  imports BasicCredentials
begin

text \<open>
  The handler wrappers of \<open>mockgo/util/http.go\<close>: basic authentication for the paths of the
  API, the checks of the content type, of the accepted type and of the path parameters, and the
  writing of an entity. \<open>json.Marshal\<close> is an argument.
\<close>

definition unauthorized_msg :: "string \<Rightarrow> error" where
  "unauthorized_msg username = ''Authorization with username '' @ [CHR 0x27] @ username @ [CHR 0x27] @ '' failed. ''"

definition BasicAuthMiddleware ::
  "string \<Rightarrow> string \<Rightarrow> string \<Rightarrow> 's handler \<Rightarrow> 's handler" where
  "BasicAuthMiddleware includePathPrefix expectedUsername expectedPassword next_handler r w s =
     (if has_prefix (urlPath r) includePathPrefix \<and> \<not> has_suffix (urlPath r) ''/health'' then
        (case request_BasicAuth r of
           Some (username, password) \<Rightarrow>
             if username = expectedUsername \<and> password = expectedPassword
             then next_handler r w s
             else Ok (http_Error (unauthorized_msg username) 401 w, s)
         | None \<Rightarrow> Ok (http_Error ''Unauthorized'' 401 w, s))
      else next_handler r w s)"

definition wrong_header_msg :: "string \<Rightarrow> request \<Rightarrow> error" where
  "wrong_header_msg name r =
     ''wrong request headers: '' @ name @ '' must be application/json, but is '' @ [CHR 0x27]
       @ header_get (reqHeader r) ''Content-Type'' @ [CHR 0x27]"

definition JSONContentTypeRequest :: "'s handler \<Rightarrow> 's handler" where
  "JSONContentTypeRequest impl r w s =
     (if header_get (reqHeader r) ''Content-Type'' = ''application/json'' then impl r w s
      else Ok (http_Error (wrong_header_msg ''Content-Type'' r) 415 w, s))"

definition JSONAcceptRequest :: "'s handler \<Rightarrow> 's handler" where
  "JSONAcceptRequest impl r w s =
     (if header_get (reqHeader r) ''Accept'' = ''application/json'' then impl r w s
      else Ok (http_Error (wrong_header_msg ''Accept'' r) 415 w, s))"

definition param_missing_msg :: "string \<Rightarrow> error" where
  "param_missing_msg p = ''url path param '' @ [CHR 0x27] @ p @ [CHR 0x27] @ '' is not set''"

primrec PathParamRequest :: "string list \<Rightarrow> 's handler \<Rightarrow> 's handler" where
  "PathParamRequest [] impl r w s = impl r w s"
| "PathParamRequest (p # ps) impl r w s =
     (if path_var r p = [] then Ok (http_Error (param_missing_msg p) 404 w, s)
      else PathParamRequest ps impl r w s)"

text \<open>\<open>WriteEntity\<close>: a string is written as it is, anything else as JSON.
  \<open>as_string\<close> is the type assertion \<open>entity.(string)\<close>.\<close>

definition WriteEntity ::
  "('e \<Rightarrow> string option) \<Rightarrow> ('e \<Rightarrow> error + string) \<Rightarrow> 'e \<Rightarrow> response_writer \<Rightarrow> response_writer" where
  "WriteEntity as_string marshal entity w =
     (case as_string entity of
        Some text \<Rightarrow> write_bytes text w
      | None \<Rightarrow>
          (case marshal entity of
             Inl err \<Rightarrow> http_Error (''Cannot marshall response: '' @ err) 500 w
           | Inr text \<Rightarrow> write_bytes text w))"

section \<open>What the wrappers let through\<close>

lemma PathParamRequest_eq:
  "PathParamRequest ps impl r w s =
     (case find (\<lambda>p. path_var r p = []) ps of
        None \<Rightarrow> impl r w s
      | Some p \<Rightarrow> Ok (http_Error (param_missing_msg p) 404 w, s))"
  by (induction ps) auto

text \<open>Access control: a request is answered with 401 and an unchanged state exactly when its
  path lies under the protected prefix, does not end in \<open>/health\<close>, and it does not carry
  the configured username and password; every other request goes to the wrapped handler. So an
  API operation whose last path segment the client chooses (a key or an endpoint named
  \<open>health\<close>) needs no credentials.\<close>

theorem auth_guard:
  fixes next_handler :: "'s handler"
  assumes "rwStatus w = None"
  shows "if has_prefix (urlPath r) prefix \<and> \<not> has_suffix (urlPath r) ''/health'' \<and> request_BasicAuth r \<noteq> Some (user, pass)
    then \<exists>w'. BasicAuthMiddleware prefix user pass next_handler r w s = Ok (w', s)
      \<and> rwStatus w' = Some 401
    else BasicAuthMiddleware prefix user pass next_handler r w s = next_handler r w s"
  using assms
  by (auto simp: BasicAuthMiddleware_def rwStatus_http_Error split: option.splits prod.splits)

definition example_request :: "string \<Rightarrow> string \<Rightarrow> request" where
  "example_request method path =
     \<lparr>reqMethod = method, urlPath = path, urlString = path, urlHost = [], urlQuery = [],
      reqHeader = [], reqHost = ''localhost'', reqBody = Unread [], muxVars = Map.empty\<rparr>"

definition with_auth :: "string \<Rightarrow> string \<Rightarrow> request \<Rightarrow> request" where
  "with_auth user pass r = r\<lparr>reqHeader := (''Authorization'', BasicAuth user pass) # reqHeader r\<rparr>"

lemma with_auth_sel [simp]:
  "urlPath (with_auth user pass r) = urlPath r"
  "header_get (reqHeader (with_auth user pass r)) ''Authorization'' = BasicAuth user pass"
proof -
  have "canonical_key ''Authorization'' = ''Authorization''" by code_simp
  then show "header_get (reqHeader (with_auth user pass r)) ''Authorization'' = BasicAuth user pass"
    by (simp add: with_auth_def header_get_def)
qed (simp add: with_auth_def)

theorem auth_guard_witness:
  "(\<exists>w'. BasicAuthMiddleware ''/__'' ''mockgo'' ''password''
      (\<lambda>r w s. Ok (w, Suc s)) (example_request ''GET'' ''/__/matches/e'') new_writer 0 = Ok (w', 0)
    \<and> rwStatus w' = Some 401)
   \<and> BasicAuthMiddleware ''/__'' ''mockgo'' ''password'' (\<lambda>r w s. Ok (w, Suc s))
      (example_request ''PUT'' ''/__/kvstore/s/health'') new_writer 0 = Ok (new_writer, 1)"
proof -
  have w: "rwStatus new_writer = None" by (simp add: new_writer_def)
  have none: "request_BasicAuth (example_request ''GET'' ''/__/matches/e'') = None"
    by (simp add: request_BasicAuth_def example_request_def header_get_def)
  show ?thesis
    using auth_guard [OF w, of "example_request ''GET'' ''/__/matches/e''" "''/__''"
        "''mockgo''" "''password''" "\<lambda>r w s. Ok (w, Suc s)" 0]
      auth_guard [OF w, of "example_request ''PUT'' ''/__/kvstore/s/health''" "''/__''"
        "''mockgo''" "''password''" "\<lambda>r w s. Ok (w, Suc s)" 0] none
    by (simp add: example_request_def has_prefix_def has_suffix_def)
qed

text \<open>C38: Credentials: the header \<open>BasicAuth\<close> builds for a user name without a colon lets a
  request through to a protected handler exactly when user name and password are the configured
  ones, and is answered with 401 otherwise; when the configured user name itself contains a colon
  every request to a protected path is answered with 401, whatever its header.\<close>

theorem basic_auth_credentials:
  fixes next_handler :: "'s handler"
  assumes "rwStatus w = None" and "has_prefix (urlPath r) prefix" and "\<not> has_suffix (urlPath r) ''/health''"
    and "header_get (reqHeader r) ''Authorization'' = BasicAuth u p" and "CHR '':'' \<notin> set u"
  shows "(if u = user \<and> p = pass
     then BasicAuthMiddleware prefix user pass next_handler r w s = next_handler r w s
     else \<exists>w'. BasicAuthMiddleware prefix user pass next_handler r w s = Ok (w', s) \<and> rwStatus w' = Some 401)
    \<and> (\<forall>user' r'. CHR '':'' \<in> set user' \<and> urlPath r' = urlPath r \<longrightarrow>
         (\<exists>w'. BasicAuthMiddleware prefix user' pass next_handler r' w s = Ok (w', s) \<and> rwStatus w' = Some 401))"
proof -
  have "\<exists>w'. BasicAuthMiddleware prefix user' pass next_handler r' w s = Ok (w', s) \<and> rwStatus w' = Some 401"
    if "CHR '':'' \<in> set user'" "urlPath r' = urlPath r" for user' r'
  proof -
    from that(1) have "request_BasicAuth r' \<noteq> Some (user', pass)" using request_BasicAuth_user by blast
    with assms(1-3) that(2) show ?thesis
      by (auto simp: BasicAuthMiddleware_def rwStatus_http_Error split: option.split)
  qed
  then show ?thesis
    using assms request_BasicAuth_header [OF assms(4,5)]
    by (simp add: BasicAuthMiddleware_def rwStatus_http_Error)
qed

theorem basic_auth_credentials_witness:
  "BasicAuthMiddleware ''/__'' ''mockgo'' ''pass:word'' (\<lambda>r w s. Ok (w, Suc s))
      (with_auth ''mockgo'' ''pass:word'' (example_request ''GET'' ''/__/matches/e'')) new_writer 0 =
    Ok (new_writer, 1)
   \<and> (\<exists>w'. BasicAuthMiddleware ''/__'' ''mock:go'' ''password'' (\<lambda>r w s. Ok (w, Suc s))
      (with_auth ''mock:go'' ''password'' (example_request ''GET'' ''/__/matches/e'')) new_writer 0 = Ok (w', 0)
    \<and> rwStatus w' = Some 401)"
proof -
  let ?r = "\<lambda>u p. with_auth u p (example_request ''GET'' ''/__/matches/e'')"
  have w: "rwStatus new_writer = None" by (simp add: new_writer_def)
  have path: "has_prefix (urlPath (?r u p)) ''/__''" "\<not> has_suffix (urlPath (?r u p)) ''/health''" for u p
    by (simp_all add: example_request_def has_prefix_def has_suffix_def)
  have "CHR '':'' \<notin> set ''mockgo''" "CHR '':'' \<in> set ''mock:go''" by simp_all
  note credentials = basic_auth_credentials [OF w path with_auth_sel(2) this(1),
      where s = 0 and next_handler = "\<lambda>r w s. Ok (w, Suc s)"]
  show ?thesis
    using credentials [where user = "''mockgo''" and p = "''pass:word''" and pass = "''pass:word''"]
      credentials [where p = "''password''" and pass = "''password''"] \<open>CHR '':'' \<in> set ''mock:go''\<close>
    by simp
qed

end
