(* ===== verification/MatchesHandler.thy ===== *)
theory MatchesHandler
  imports InMemory HttpUtil
begin

text \<open>
  The HTTP API of the match store (\<open>mockgo/matches/requestHandler.go\<close>) over any
  \<open>Matchstore\<close>. Marshalling of lists of matches and mismatches is an argument; a count is
  marshalled as its decimal digits.
\<close>

definition marshal_uint64 :: "64 word \<Rightarrow> error + string" where
  "marshal_uint64 n = Inr (nat_digits (unat n))"

definition write_result :: "('e \<Rightarrow> error + string) \<Rightarrow> 'e result \<Rightarrow> response_writer \<Rightarrow> response_writer result" where
  "write_result marshal res w =
     (case res of
        Err e \<Rightarrow> Ok (http_Error e 500 w)
      | Panic p \<Rightarrow> Panic p
      | Ok x \<Rightarrow> Ok (WriteEntity (\<lambda>_. None) marshal x w))"

definition handleGetMatches :: "('s, 'm, 'mm) Matchstore \<Rightarrow> ('m list \<Rightarrow> error + string) \<Rightarrow> 's handler" where
  "handleGetMatches ms marshal r w s =
     bind_result (write_result marshal (GetMatches ms (path_var r ''endpointId'') s) w) (\<lambda>w. Ok (w, s))"

definition handleGetMatchesCount :: "('s, 'm, 'mm) Matchstore \<Rightarrow> 's handler" where
  "handleGetMatchesCount ms r w s =
     bind_result (write_result marshal_uint64 (GetMatchesCount ms (path_var r ''endpointId'') s) w)
       (\<lambda>w. Ok (w, s))"

definition handleGetMismatches :: "('s, 'm, 'mm) Matchstore \<Rightarrow> ('mm list \<Rightarrow> error + string) \<Rightarrow> 's handler" where
  "handleGetMismatches ms marshal r w s =
     bind_result (write_result marshal (GetMismatches ms s) w) (\<lambda>w. Ok (w, s))"

definition handleGetMismatchesCount :: "('s, 'm, 'mm) Matchstore \<Rightarrow> 's handler" where
  "handleGetMismatchesCount ms r w s =
     bind_result (write_result marshal_uint64 (GetMismatchesCount ms s) w) (\<lambda>w. Ok (w, s))"

definition handleDeleteMatches :: "('s, 'm, 'mm) Matchstore \<Rightarrow> 's handler" where
  "handleDeleteMatches ms r w s =
     (case DeleteMatches ms (path_var r ''endpointId'') s of
        (s', Some e) \<Rightarrow> Ok (http_Error e 500 w, s')
      | (s', None) \<Rightarrow> Ok (put_status 200 w, s'))"

definition handleDeleteMismatches :: "('s, 'm, 'mm) Matchstore \<Rightarrow> 's handler" where
  "handleDeleteMismatches ms r w s =
     (case DeleteMismatches ms s of
        (s', Some e) \<Rightarrow> Ok (http_Error e 500 w, s')
      | (s', None) \<Rightarrow> Ok (put_status 200 w, s'))"

text \<open>No route leads to this handler.\<close>

definition handleHealth :: "'s handler" where
  "handleHealth r w s = Ok (put_status 200 w, s)"

definition matches_AddRoutes ::
  "string \<Rightarrow> ('s, 'm, 'mm) Matchstore \<Rightarrow> ('m list \<Rightarrow> error + string) \<Rightarrow> ('mm list \<Rightarrow> error + string)
     \<Rightarrow> (string \<times> string \<times> string \<times> 's handler) list" where
  "matches_AddRoutes pathPrefix ms marshal marshal' =
     [(''getMatches'', pathPrefix @ ''/matches/{endpointId}'', ''GET'',
         JSONAcceptRequest (PathParamRequest [''endpointId''] (handleGetMatches ms marshal))),
      (''getMatchesCount'', pathPrefix @ ''/matchesCount/{endpointId}'', ''GET'',
         JSONAcceptRequest (PathParamRequest [''endpointId''] (handleGetMatchesCount ms))),
      (''getMismatches'', pathPrefix @ ''/mismatches'', ''GET'',
         JSONAcceptRequest (handleGetMismatches ms marshal')),
      (''getMismatchesCount'', pathPrefix @ ''/mismatchesCount'', ''GET'',
         JSONAcceptRequest (handleGetMismatchesCount ms)),
      (''deleteMatches'', pathPrefix @ ''/matches/{endpointId}'', ''DELETE'',
         PathParamRequest [''endpointId''] (handleDeleteMatches ms)),
      (''deleteMismatches'', pathPrefix @ ''/mismatches'', ''DELETE'', handleDeleteMismatches ms)]"

section \<open>Properties\<close>

lemma write_count:
  "rwStatus w = None \<Longrightarrow> rwBody w = [] \<Longrightarrow>
   \<exists>w'. write_result marshal_uint64 (Ok n) w = Ok w' \<and> rwStatus w' = Some 200 \<and> rwBody w' = nat_digits (unat n)"
  by (simp add: write_result_def WriteEntity_def marshal_uint64_def write_bytes_def put_status_def body_allowed_def)

lemma nat_digits_0: "nat_digits 0 = ''0''"
  by code_simp

text \<open>With the in-memory store, \<open>DELETE /matches/{endpointId}\<close> answers 200; after it
  \<open>GET\<close> of the count answers 200 with body \<open>0\<close> and \<open>GET\<close> of the matches
  writes the empty list, while the count and the matches of every other endpoint are as before.\<close>

theorem matches_api_delete:
  fixes s :: "('m, 'mm) InMemoryMatchstore"
  assumes "rwStatus w = None" and "rwStatus w' = None" and "rwBody w' = []"
    and "path_var r' ''endpointId'' = path_var r ''endpointId''"
  shows "\<exists>w1 s1 w2. handleDeleteMatches inmemory_store r w s = Ok (w1, s1) \<and> rwStatus w1 = Some 200
    \<and> handleGetMatchesCount inmemory_store r' w' s1 = Ok (w2, s1) \<and> rwStatus w2 = Some 200 \<and> rwBody w2 = ''0''
    \<and> handleGetMatches inmemory_store marshal r' w' s1 = Ok (WriteEntity (\<lambda>_. None) marshal [] w', s1)
    \<and> (\<forall>ep. ep = path_var r ''endpointId'' \<or>
         im_GetMatches ep s1 = im_GetMatches ep s \<and> im_GetMatchesCount ep s1 = im_GetMatchesCount ep s)"
proof -
  let ?ep = "path_var r ''endpointId''"
  let ?s1 = "im_DeleteMatches ?ep s"
  have "im_GetMatchesCount ?ep ?s1 = 0" "im_GetMatches ?ep ?s1 = []"
    by (auto simp: im_defs split: option.splits)
  moreover have "im_GetMatches ep ?s1 = im_GetMatches ep s"
    "im_GetMatchesCount ep ?s1 = im_GetMatchesCount ep s" if "ep \<noteq> ?ep" for ep
    using that by (auto simp: im_defs split: option.splits)
  moreover obtain w2 where "write_result marshal_uint64 (Ok 0) w' = Ok w2" "rwStatus w2 = Some 200" "rwBody w2 = ''0''"
    using write_count [OF assms(2,3), of 0] by (auto simp: nat_digits_0)
  ultimately show ?thesis
    using assms(1,4)
    by (auto simp: handleDeleteMatches_def handleGetMatchesCount_def handleGetMatches_def
        write_result_def put_status_def)
qed

theorem matches_api_delete_witness:
  "\<exists>w1 s1 w2. handleDeleteMatches inmemory_store
      ((example_request ''DELETE'' ''/__/matches/e'')\<lparr>muxVars := [''endpointId'' \<mapsto> ''e'']\<rparr>) new_writer
      (im_AddMatch ''e'' (7::nat) (NewInMemoryMatchstore 5 :: (nat, unit) InMemoryMatchstore)) = Ok (w1, s1)
    \<and> handleGetMatchesCount inmemory_store
      ((example_request ''GET'' ''/__/matchesCount/e'')\<lparr>muxVars := [''endpointId'' \<mapsto> ''e'']\<rparr>) new_writer s1 = Ok (w2, s1)
    \<and> rwBody w2 = ''0''"
proof -
  let ?r = "(example_request ''DELETE'' ''/__/matches/e'')\<lparr>muxVars := [''endpointId'' \<mapsto> ''e'']\<rparr>"
  let ?r' = "(example_request ''GET'' ''/__/matchesCount/e'')\<lparr>muxVars := [''endpointId'' \<mapsto> ''e'']\<rparr>"
  have w: "rwStatus new_writer = None" "rwBody new_writer = []" by (simp_all add: new_writer_def)
  have p: "path_var ?r' ''endpointId'' = path_var ?r ''endpointId''" by (simp add: path_var_def)
  from matches_api_delete [OF w(1) w(1) w(2) p, of "im_AddMatch ''e'' (7::nat) (NewInMemoryMatchstore 5)"]
  show ?thesis by blast
qed

end
