(* ===== verification/KVStorage.thy ===== *)
theory KVStorage
  imports GoPrelude
begin

text \<open>
  The key-value store of package \<open>kvstore\<close> (\<open>storage.go\<close>): the interface
  \<open>Storage\<close> as a record of its methods, its contract as a locale, the in-memory
  implementation and the template functions built on any storage. A value is an
  \<open>interface{}\<close>: \<open>None\<close> is nil.
\<close>

section \<open>The interface and its contract\<close>

record ('s, 'v) Storage =
  GetAll :: "string \<Rightarrow> 's \<Rightarrow> (string, 'v option) gomap result"
  Put :: "string \<Rightarrow> string \<Rightarrow> 'v option \<Rightarrow> 's \<Rightarrow> 's \<times> error option"
  Get :: "string \<Rightarrow> string \<Rightarrow> 's \<Rightarrow> 'v option result"
  ShutdownStorage :: "'s \<Rightarrow> 's \<times> error option"

locale storage_contract =
  fixes st :: "('s, 'v) Storage"
    and invar :: "'s \<Rightarrow> bool"
  assumes put_ok: "invar s \<Longrightarrow> snd (Put st a k v s) = None"
    and invar_put: "invar s \<Longrightarrow> invar (fst (Put st a k v s))"
    and get_put: "invar s \<Longrightarrow>
      Get st a' k' (fst (Put st a k v s)) = (if a' = a \<and> k' = k then Ok v else Get st a' k' s)"

section \<open>Template functions\<close>

text \<open>What a template function returns: an arbitrary value, a map, a text or a truth value.\<close>

datatype 'v tmpl_value =
  AnyValue "'v option"
| MapValue "(string, 'v option) gomap"
| TextValue string
| BoolValue bool

definition kvStoreGet :: "('s, 'v) Storage \<Rightarrow> string \<Rightarrow> string \<Rightarrow> 's \<Rightarrow> 'v tmpl_value result" where
  "kvStoreGet st a k s =
     (case Get st a k s of Ok v \<Rightarrow> Ok (AnyValue v) | Err e \<Rightarrow> Ok (TextValue e) | Panic p \<Rightarrow> Panic p)"

definition kvStoreGetAll :: "('s, 'v) Storage \<Rightarrow> string \<Rightarrow> 's \<Rightarrow> 'v tmpl_value result" where
  "kvStoreGetAll st a s =
     (case GetAll st a s of Ok m \<Rightarrow> Ok (MapValue m) | Err e \<Rightarrow> Ok (TextValue e) | Panic p \<Rightarrow> Panic p)"

definition kvStoreHasKey :: "('s, 'v) Storage \<Rightarrow> string \<Rightarrow> string \<Rightarrow> 's \<Rightarrow> 'v tmpl_value result" where
  "kvStoreHasKey st a k s =
     (case Get st a k s of
        Ok v \<Rightarrow> Ok (BoolValue (v \<noteq> None)) | Err e \<Rightarrow> Ok (BoolValue False) | Panic p \<Rightarrow> Panic p)"

definition kvStorePut ::
  "('s, 'v) Storage \<Rightarrow> string \<Rightarrow> string \<Rightarrow> 'v option \<Rightarrow> 's \<Rightarrow> 's \<times> 'v tmpl_value" where
  "kvStorePut st a k v s =
     (let (s', err) = Put st a k v s
      in (s', TextValue (case err of Some e \<Rightarrow> e | None \<Rightarrow> [])))"

definition kvStoreRemove ::
  "('s, 'v) Storage \<Rightarrow> string \<Rightarrow> string \<Rightarrow> 's \<Rightarrow> 's \<times> 'v tmpl_value" where
  "kvStoreRemove st a k s =
     (let (s', err) = Put st a k None s
      in (s', TextValue (case err of Some e \<Rightarrow> e | None \<Rightarrow> [])))"

text \<open>The functions as the templates get them, by their arity and whether they write.\<close>

datatype ('s, 'v) template_func =
  ReadsKey "string \<Rightarrow> string \<Rightarrow> 's \<Rightarrow> 'v tmpl_value result"
| ReadsStore "string \<Rightarrow> 's \<Rightarrow> 'v tmpl_value result"
| WritesValue "string \<Rightarrow> string \<Rightarrow> 'v option \<Rightarrow> 's \<Rightarrow> 's \<times> 'v tmpl_value"
| WritesKey "string \<Rightarrow> string \<Rightarrow> 's \<Rightarrow> 's \<times> 'v tmpl_value"

definition NewKVStoreTemplateFuncMap :: "('s, 'v) Storage \<Rightarrow> (string \<times> ('s, 'v) template_func) list" where
  "NewKVStoreTemplateFuncMap storage =
     [(''kvStoreGet'', ReadsKey (kvStoreGet storage)),
      (''kvStoreGetAll'', ReadsStore (kvStoreGetAll storage)),
      (''kvStoreHasKey'', ReadsKey (kvStoreHasKey storage)),
      (''kvStorePut'', WritesValue (kvStorePut storage)),
      (''kvStoreRemove'', WritesKey (kvStoreRemove storage))]"

section \<open>What a client of any storage may rely on\<close>

text \<open>A sequence of writes, and the value the last one for a key has left.\<close>

definition put_all :: "('s, 'v) Storage \<Rightarrow> ((string \<times> string) \<times> 'v option) list \<Rightarrow> 's \<Rightarrow> 's" where
  "put_all st ws s = fold (\<lambda>((a, k), v) s. fst (Put st a k v s)) ws s"

definition last_write :: "((string \<times> string) \<times> 'v option) list \<Rightarrow> string \<Rightarrow> string \<Rightarrow> 'v option option" where
  "last_write ws a k = map_of (rev ws) (a, k)"

context storage_contract
begin

lemma invar_put_all: "invar s \<Longrightarrow> invar (put_all st ws s)"
  by (induction ws arbitrary: s) (auto simp: put_all_def intro: invar_put)

lemma get_put_all:
  "invar s \<Longrightarrow> Get st a k (put_all st ws s) =
     (case last_write ws a k of Some v \<Rightarrow> Ok v | None \<Rightarrow> Get st a k s)"
proof (induction ws arbitrary: s)
  case (Cons w ws)
  obtain a' k' v where w: "w = ((a', k'), v)" by (metis prod.collapse)
  have "put_all st (w # ws) s = put_all st ws (fst (Put st a' k' v s))"
    by (simp add: put_all_def w)
  with Cons.IH [OF invar_put [OF Cons.prems]] show ?case
    by (auto simp: w last_write_def map_add_def get_put [OF Cons.prems] split: option.splits)
qed (simp add: put_all_def last_write_def)

lemma template_put:
  assumes "invar s"
  shows "snd (kvStorePut st a k v s) = TextValue []"
    and "kvStoreGet st a k (fst (kvStorePut st a k v s)) = Ok (AnyValue v)"
    and "kvStoreHasKey st a k (fst (kvStorePut st a k v s)) = Ok (BoolValue (v \<noteq> None))"
  using put_ok [OF assms, of a k v] get_put [OF assms, of a k a k v]
  by (simp_all add: kvStorePut_def kvStoreGet_def kvStoreHasKey_def Let_def case_prod_beta)

lemma template_remove:
  assumes "invar s"
  shows "kvStoreGet st a k (fst (kvStoreRemove st a k s)) = Ok (AnyValue None)"
    and "kvStoreHasKey st a k (fst (kvStoreRemove st a k s)) = Ok (BoolValue False)"
    and "(a', k') \<noteq> (a, k) \<Longrightarrow>
      kvStoreGet st a' k' (fst (kvStoreRemove st a k s)) = kvStoreGet st a' k' s"
  using get_put [OF assms, of a k a k None] get_put [OF assms, of a' k' a k None]
  by (auto simp: kvStoreRemove_def kvStoreGet_def kvStoreHasKey_def Let_def case_prod_beta)

end

section \<open>The in-memory storage\<close>

record 'v InmemoryStorage =
  kvStore :: "string \<rightharpoonup> (string \<rightharpoonup> 'v option)"

definition NewInmemoryStorage :: "'v InmemoryStorage" where
  "NewInmemoryStorage = \<lparr>kvStore = Map.empty\<rparr>"

definition inm_GetAll :: "string \<Rightarrow> 'v InmemoryStorage \<Rightarrow> (string, 'v option) gomap" where
  "inm_GetAll a s = (case kvStore s a of None \<Rightarrow> None | Some m \<Rightarrow> Some m)"

definition inm_Get :: "string \<Rightarrow> string \<Rightarrow> 'v InmemoryStorage \<Rightarrow> 'v option" where
  "inm_Get a k s =
     (case kvStore s a of None \<Rightarrow> None
      | Some m \<Rightarrow> (case m k of None \<Rightarrow> None | Some v \<Rightarrow> v))"

definition inm_Put :: "string \<Rightarrow> string \<Rightarrow> 'v option \<Rightarrow> 'v InmemoryStorage \<Rightarrow> 'v InmemoryStorage" where
  "inm_Put a k v s =
     (let m = (case kvStore s a of None \<Rightarrow> Map.empty | Some m \<Rightarrow> m)
      in s\<lparr>kvStore := (kvStore s)(a \<mapsto> m(k \<mapsto> v))\<rparr>)"

definition inmemory_storage :: "('v InmemoryStorage, 'v) Storage" where
  "inmemory_storage =
     \<lparr>GetAll = (\<lambda>a s. Ok (inm_GetAll a s)),
      Put = (\<lambda>a k v s. (inm_Put a k v s, None)),
      Get = (\<lambda>a k s. Ok (inm_Get a k s)),
      ShutdownStorage = (\<lambda>s. (s, None))\<rparr>"

lemma inmemory_storage_sel [simp]:
  "GetAll inmemory_storage a s = Ok (inm_GetAll a s)"
  "Put inmemory_storage a k v s = (inm_Put a k v s, None)"
  "Get inmemory_storage a k s = Ok (inm_Get a k s)"
  "ShutdownStorage inmemory_storage s = (s, None)"
  by (simp_all add: inmemory_storage_def)

lemma inm_Get_Put: "inm_Get a' k' (inm_Put a k v s) = (if a' = a \<and> k' = k then v else inm_Get a' k' s)"
  by (auto simp: inm_Get_def inm_Put_def Let_def split: option.splits)

lemma inm_GetAll_Put:
  "inm_GetAll a' (inm_Put a k v s) =
     (if a' = a then Some ((case inm_GetAll a s of None \<Rightarrow> Map.empty | Some m \<Rightarrow> m)(k \<mapsto> v))
      else inm_GetAll a' s)"
  by (auto simp: inm_GetAll_def inm_Put_def Let_def split: option.splits)

lemma inm_Get_new [simp]: "inm_Get a k NewInmemoryStorage = None"
  by (simp add: inm_Get_def NewInmemoryStorage_def)

interpretation inm: storage_contract inmemory_storage "\<lambda>_. True"
  by unfold_locales (simp_all add: inm_Get_Put)

section \<open>Properties\<close>

text \<open>After any sequence of writes to an empty in-memory store, \<open>Get\<close> returns the value of
  the last write for that store and key, and nil when there was none; writes to other stores
  or keys do not matter.\<close>

theorem inmemory_storage_last_write:
  "inm_Get a k (put_all inmemory_storage ws NewInmemoryStorage) =
     (case last_write ws a k of Some v \<Rightarrow> v | None \<Rightarrow> None)"
  using inm.get_put_all [where s = NewInmemoryStorage and a = a and k = k and ws = ws]
  by (simp split: option.splits)

text \<open>The template functions on the in-memory storage: what \<open>kvStorePut\<close> stores
  \<open>kvStoreGet\<close> returns, and after \<open>kvStoreRemove\<close> the key is gone for
  \<open>kvStoreGet\<close> and \<open>kvStoreHasKey\<close>, and only that key; \<open>kvStoreGetAll\<close> still lists
  a removed key, with the value nil.\<close>

theorem kv_template_functions:
  "kvStoreGet inmemory_storage a k (fst (kvStorePut inmemory_storage a k v s)) = Ok (AnyValue v)
   \<and> kvStoreHasKey inmemory_storage a k (fst (kvStorePut inmemory_storage a k (Some x) s)) = Ok (BoolValue True)
   \<and> kvStoreGet inmemory_storage a k (fst (kvStoreRemove inmemory_storage a k s)) = Ok (AnyValue None)
   \<and> kvStoreHasKey inmemory_storage a k (fst (kvStoreRemove inmemory_storage a k s)) = Ok (BoolValue False)
   \<and> ((a', k') = (a, k) \<or>
      kvStoreGet inmemory_storage a' k' (fst (kvStoreRemove inmemory_storage a k s)) =
      kvStoreGet inmemory_storage a' k' s)
   \<and> (\<exists>m. kvStoreGetAll inmemory_storage a (fst (kvStoreRemove inmemory_storage a k s)) = Ok (MapValue (Some m))
      \<and> m k = Some None)"
  using inm.template_put(2) [where s = s and a = a and k = k and v = v]
    inm.template_put(3) [where s = s and a = a and k = k and v = "Some x"]
    inm.template_remove(1,2) [where s = s and a = a and k = k]
    inm.template_remove(3) [where s = s and a = a and k = k and a' = a' and k' = k']
  by (auto simp: kvStoreGetAll_def kvStoreRemove_def inm_GetAll_Put)

end
