(* ===== verification/KVHandler.thy ===== *)
theory KVHandler
  imports KVStorage HttpUtil
begin

text \<open>
  The HTTP API of the key-value store (\<open>mockgo/kvstore/requestHandler.go\<close>) over any
  \<open>Storage\<close>. Package \<open>encoding/json\<close> enters as a codec: marshalling of a value and of
  a whole store, unmarshalling (JSON \<open>null\<close> gives nil), and the assertion that a value is
  a string.
\<close>

record 'v json_codec =
  jMarshal :: "'v \<Rightarrow> error + string"
  jMarshalMap :: "(string \<rightharpoonup> 'v option) \<Rightarrow> error + string"
  jUnmarshal :: "string \<Rightarrow> error + 'v option"
  jString :: "'v \<Rightarrow> string option"

definition pathParamStore :: string where "pathParamStore = ''store''"
definition pathParamKey :: string where "pathParamKey = ''key''"

lemmas path_params = pathParamStore_def pathParamKey_def

section \<open>The handlers\<close>

definition handleGetKVStore :: "('s, 'v) Storage \<Rightarrow> 'v json_codec \<Rightarrow> 's handler" where
  "handleGetKVStore st js r w s =
     (case Get st (path_var r pathParamStore) (path_var r pathParamKey) s of
        Err e \<Rightarrow> Ok (http_Error e 500 w, s)
      | Panic p \<Rightarrow> Panic p
      | Ok None \<Rightarrow> Ok (put_status 404 w, s)
      | Ok (Some v) \<Rightarrow> Ok (WriteEntity (jString js) (jMarshal js) v w, s))"

definition handleGetAllKVStore :: "('s, 'v) Storage \<Rightarrow> 'v json_codec \<Rightarrow> 's handler" where
  "handleGetAllKVStore st js r w s =
     (case GetAll st (path_var r pathParamStore) s of
        Err e \<Rightarrow> Ok (http_Error e 500 w, s)
      | Panic p \<Rightarrow> Panic p
      | Ok None \<Rightarrow> Ok (put_status 404 w, s)
      | Ok (Some m) \<Rightarrow> Ok (WriteEntity (\<lambda>_. None) (jMarshalMap js) m w, s))"

definition handlePutKVStore :: "('s, 'v) Storage \<Rightarrow> 'v json_codec \<Rightarrow> 's handler" where
  "handlePutKVStore st js r w s =
     (case fst (io_ReadAll (reqBody r)) of
        Inl e \<Rightarrow> Ok (http_Error (''Problem reading request body: '' @ e) 500 w, s)
      | Inr bytes \<Rightarrow>
          (case jUnmarshal js bytes of
             Inl e \<Rightarrow> Ok (http_Error (''Can'' @ [CHR 0x27] @ ''t parse request body: '' @ e) 400 w, s)
           | Inr v \<Rightarrow>
               (case Put st (path_var r pathParamStore) (path_var r pathParamKey) v s of
                  (s', Some e) \<Rightarrow>
                    Ok (http_Error (''Can'' @ [CHR 0x27] @ ''t store kvstore value '' @ e) 500 w, s')
                | (s', None) \<Rightarrow> Ok (put_status 204 w, s'))))"

definition handleRemoveKVStore :: "('s, 'v) Storage \<Rightarrow> 's handler" where
  "handleRemoveKVStore st r w s =
     (case Put st (path_var r pathParamStore) (path_var r pathParamKey) None s of
        (s', Some e) \<Rightarrow>
          Ok (http_Error (''Can'' @ [CHR 0x27] @ ''t remove value from kvstore: '' @ e) 500 w, s')
      | (s', None) \<Rightarrow> Ok (put_status 204 w, s'))"

text \<open>The routes in the order they are added: name, path template, method, handler.\<close>

definition kv_AddRoutes ::
  "string \<Rightarrow> ('s, 'v) Storage \<Rightarrow> 'v json_codec \<Rightarrow> (string \<times> string \<times> string \<times> 's handler) list" where
  "kv_AddRoutes pathPrefix st js =
     (let storePath = pathPrefix @ ''/kvstore'' @ ''/{'' @ pathParamStore @ ''}'';
          storePathWithKey = storePath @ ''/{'' @ pathParamKey @ ''}''
      in [(''putKVStore'', storePathWithKey, ''PUT'',
             JSONContentTypeRequest (PathParamRequest [pathParamStore, pathParamKey] (handlePutKVStore st js))),
          (''getKVStore'', storePathWithKey, ''GET'',
             JSONAcceptRequest (PathParamRequest [pathParamStore, pathParamKey] (handleGetKVStore st js))),
          (''getAllKVStore'', storePath, ''GET'',
             JSONAcceptRequest (PathParamRequest [pathParamStore] (handleGetAllKVStore st js))),
          (''removeKVStore'', storePathWithKey, ''DELETE'',
             PathParamRequest [pathParamStore, pathParamKey] (handleRemoveKVStore st))])"

section \<open>Properties\<close>

lemma status_204: "rwStatus w = None \<Longrightarrow> rwStatus (put_status 204 w) = Some 204"
  by (simp add: put_status_def)

text \<open>A \<open>PUT\<close> of a body that parses as JSON answers 204, and a following
  \<open>GET\<close> of the same store and key answers with that value written by \<open>WriteEntity\<close>,
  or 404 when the value was \<open>null\<close>.\<close>

theorem kv_put_then_get:
  fixes js :: "'v json_codec"
  assumes "reqBody r = Unread b" and "jUnmarshal js b = Inr v"
    and "path_var r' pathParamStore = path_var r pathParamStore"
    and "path_var r' pathParamKey = path_var r pathParamKey"
    and "rwStatus w = None"
  shows "\<exists>w1 s1. handlePutKVStore inmemory_storage js r w s = Ok (w1, s1) \<and> rwStatus w1 = Some 204
    \<and> handleGetKVStore inmemory_storage js r' w' s1 =
        Ok (case v of None \<Rightarrow> put_status 404 w' | Some x \<Rightarrow> WriteEntity (jString js) (jMarshal js) x w', s1)"
  using assms
  by (simp add: handlePutKVStore_def handleGetKVStore_def inm_Get_Put status_204 split: option.split)

definition digits_codec :: "nat json_codec" where
  "digits_codec =
     \<lparr>jMarshal = (\<lambda>n. Inr (nat_digits n)), jMarshalMap = (\<lambda>_. Inr ''{}''),
      jUnmarshal = (\<lambda>s. case parse_nat s of None \<Rightarrow> Inl ''invalid character'' | Some n \<Rightarrow> Inr (Some n)),
      jString = (\<lambda>_. None)\<rparr>"

definition kv_request :: "string \<Rightarrow> string \<Rightarrow> request" where
  "kv_request method b =
     (example_request method ''/__/kvstore/s/k'')
       \<lparr>reqBody := Unread b, muxVars := [''store'' \<mapsto> ''s'', ''key'' \<mapsto> ''k'']\<rparr>"

theorem kv_put_then_get_witness:
  "\<exists>w1 s1. handlePutKVStore inmemory_storage digits_codec (kv_request ''PUT'' ''42'') new_writer
      NewInmemoryStorage = Ok (w1, s1) \<and> rwStatus w1 = Some 204
    \<and> handleGetKVStore inmemory_storage digits_codec (kv_request ''GET'' []) new_writer s1 =
        Ok (WriteEntity (\<lambda>_. None) (\<lambda>n. Inr (nat_digits n)) 42 new_writer, s1)"
proof -
  have b: "reqBody (kv_request ''PUT'' ''42'') = Unread ''42''"
    and w: "rwStatus new_writer = None"
    and v: "path_var (kv_request ''GET'' []) pathParamStore = path_var (kv_request ''PUT'' ''42'') pathParamStore"
      "path_var (kv_request ''GET'' []) pathParamKey = path_var (kv_request ''PUT'' ''42'') pathParamKey"
    by (simp_all add: kv_request_def path_var_def new_writer_def)
  have u: "jUnmarshal digits_codec ''42'' = Inr (Some 42)" by code_simp
  from kv_put_then_get [OF b u v w, of NewInmemoryStorage new_writer]
  show ?thesis by (simp add: digits_codec_def)
qed

text \<open>A \<open>DELETE\<close> answers 204 and makes a following \<open>GET\<close> of the same key answer
  404; what a \<open>GET\<close> of another store or key answers is not changed.\<close>

theorem kv_delete_then_get:
  fixes js :: "'v json_codec"
  assumes "rwStatus w = None" and "rwStatus w' = None"
  shows "\<exists>w1 s1. handleRemoveKVStore (inmemory_storage :: ('v InmemoryStorage, 'v) Storage) r w s = Ok (w1, s1)
    \<and> rwStatus w1 = Some 204
    \<and> (if path_var r' pathParamStore = path_var r pathParamStore
          \<and> path_var r' pathParamKey = path_var r pathParamKey
       then \<exists>w2. handleGetKVStore inmemory_storage js r' w' s1 = Ok (w2, s1) \<and> rwStatus w2 = Some 404
       else map_result fst (handleGetKVStore inmemory_storage js r' w' s1) =
            map_result fst (handleGetKVStore inmemory_storage js r' w' s))"
  using assms
  by (auto simp: handleRemoveKVStore_def handleGetKVStore_def inm_Get_Put put_status_def split: option.splits)

theorem kv_delete_then_get_witness:
  "\<exists>w1 s1 w2. handleRemoveKVStore inmemory_storage (kv_request ''DELETE'' []) new_writer
      (inm_Put ''s'' ''k'' (Some (1::nat)) NewInmemoryStorage) = Ok (w1, s1)
    \<and> handleGetKVStore inmemory_storage digits_codec (kv_request ''GET'' []) new_writer s1 = Ok (w2, s1)
    \<and> rwStatus w2 = Some 404"
proof -
  have w: "rwStatus new_writer = None" by (simp add: new_writer_def)
  from kv_delete_then_get [OF w w, of "kv_request ''DELETE'' []"
      "inm_Put ''s'' ''k'' (Some (1::nat)) NewInmemoryStorage" "kv_request ''GET'' []" digits_codec]
  show ?thesis by (auto simp: kv_request_def path_var_def)
qed

text \<open>A rejected \<open>PUT\<close> changes nothing: when the body cannot be read the answer is 500,
  when it is not JSON 400, and in both cases the storage, whichever it is, keeps its state.\<close>

theorem kv_put_rejected:
  assumes "rwStatus w = None"
    and "(\<exists>e. reqBody r = FailingReader e \<and> code = 500)
      \<or> (\<exists>b e. reqBody r = Unread b \<and> jUnmarshal js b = Inl e \<and> code = 400)"
  shows "\<exists>w1. handlePutKVStore st js r w s = Ok (w1, s) \<and> rwStatus w1 = Some code"
  using assms by (auto simp: handlePutKVStore_def rwStatus_http_Error)

theorem kv_put_rejected_witness:
  "\<exists>w1. handlePutKVStore inmemory_storage digits_codec (kv_request ''PUT'' ''{'') new_writer
      NewInmemoryStorage = Ok (w1, NewInmemoryStorage) \<and> rwStatus w1 = Some 400"
proof -
  have w: "rwStatus new_writer = None" by (simp add: new_writer_def)
  have "jUnmarshal digits_codec ''{'' = Inl ''invalid character''" by code_simp
  then have "(\<exists>e. reqBody (kv_request ''PUT'' ''{'') = FailingReader e \<and> (400::int) = 500)
      \<or> (\<exists>b e. reqBody (kv_request ''PUT'' ''{'') = Unread b \<and> jUnmarshal digits_codec b = Inl e \<and> (400::int) = 400)"
    by (simp add: kv_request_def)
  from kv_put_rejected [OF w this] show ?thesis .
qed

end
