(* ===== verification/Starter.thy ===== *)
theory Starter
  imports MockHandler MatchesHandler KVHandler
begin

text \<open>
  Configuration: the basic configuration of \<open>mockgo/starter/starter.go\<close>, and what the
  \<open>main\<close> packages of the three variants (standalone, grpc, redis) check and pass on. Reading
  the environment is not modelled; the routes are the subject of \<open>Router\<close>, serving and
  shutting down of \<open>Lifecycle\<close>, the start of the grpc and redis stores of \<open>GrpcVariant\<close> and
  \<open>RedisVariant\<close>.
\<close>

section \<open>The basic configuration\<close>

record BasicConfiguration =
  LoglevelAPI :: string
  LoglevelMock :: string
  MockPort :: int
  MockDir :: string
  MockFilepattern :: string
  MatchesCapacity :: int
  APIPathPrefix :: string
  APIUsername :: string
  APIPassword :: string

text \<open>The defaults of the environment variables.\<close>

definition default_configuration :: BasicConfiguration where
  "default_configuration =
     \<lparr>LoglevelAPI = ''INFO'', LoglevelMock = ''INFO'', MockPort = 8081, MockDir = ''.'',
      MockFilepattern = ''*-mock.*'', MatchesCapacity = 1000, APIPathPrefix = ''/__'',
      APIUsername = ''mockgo'', APIPassword = ''password''\<rparr>"

definition nl :: string where "nl = [CHR 0x0A]"
definition env_name :: "string \<Rightarrow> string" where "env_name n = '' ('' @ quoted n @ '')''"

definition password_message :: "string \<Rightarrow> string result" where
  "password_message password =
     (if password = ''password'' then Ok (''!! using UNSECURE password '' @ sq ''password'')
      else bind_result (slice_to 3 password) (\<lambda>s. Ok (s @ ''***'')))"

definition Info :: "BasicConfiguration \<Rightarrow> string result" where
  "Info c =
     bind_result (password_message (APIPassword c)) (\<lambda>passwordMessage.
       Ok (nl @ nl
         @ ''API: '' @ nl
         @ ''  Path prefix: '' @ sq (APIPathPrefix c) @ env_name ''API_PATH_PREFIX'' @ nl
         @ ''  BasicAuth User: '' @ sq (APIUsername c) @ env_name ''API_USERNAME'' @ nl
         @ ''  BasicAuth Password: '' @ passwordMessage @ env_name ''API_PASSWORD'' @ nl
         @ ''  LogLevel: '' @ sq (LoglevelAPI c) @ env_name ''LOGLEVEL_API'' @ nl @ nl
         @ ''Mock Server:'' @ nl
         @ ''  Port: '' @ itoa (MockPort c) @ env_name ''MOCK_PORT'' @ nl
         @ ''  Dir: '' @ sq (MockDir c) @ env_name ''MOCK_DIR'' @ nl
         @ ''  Filepattern: '' @ sq (MockFilepattern c) @ env_name ''MOCK_FILEPATTERN'' @ nl
         @ ''  LogLevel: '' @ sq (LoglevelMock c) @ env_name ''LOGLEVEL_MOCK'' @ nl
         @ ''  '' @ nl
         @ ''Matches:'' @ nl
         @ ''  Capacity: '' @ itoa (MatchesCapacity c) @ env_name ''MATCHES_CAPACITY'' @ nl @ ''  ''))"

text \<open>The capacity every variant gives its store: the integer is converted to \<open>uint16\<close>.\<close>

definition store_capacity :: "BasicConfiguration \<Rightarrow> 16 word" where
  "store_capacity c = word_of_int (MatchesCapacity c)"

section \<open>The grpc variant\<close>

record GrpcConfiguration =
  ClusterHostnames :: "string list"
  MatchstorePort :: int
  KvstorePort :: int

text \<open>\<open>fmt\<close> prints a list of strings between brackets.\<close>

definition fmt_list :: "string list \<Rightarrow> string" where
  "fmt_list xs = ''['' @ join_with '' '' xs @ '']''"

definition validate :: "GrpcConfiguration \<Rightarrow> error + GrpcConfiguration" where
  "validate c =
     (if length (ClusterHostnames c) < 2
      then Inl (''you must define multiple hostnames, but you have just '' @ sq (fmt_list (ClusterHostnames c)))
      else if length (last (ClusterHostnames c)) = 0
      then Inr (c\<lparr>ClusterHostnames := butlast (ClusterHostnames c)\<rparr>)
      else Inr c)"

primrec createAddresses :: "string list \<Rightarrow> int \<Rightarrow> string list" where
  "createAddresses [] port = []"
| "createAddresses (host # hosts) port =
     (if CHR '':'' \<in> set host then host else host @ '':'' @ itoa port) # createAddresses hosts port"

text \<open>What \<open>main\<close> passes to the two constructors: the client addresses and the server port.\<close>

record grpc_wiring =
  matchstore_addresses :: "string list"
  matchstore_port :: int
  matchstore_capacity :: "16 word"
  kvstore_addresses :: "string list"
  kvstore_port :: int

definition grpc_main :: "GrpcConfiguration \<Rightarrow> BasicConfiguration \<Rightarrow> grpc_wiring" where
  "grpc_main config basic =
     \<lparr>matchstore_addresses = createAddresses (ClusterHostnames config) (MatchstorePort config),
      matchstore_port = MatchstorePort config,
      matchstore_capacity = store_capacity basic,
      kvstore_addresses = createAddresses (ClusterHostnames config) (MatchstorePort config),
      kvstore_port = KvstorePort config\<rparr>"

section \<open>The redis variant\<close>

record RedisConfiguration =
  RedisAddress :: string
  RedisPassword :: string
  MatchstoreRedisDB :: int
  KvstoreRedisDB :: int

definition validateRedis :: "RedisConfiguration \<Rightarrow> error option" where
  "validateRedis c =
     (if MatchstoreRedisDB c = KvstoreRedisDB c
      then Some ''redis db for matchstore and kvstore must be different'' else None)"

definition passwordInfo :: "string \<Rightarrow> string result" where
  "passwordInfo realPassword =
     (if realPassword = ''password'' \<or> length realPassword < 4
      then Ok (''!! using UNSECURE password '' @ sq realPassword @ '' '')
      else bind_result (slice_to 3 realPassword) (\<lambda>s. Ok (s @ ''***'')))"

section \<open>Properties\<close>

text \<open>The configuration text is printed, or the server panics at its start, and it panics
  exactly for a password of fewer than three bytes (the empty one included); a longer one is cut to
  its first three bytes. The redis password text never panics.\<close>

theorem info_panics_for_short_password:
  "is_panic (Info c) = (length (APIPassword c) < 3)
   \<and> (password_message (APIPassword c) =
        (if APIPassword c = ''password'' then Ok (''!! using UNSECURE password '' @ sq ''password'')
         else if length (APIPassword c) < 3 then Panic out_of_range
         else Ok (take 3 (APIPassword c) @ ''***'')))
   \<and> \<not> is_panic (passwordInfo (RedisPassword rc))"
  by (auto simp: Info_def password_message_def passwordInfo_def slice_to_def)

lemma createAddresses_map:
  "createAddresses hosts port = map (\<lambda>h. if CHR '':'' \<in> set h then h else h @ '':'' @ itoa port) hosts"
  by (induction hosts) auto

lemma host_port_inject:
  assumes "h @ '':'' @ itoa a = h' @ '':'' @ itoa b" and "CHR '':'' \<notin> set h" and "CHR '':'' \<notin> set h'"
    and "- (2 ^ 63) \<le> a" and "a < 2 ^ 63" and "- (2 ^ 63) \<le> b" and "b < 2 ^ 63"
  shows "a = b"
proof -
  have "takeWhile (\<lambda>c. c \<noteq> CHR '':'') (h @ '':'' @ t) = h" if "CHR '':'' \<notin> set h" for h t
    using that by (induction h) auto
  then have "h = h'" using assms(1-3) by metis
  with assms(1) have "itoa a = itoa b" by simp
  then have "atoi (itoa a) = atoi (itoa b)" by simp
  with atoi_itoa assms(4-7) show ?thesis by simp
qed

text \<open>The grpc variant gives the clients of the key-value store the port of the match store: for
  host names without a port no client dials the port at which the key-value store listens, unless
  both ports are configured to be the same.\<close>

theorem grpc_kv_clients_dial_matchstore_port:
  assumes "\<forall>h\<in>set (ClusterHostnames config). CHR '':'' \<notin> set h"
    and "KvstorePort config \<noteq> MatchstorePort config"
    and "0 \<le> KvstorePort config" and "KvstorePort config < 2 ^ 16"
    and "0 \<le> MatchstorePort config" and "MatchstorePort config < 2 ^ 16"
  shows "kvstore_port (grpc_main config basic) = KvstorePort config
    \<and> (\<forall>a\<in>set (kvstore_addresses (grpc_main config basic)). \<forall>h\<in>set (ClusterHostnames config).
         a \<noteq> h @ '':'' @ itoa (kvstore_port (grpc_main config basic)))"
proof -
  have "h @ '':'' @ itoa (MatchstorePort config) \<noteq> h' @ '':'' @ itoa (KvstorePort config)"
    if "h \<in> set (ClusterHostnames config)" "h' \<in> set (ClusterHostnames config)" for h h'
    using that assms host_port_inject [of h "MatchstorePort config" h' "KvstorePort config"] by force
  then show ?thesis
    using assms(1) by (auto simp: grpc_main_def createAddresses_map)
qed

definition default_cluster :: GrpcConfiguration where
  "default_cluster = \<lparr>ClusterHostnames = [''mockgo-0'', ''mockgo-1''], MatchstorePort = 50051, KvstorePort = 50151\<rparr>"

theorem grpc_kv_clients_dial_matchstore_port_witness:
  "''mockgo-1'' @ '':'' @ itoa 50151 \<notin> set (kvstore_addresses (grpc_main default_cluster default_configuration))"
proof -
  have "\<forall>h\<in>set (ClusterHostnames default_cluster). CHR '':'' \<notin> set h"
    by (simp add: default_cluster_def)
  from grpc_kv_clients_dial_matchstore_port [OF this, of default_configuration]
  have "\<forall>a\<in>set (kvstore_addresses (grpc_main default_cluster default_configuration)).
      a \<noteq> ''mockgo-1'' @ '':'' @ itoa 50151"
    by (simp add: default_cluster_def grpc_main_def)
  then show ?thesis by blast
qed

end
