(* ===== verification/GrpcMatchstore.thy ===== *)
theory GrpcMatchstore
  imports InMemory "HOL-Library.Sublist" "HOL-Library.Multiset"
begin

text \<open>
  The distributed match store (\<open>mockgo-grpc/matchstore/matchstore.go\<close>): every node of the
  cluster keeps an in-memory store of its own matches; additions are local, queries and
  deletions call every client, one per node, the node itself included. The messages are those
  of \<open>matchstore.pb.go\<close>. A time stamp is the instant it denotes. The network is a
  parameter: what happens to the call of the i-th client.
\<close>

section \<open>Messages and their mapping\<close>

record HeaderValue =
  hvVal :: "string list"

record PbActualRequest =
  pbMethod :: string
  pbUrl :: string
  pbReqHeader :: "(string, HeaderValue) entries"
  pbHost :: string

record PbActualResponse =
  pbStatusCode :: "32 word"
  pbRespHeader :: "(string, HeaderValue) entries"

record PbMatch =
  pbEndpointId :: string
  pbTimestamp :: int
  pbActualRequest :: "PbActualRequest option"
  pbActualResponse :: "PbActualResponse option"

record PbMismatch =
  pbMismatchDetails :: string
  pbMismatchTimestamp :: int
  pbMismatchRequest :: "PbActualRequest option"

text \<open>A message holds strings of valid UTF-8 and is small enough to be sent; a call whose answer
  cannot be encoded is one whose reply is lost.\<close>

definition deref :: "'a option \<Rightarrow> 'a result" where
  "deref p = (case p of None \<Rightarrow> Panic nil_deref | Some x \<Rightarrow> Ok x)"

definition mapHeader :: "(string, string list) entries \<Rightarrow> (string, HeaderValue) entries" where
  "mapHeader h = map (\<lambda>(k, v). (k, \<lparr>hvVal = v\<rparr>)) h"

definition mapProtoHeader :: "(string, HeaderValue) entries \<Rightarrow> (string, string list) entries" where
  "mapProtoHeader h = map (\<lambda>(k, v). (k, hvVal v)) h"

definition mapRequest :: "ActualRequest \<Rightarrow> PbActualRequest" where
  "mapRequest r = \<lparr>pbMethod = arMethod r, pbUrl = arURL r, pbReqHeader = mapHeader (arHeader r),
     pbHost = arHost r\<rparr>"

definition mapProtoRequest :: "PbActualRequest \<Rightarrow> ActualRequest" where
  "mapProtoRequest r = \<lparr>arMethod = pbMethod r, arURL = pbUrl r,
     arHeader = mapProtoHeader (pbReqHeader r), arHost = pbHost r\<rparr>"

definition mapMatch :: "Match \<Rightarrow> PbMatch result" where
  "mapMatch m =
     bind_result (deref (mActualResponse m)) (\<lambda>resp.
       Ok \<lparr>pbEndpointId = mEndpointID m, pbTimestamp = mTimestamp m,
           pbActualRequest = Some (mapRequest (mActualRequest m)),
           pbActualResponse = Some \<lparr>pbStatusCode = word_of_int (asStatusCode resp),
             pbRespHeader = mapHeader (asHeader resp)\<rparr>\<rparr>)"

definition mapProtoMatch :: "PbMatch \<Rightarrow> Match result" where
  "mapProtoMatch p =
     bind_result (deref (pbActualRequest p)) (\<lambda>req.
     bind_result (deref (pbActualResponse p)) (\<lambda>resp.
       Ok \<lparr>mEndpointID = pbEndpointId p, mTimestamp = pbTimestamp p,
           mActualRequest = mapProtoRequest req,
           mActualResponse = Some \<lparr>asStatusCode = sint (pbStatusCode resp),
             asHeader = mapProtoHeader (pbRespHeader resp)\<rparr>\<rparr>))"

definition mapMismatch :: "Mismatch \<Rightarrow> PbMismatch" where
  "mapMismatch m = \<lparr>pbMismatchDetails = mmDetails m, pbMismatchTimestamp = mmTimestamp m,
     pbMismatchRequest = Some (mapRequest (mmActualRequest m))\<rparr>"

definition mapProtoMismatch :: "PbMismatch \<Rightarrow> Mismatch result" where
  "mapProtoMismatch p =
     bind_result (deref (pbMismatchRequest p)) (\<lambda>req.
       Ok \<lparr>mmDetails = pbMismatchDetails p, mmTimestamp = pbMismatchTimestamp p,
           mmActualRequest = mapProtoRequest req\<rparr>)"

primrec for_each :: "('a \<Rightarrow> 'b result) \<Rightarrow> 'a list \<Rightarrow> 'b list result" where
  "for_each f [] = Ok []"
| "for_each f (x # xs) =
     bind_result (f x) (\<lambda>y. bind_result (for_each f xs) (\<lambda>ys. Ok (y # ys)))"

section \<open>The service of one node\<close>

type_synonym node = "(Match, Mismatch) InMemoryMatchstore"

definition FetchMatches :: "node \<Rightarrow> string \<Rightarrow> PbMatch list result" where
  "FetchMatches n ep = bind_result (GetMatches inmemory_store ep n) (for_each mapMatch)"

definition FetchMatchesCount :: "node \<Rightarrow> string \<Rightarrow> 64 word result" where
  "FetchMatchesCount n ep = GetMatchesCount inmemory_store ep n"

definition FetchMismatches :: "node \<Rightarrow> PbMismatch list result" where
  "FetchMismatches n = bind_result (GetMismatches inmemory_store n) (\<lambda>l. Ok (map mapMismatch l))"

definition FetchMismatchesCount :: "node \<Rightarrow> 64 word result" where
  "FetchMismatchesCount n = GetMismatchesCount inmemory_store n"

definition RemoveMatches :: "node \<Rightarrow> string \<Rightarrow> node \<times> error option" where
  "RemoveMatches n ep = DeleteMatches inmemory_store ep n"

definition RemoveMismatches :: "node \<Rightarrow> node \<times> error option" where
  "RemoveMismatches n = DeleteMismatches inmemory_store n"

section \<open>Calls through the network\<close>

text \<open>
  A call is delivered and answered, fails before it reaches the node, or is executed while the
  answer is lost (for instance to the time limit of one second). A handler that panics takes
  its process down; the model reports the panic.
\<close>

datatype delivery = Delivered | NotSent error | ReplyLost error

type_synonym network = "nat \<Rightarrow> delivery"

definition rpc :: "delivery \<Rightarrow> 'a result \<Rightarrow> 'a result" where
  "rpc d answer =
     (case d of
        Delivered \<Rightarrow> answer
      | NotSent e \<Rightarrow> Err e
      | ReplyLost e \<Rightarrow> (case answer of Panic p \<Rightarrow> Panic p | _ \<Rightarrow> Err e))"

text \<open>The loop over the clients of a query; it stops at the first error.\<close>

primrec query_clients ::
  "network \<Rightarrow> (node \<Rightarrow> 'a result) \<Rightarrow> node list \<Rightarrow> nat \<Rightarrow> nat list \<Rightarrow> 'a list result" where
  "query_clients net f nodes i [] = Ok []"
| "query_clients net f nodes i (c # cs) =
     bind_result (rpc (net i) (f (nodes ! c))) (\<lambda>x.
     bind_result (query_clients net f nodes (Suc i) cs) (\<lambda>xs. Ok (x # xs)))"

text \<open>The loop over the clients of a call that changes the nodes; it stops at the first error and leaves what it
  has done.\<close>

primrec update_clients ::
  "network \<Rightarrow> ('n \<Rightarrow> 'n \<times> error option) \<Rightarrow> nat \<Rightarrow> nat list \<Rightarrow> 'n list
     \<Rightarrow> 'n list \<times> error option" where
  "update_clients net f i [] nodes = (nodes, None)"
| "update_clients net f i (c # cs) nodes =
     (case net i of
        NotSent e \<Rightarrow> (nodes, Some e)
      | ReplyLost e \<Rightarrow> (nodes[c := fst (f (nodes ! c))], Some e)
      | Delivered \<Rightarrow>
          (case f (nodes ! c) of
             (n, Some e) \<Rightarrow> (nodes[c := n], Some e)
           | (n, None) \<Rightarrow> update_clients net f (Suc i) cs (nodes[c := n])))"

section \<open>Merging the answers\<close>

text \<open>Round robin: the entries at position \<open>pos\<close> of all answers, until a position has
  none.\<close>

definition column :: "nat \<Rightarrow> 'm list list \<Rightarrow> 'm list" where
  "column pos xss = map (\<lambda>xs. xs ! pos) (filter (\<lambda>xs. pos < length xs) xss)"

lemma column_Nil_iff: "column pos xss = [] \<longleftrightarrow> (\<forall>xs\<in>set xss. length xs \<le> pos)"
  by (auto simp: column_def filter_empty_conv not_less)

function merge_loop :: "'m list list \<Rightarrow> nat \<Rightarrow> 'm list \<Rightarrow> 'm list" where
  "merge_loop xss pos res =
     (if column pos xss = [] then res else merge_loop xss (pos + 1) (res @ column pos xss))"
  by pat_completeness auto
termination
proof (relation "measure (\<lambda>(xss, pos, res). sum_list (map length xss) - pos)")
  fix xss :: "'m list list" and pos and res :: "'m list"
  assume "column pos xss \<noteq> []"
  then obtain xs where "xs \<in> set xss" "pos < length xs" by (auto simp: column_Nil_iff not_le)
  then have "pos < sum_list (map length xss)"
    using member_le_sum_list [of "length xs" "map length xss"] by auto
  then show "((xss, pos + 1, res @ column pos xss), (xss, pos, res))
      \<in> measure (\<lambda>(xss, pos, res). sum_list (map length xss) - pos)" by simp
qed simp

declare merge_loop.simps [simp del]

definition merge_answers :: "'m list list \<Rightarrow> 'm list" where
  "merge_answers xss = merge_loop xss 0 []"

section \<open>The store of the cluster, seen from one node\<close>

definition g_GetMatches :: "network \<Rightarrow> nat list \<Rightarrow> string \<Rightarrow> node list \<Rightarrow> Match list result" where
  "g_GetMatches net clients ep nodes =
     bind_result
       (query_clients net (\<lambda>n. bind_result (FetchMatches n ep) (for_each mapProtoMatch)) nodes 0 clients)
       (\<lambda>answers. Ok (merge_answers answers))"

definition g_GetMatchesCount :: "network \<Rightarrow> nat list \<Rightarrow> string \<Rightarrow> node list \<Rightarrow> 64 word result" where
  "g_GetMatchesCount net clients ep nodes =
     bind_result (query_clients net (\<lambda>n. FetchMatchesCount n ep) nodes 0 clients)
       (\<lambda>counts. Ok (fold (\<lambda>c total. total + c) counts 0))"

definition g_GetMismatches :: "network \<Rightarrow> nat list \<Rightarrow> node list \<Rightarrow> Mismatch list result" where
  "g_GetMismatches net clients nodes =
     bind_result
       (query_clients net (\<lambda>n. bind_result (FetchMismatches n) (for_each mapProtoMismatch)) nodes 0 clients)
       (\<lambda>answers. Ok (concat answers))"

definition g_GetMismatchesCount :: "network \<Rightarrow> nat list \<Rightarrow> node list \<Rightarrow> 64 word result" where
  "g_GetMismatchesCount net clients nodes =
     bind_result (query_clients net FetchMismatchesCount nodes 0 clients)
       (\<lambda>counts. Ok (fold (\<lambda>c total. total + c) counts 0))"

definition g_DeleteMatches :: "network \<Rightarrow> nat list \<Rightarrow> string \<Rightarrow> node list \<Rightarrow> node list \<times> error option" where
  "g_DeleteMatches net clients ep nodes = update_clients net (\<lambda>n. RemoveMatches n ep) 0 clients nodes"

definition g_DeleteMismatches :: "network \<Rightarrow> nat list \<Rightarrow> node list \<Rightarrow> node list \<times> error option" where
  "g_DeleteMismatches net clients nodes = update_clients net RemoveMismatches 0 clients nodes"

text \<open>The interface value of node \<open>i\<close>: additions go to the embedded local store.\<close>

definition grpc_store ::
  "network \<Rightarrow> nat list \<Rightarrow> nat \<Rightarrow> (node list, Match, Mismatch) Matchstore" where
  "grpc_store net clients i =
     \<lparr>GetMatches = g_GetMatches net clients,
      GetMatchesCount = g_GetMatchesCount net clients,
      GetMismatches = g_GetMismatches net clients,
      AddMatch = (\<lambda>ep m nodes. (nodes[i := fst (AddMatch inmemory_store ep m (nodes ! i))], None)),
      AddMismatch = (\<lambda>mm nodes. (nodes[i := fst (AddMismatch inmemory_store mm (nodes ! i))], None)),
      GetMismatchesCount = g_GetMismatchesCount net clients,
      DeleteMatches = g_DeleteMatches net clients,
      DeleteMismatches = g_DeleteMismatches net clients,
      Shutdown = (\<lambda>nodes. (nodes, None))\<rparr>"

lemma grpc_store_sel [simp]:
  "GetMatches (grpc_store net clients i) = g_GetMatches net clients"
  "GetMatchesCount (grpc_store net clients i) = g_GetMatchesCount net clients"
  "GetMismatches (grpc_store net clients i) = g_GetMismatches net clients"
  "AddMatch (grpc_store net clients i) ep m nodes = (nodes[i := im_AddMatch ep m (nodes ! i)], None)"
  "AddMismatch (grpc_store net clients i) mm nodes = (nodes[i := im_AddMismatch mm (nodes ! i)], None)"
  "GetMismatchesCount (grpc_store net clients i) = g_GetMismatchesCount net clients"
  "DeleteMatches (grpc_store net clients i) = g_DeleteMatches net clients"
  "DeleteMismatches (grpc_store net clients i) = g_DeleteMismatches net clients"
  by (simp_all add: grpc_store_def)

end
