(* ===== verification/GrpcMatchstoreProps.thy ===== *)
theory GrpcMatchstoreProps
  imports GrpcMatchstore
begin

text \<open>
  What the distributed match store promises: messages survive the mapping, a query sees the
  matches of every node in round-robin order, counters add up, a deletion reaches every node,
  and what happens when a client fails or a match has no response yet.
\<close>

section \<open>Queries when every call is delivered\<close>

abbreviation all_delivered :: network where
  "all_delivered \<equiv> \<lambda>_. Delivered"

lemma for_each_Ok [simp]: "for_each (\<lambda>x. Ok (g x)) xs = Ok (map g xs)"
  by (induction xs) auto

lemma for_each_cong_Ok: "(\<And>x. x \<in> set xs \<Longrightarrow> f x = Ok (g x)) \<Longrightarrow> for_each f xs = Ok (map g xs)"
  by (induction xs) auto

lemma for_each_panic:
  "x \<in> set xs \<Longrightarrow> is_panic (f x) \<Longrightarrow> (\<And>y. y \<in> set xs \<Longrightarrow> \<forall>e. f y \<noteq> Err e) \<Longrightarrow> is_panic (for_each f xs)"
proof (induction xs)
  case (Cons y ys)
  show ?case
  proof (cases "f y")
    case (Ok v)
    with Cons.prems(2) have "is_panic (for_each f ys)"
      using Cons.prems by (intro Cons.IH) auto
    then show ?thesis using Ok by (simp add: is_panic_bind)
  next
    case (Err e)
    with Cons.prems(3) [of y] show ?thesis by simp
  qed simp
qed simp

lemma for_each_no_Err: "(\<And>y e. y \<in> set xs \<Longrightarrow> f y \<noteq> Err e) \<Longrightarrow> for_each f xs \<noteq> Err e"
proof (induction xs)
  case (Cons y ys)
  have "for_each f ys \<noteq> Err e" by (rule Cons.IH) (use Cons.prems in auto)
  with Cons.prems [of y] show ?case
    by (cases "f y"; cases "for_each f ys") auto
qed simp

lemma query_all_delivered:
  "query_clients all_delivered f nodes k cs = for_each (\<lambda>c. f (nodes ! c)) cs"
  by (induction cs arbitrary: k) (simp_all add: rpc_def)

lemma for_each_map: "for_each (\<lambda>c. f (g c)) cs = for_each f (map g cs)"
  by (induction cs) auto

lemma query_cluster:
  "length nodes = n \<Longrightarrow> query_clients all_delivered f nodes k [0..<n] = for_each f nodes"
  by (simp only: query_all_delivered for_each_map) (metis map_nth)

lemma fold_add_sum: "fold (\<lambda>c total. total + c) cs (t :: 64 word) = t + sum_list cs"
  by (induction cs arbitrary: t) (simp_all add: algebra_simps)

lemma cluster_count:
  "length nodes = n \<Longrightarrow>
   g_GetMatchesCount all_delivered [0..<n] ep nodes = Ok (\<Sum>nd\<leftarrow>nodes. im_GetMatchesCount ep nd)"
  by (simp add: g_GetMatchesCount_def query_cluster FetchMatchesCount_def fold_add_sum)

lemma cluster_mismatch_count:
  "length nodes = n \<Longrightarrow>
   g_GetMismatchesCount all_delivered [0..<n] nodes = Ok (\<Sum>nd\<leftarrow>nodes. im_GetMismatchesCount nd)"
  by (simp add: g_GetMismatchesCount_def query_cluster FetchMismatchesCount_def [abs_def] fold_add_sum)

lemma mapProtoHeader_mapHeader [simp]: "mapProtoHeader (mapHeader h) = h"
  by (simp add: mapHeader_def mapProtoHeader_def comp_def case_prod_beta)

lemma mapProtoRequest_mapRequest [simp]: "mapProtoRequest (mapRequest r) = r"
  by (simp add: mapRequest_def mapProtoRequest_def)

lemma mapProtoMismatch_mapMismatch [simp]: "mapProtoMismatch (mapMismatch mm) = Ok mm"
  by (simp add: mapMismatch_def mapProtoMismatch_def deref_def)

lemma cluster_mismatches:
  "length nodes = n \<Longrightarrow>
   g_GetMismatches all_delivered [0..<n] nodes = Ok (concat (map im_GetMismatches nodes))"
  by (simp add: g_GetMismatches_def query_cluster FetchMismatches_def [abs_def] for_each_map [symmetric])

section \<open>Deletions\<close>

lemma fold_update_prefix:
  "b \<le> length nodes \<Longrightarrow>
   fold (\<lambda>c ns. ns[c := g (ns ! c)]) [0..<b] nodes = map g (take b nodes) @ drop b nodes"
proof (induction b)
  case (Suc b)
  then have b: "b < length nodes" by simp
  have "take (Suc b) nodes = take b nodes @ [nodes ! b]"
    using b by (rule take_Suc_conv_app_nth)
  moreover have "drop b nodes = nodes ! b # drop (Suc b) nodes"
    using b by (simp add: Cons_nth_drop_Suc)
  ultimately show ?case
    using Suc b by (simp add: nth_append list_update_append)
qed simp

lemma update_clients_prefix:
  assumes "\<And>c. c < b \<Longrightarrow> net c = Delivered" and "b \<le> n"
  shows "update_clients net (\<lambda>nd. (g nd, None)) 0 [0..<n] nodes =
    update_clients net (\<lambda>nd. (g nd, None)) b [b..<n] (fold (\<lambda>c ns. ns[c := g (ns ! c)]) [0..<b] nodes)"
  using assms
proof (induction b)
  case (Suc b)
  then have "[b..<n] = b # [Suc b..<n]" by (simp add: upt_conv_Cons)
  with Suc show ?case by simp
qed simp

lemma delete_all_delivered:
  "length nodes = n \<Longrightarrow>
   update_clients all_delivered (\<lambda>nd. (g nd, None)) 0 [0..<n] nodes = (map g nodes, None)"
  using update_clients_prefix [of n all_delivered n g nodes] by (simp add: fold_update_prefix)

lemma cluster_delete:
  assumes "length nodes = n"
  shows "g_DeleteMatches all_delivered [0..<n] ep nodes = (map (im_DeleteMatches ep) nodes, None)"
    and "g_DeleteMismatches all_delivered [0..<n] nodes = (map im_DeleteMismatches nodes, None)"
  using assms
  by (simp_all add: g_DeleteMatches_def g_DeleteMismatches_def RemoveMatches_def
      RemoveMismatches_def [abs_def] delete_all_delivered)

section \<open>The cluster keeps the contract of a store\<close>

lemma sum_list_update_node:
  "i < length nodes \<Longrightarrow> (\<Sum>nd\<leftarrow>nodes[i := x]. f nd) = (\<Sum>nd\<leftarrow>nodes. f nd) - f (nodes ! i) + (f x :: 64 word)"
  by (induction nodes arbitrary: i) (auto split: nat.split simp: algebra_simps)

lemma cluster_count_step:
  assumes len: "length nodes = n" "i < n"
    and h: "(\<Sum>nd\<leftarrow>nodes. im_GetMatchesCount ep nd) = of_nat (length h)"
  shows "GetMatchesCount (grpc_store all_delivered [0..<n] i) ep
      (apply_op (grpc_store all_delivered [0..<n] i) op nodes) =
    Ok (of_nat (length (match_history ep h op)))"
proof (cases op)
  case (AddMatchOp ep' m)
  have "im_GetMatchesCount ep (im_AddMatch ep' m nd) =
      (if ep' = ep then im_GetMatchesCount ep nd + 1 else im_GetMatchesCount ep nd)" for nd :: node
    by (auto simp: im_defs Let_def)
  with AddMatchOp show ?thesis
    using len h by (simp add: cluster_count sum_list_update_node)
next
  case (AddMismatchOp mm)
  have "im_GetMatchesCount ep (im_AddMismatch mm nd) = im_GetMatchesCount ep nd" for nd :: node
    by (simp add: im_defs)
  with AddMismatchOp show ?thesis
    using len h by (simp add: cluster_count sum_list_update_node)
next
  case (DeleteMatchesOp ep')
  have "im_GetMatchesCount ep (im_DeleteMatches ep' nd) =
      (if ep' = ep then 0 else im_GetMatchesCount ep nd)" for nd :: node
    by (auto simp: im_defs)
  with DeleteMatchesOp show ?thesis
    using len h by (simp add: cluster_count cluster_delete comp_def)
next
  case DeleteMismatchesOp
  have "im_GetMatchesCount ep (im_DeleteMismatches nd) = im_GetMatchesCount ep nd" for nd :: node
    by (simp add: im_defs)
  with DeleteMismatchesOp show ?thesis
    using len h by (simp add: cluster_count cluster_delete comp_def)
qed

lemma cluster_mismatch_count_step:
  assumes len: "length nodes = n" "i < n"
    and h: "(\<Sum>nd\<leftarrow>nodes. im_GetMismatchesCount nd) = of_nat (length h)"
  shows "GetMismatchesCount (grpc_store all_delivered [0..<n] i)
      (apply_op (grpc_store all_delivered [0..<n] i) op nodes) =
    Ok (of_nat (length (mismatch_history h op)))"
  using len h
  by (cases op)
    (simp_all add: cluster_mismatch_count cluster_delete sum_list_update_node comp_def im_defs Let_def)

lemma cluster_mismatches_step:
  assumes len: "length nodes = n" "i < n"
    and h: "set (concat (map im_GetMismatches nodes)) \<subseteq> set h"
  shows "\<exists>k. GetMismatches (grpc_store all_delivered [0..<n] i)
      (apply_op (grpc_store all_delivered [0..<n] i) op nodes) = Ok k
    \<and> set k \<subseteq> set (mismatch_history h op)"
proof -
  have upd: "set (concat (map im_GetMismatches (nodes[i := x]))) \<subseteq>
      set (concat (map im_GetMismatches nodes)) \<union> set (im_GetMismatches x)" for x :: node
    using set_update_subset_insert [of nodes i x] by auto
  show ?thesis
  proof (cases op)
    case (AddMatchOp ep m)
    have "im_GetMismatches (im_AddMatch ep m (nodes ! i)) = im_GetMismatches (nodes ! i)"
      by (simp add: im_defs Let_def)
    then show ?thesis
      using AddMatchOp len h upd [of "im_AddMatch ep m (nodes ! i)"] nth_mem [of i nodes]
      by (force simp: cluster_mismatches)
  next
    case (AddMismatchOp mm)
    have "set (im_GetMismatches (im_AddMismatch mm (nodes ! i))) \<subseteq>
        insert mm (set (im_GetMismatches (nodes ! i)))"
      using set_push_bounded [of "imsSize (nodes ! i)" "imsMismatches (nodes ! i)" mm]
      by (simp add: im_defs)
    then show ?thesis
      using AddMismatchOp len h upd [of "im_AddMismatch mm (nodes ! i)"] nth_mem [of i nodes]
      by (force simp: cluster_mismatches)
  next
    case (DeleteMatchesOp ep)
    then show ?thesis
      using len h by (simp add: cluster_mismatches cluster_delete comp_def im_defs)
  next
    case DeleteMismatchesOp
    then show ?thesis
      using len by (simp add: cluster_mismatches cluster_delete comp_def im_defs)
  qed
qed

interpretation cluster: counting_store "grpc_store all_delivered [0..<n] i"
  "\<lambda>nodes. length nodes = n \<and> i < n" for n i
proof unfold_locales
  fix nodes :: "node list" and op :: "(Match, Mismatch) store_op"
  assume "length nodes = n \<and> i < n"
  then show "length (apply_op (grpc_store all_delivered [0..<n] i) op nodes) = n \<and> i < n"
    by (cases op) (simp_all add: cluster_delete)
next
  fix nodes :: "node list" and op :: "(Match, Mismatch) store_op" and ep and h :: "Match list"
  assume "length nodes = n \<and> i < n"
    and "GetMatchesCount (grpc_store all_delivered [0..<n] i) ep nodes = Ok (of_nat (length h))"
  then show "GetMatchesCount (grpc_store all_delivered [0..<n] i) ep
      (apply_op (grpc_store all_delivered [0..<n] i) op nodes) =
    Ok (of_nat (length (match_history ep h op)))"
    using cluster_count_step by (simp add: cluster_count)
next
  fix nodes :: "node list" and op :: "(Match, Mismatch) store_op" and h :: "Mismatch list"
  assume "length nodes = n \<and> i < n"
    and "GetMismatchesCount (grpc_store all_delivered [0..<n] i) nodes = Ok (of_nat (length h))"
  then show "GetMismatchesCount (grpc_store all_delivered [0..<n] i)
      (apply_op (grpc_store all_delivered [0..<n] i) op nodes) =
    Ok (of_nat (length (mismatch_history h op)))"
    using cluster_mismatch_count_step by (simp add: cluster_mismatch_count)
next
  fix nodes :: "node list" and op :: "(Match, Mismatch) store_op" and k h :: "Mismatch list"
  assume "length nodes = n \<and> i < n"
    and "GetMismatches (grpc_store all_delivered [0..<n] i) nodes = Ok k" and "set k \<subseteq> set h"
  then show "\<exists>k'. GetMismatches (grpc_store all_delivered [0..<n] i)
      (apply_op (grpc_store all_delivered [0..<n] i) op nodes) = Ok k'
    \<and> set k' \<subseteq> set (mismatch_history h op)"
    by (intro cluster_mismatches_step) (auto simp: cluster_mismatches)
qed

section \<open>Merging\<close>

lemma merge_loop_columns:
  "\<forall>xs\<in>set xss. length xs \<le> m \<Longrightarrow> pos \<le> m \<Longrightarrow>
   merge_loop xss pos res = res @ concat (map (\<lambda>p. column p xss) [pos..<m])"
proof (induction xss pos res rule: merge_loop.induct)
  case (1 xss pos res)
  show ?case
  proof (cases "column pos xss = []")
    case True
    then have "column p xss = []" if "pos \<le> p" for p
      using that by (fastforce simp: column_Nil_iff)
    with True show ?thesis by (subst merge_loop.simps) (auto simp: concat_eq_Nil_conv)
  next
    case False
    then have "pos < m" using "1.prems" by (force simp: column_Nil_iff)
    with False 1 show ?thesis
      by (subst merge_loop.simps) (simp add: upt_conv_Cons)
  qed
qed

lemma merge_answers_columns:
  assumes "\<forall>xs\<in>set xss. length xs \<le> m"
  shows "merge_answers xss = concat (map (\<lambda>p. column p xss) [0..<m])"
  using assms by (simp add: merge_answers_def merge_loop_columns [where m = m])

lemma column_Cons:
  "column p (xs # xss) = (if p < length xs then [xs ! p] else []) @ column p xss"
  by (simp add: column_def)

lemma mset_concat_append:
  "mset (concat (map (\<lambda>p. f p @ g p) ps)) = mset (concat (map f ps)) + mset (concat (map g ps))"
  by (induction ps) simp_all

lemma concat_nth_upt:
  "length xs \<le> m \<Longrightarrow> concat (map (\<lambda>p. if p < length xs then [xs ! p] else []) [0..<m]) = xs"
proof -
  assume "length xs \<le> m"
  then have "[0..<m] = [0..<length xs] @ [length xs..<m]" by (metis le_add_diff_inverse upt_add_eq_append zero_le)
  moreover have "concat (map (\<lambda>p. if p < length xs then [xs ! p] else []) [0..<length xs]) =
      concat (map (\<lambda>p. [xs ! p]) [0..<length xs])"
    by (intro arg_cong [where f = concat] map_cong) auto
  moreover have "concat (map (\<lambda>p. if p < length xs then [xs ! p] else []) [length xs..<m]) = []"
    by simp
  ultimately show ?thesis by (simp add: concat_map_singleton map_nth)
qed

lemma mset_columns:
  "\<forall>xs\<in>set xss. length xs \<le> m \<Longrightarrow>
   mset (concat (map (\<lambda>p. column p xss) [0..<m])) = (\<Sum>xs\<leftarrow>xss. mset xs)"
proof (induction xss)
  case Nil
  then show ?case by (simp add: column_def)
next
  case (Cons xs xss)
  then show ?case by (simp add: column_Cons mset_concat_append concat_nth_upt)
qed

lemma subseq_concat_map:
  "(\<And>p. subseq (f p) (g p)) \<Longrightarrow> subseq (concat (map f ps)) (concat (map g ps))"
  by (induction ps) (auto intro: list_emb_append_mono)

lemma subseq_columns:
  assumes "xs \<in> set xss" and "length xs \<le> m"
  shows "subseq xs (concat (map (\<lambda>p. column p xss) [0..<m]))"
proof -
  have "subseq (if p < length xs then [xs ! p] else []) (column p xss)" for p
    using assms(1) by (auto simp: column_def subseq_singleton_left)
  then have "subseq (concat (map (\<lambda>p. if p < length xs then [xs ! p] else []) [0..<m]))
      (concat (map (\<lambda>p. column p xss) [0..<m]))"
    by (rule subseq_concat_map)
  then show ?thesis by (simp add: concat_nth_upt assms(2))
qed

lemma merge_answers_mset: "mset (merge_answers xss) = (\<Sum>xs\<leftarrow>xss. mset xs)"
proof -
  have "\<forall>xs\<in>set xss. length xs \<le> sum_list (map length xss)"
    by (simp add: member_le_sum_list)
  then show ?thesis by (simp add: merge_answers_columns mset_columns)
qed

lemma merge_answers_subseq: "xs \<in> set xss \<Longrightarrow> subseq xs (merge_answers xss)"
proof -
  assume xs: "xs \<in> set xss"
  have "\<forall>xs\<in>set xss. length xs \<le> sum_list (map length xss)"
    by (simp add: member_le_sum_list)
  with xs show ?thesis by (simp add: merge_answers_columns subseq_columns)
qed

section \<open>Matches across the wire\<close>

text \<open>A match that can be sent: it has a response, whose status fits \<open>int32\<close>.\<close>

definition sendable :: "Match \<Rightarrow> bool" where
  "sendable m = (case mActualResponse m of
      None \<Rightarrow> False
    | Some r \<Rightarrow> - (2 ^ 31) \<le> asStatusCode r \<and> asStatusCode r < 2 ^ 31)"

lemma sint_word_of_int_32: "- (2 ^ 31) \<le> c \<Longrightarrow> c < 2 ^ 31 \<Longrightarrow> sint (word_of_int c :: 32 word) = c"
  by (simp add: sint_sbintrunc' signed_take_bit_int_eq_self)

lemma mapMatch_Ok:
  "mActualResponse m = Some r \<Longrightarrow>
   mapMatch m = Ok \<lparr>pbEndpointId = mEndpointID m, pbTimestamp = mTimestamp m,
     pbActualRequest = Some (mapRequest (mActualRequest m)),
     pbActualResponse = Some \<lparr>pbStatusCode = word_of_int (asStatusCode r),
       pbRespHeader = mapHeader (asHeader r)\<rparr>\<rparr>"
  by (simp add: mapMatch_def deref_def)

lemma mapMatch_nil: "mActualResponse m = None \<Longrightarrow> mapMatch m = Panic nil_deref"
  by (simp add: mapMatch_def deref_def)

lemma send_and_receive: "sendable m \<Longrightarrow> bind_result (mapMatch m) mapProtoMatch = Ok m"
  by (cases "mActualResponse m")
    (simp_all add: sendable_def mapMatch_Ok mapProtoMatch_def deref_def sint_word_of_int_32)

lemma for_each_two:
  "(\<And>x. x \<in> set xs \<Longrightarrow> bind_result (f x) g = Ok x) \<Longrightarrow> bind_result (for_each f xs) (for_each g) = Ok xs"
proof (induction xs)
  case (Cons x xs)
  obtain y where "f x = Ok y" "g y = Ok x" using Cons.prems [of x] by (auto simp: bind_result_Ok_iff)
  moreover obtain ys where "for_each f xs = Ok ys" "for_each g ys = Ok xs"
    using Cons by (auto simp: bind_result_Ok_iff)
  ultimately show ?case by simp
qed simp

lemma fetch_and_receive:
  "\<forall>m\<in>set (im_GetMatches ep nd). sendable m \<Longrightarrow>
   bind_result (FetchMatches nd ep) (for_each mapProtoMatch) = Ok (im_GetMatches ep nd)"
  by (simp add: FetchMatches_def for_each_two send_and_receive)

lemma cluster_matches:
  assumes "length nodes = n" and "\<forall>nd\<in>set nodes. \<forall>m\<in>set (im_GetMatches ep nd). sendable m"
  shows "g_GetMatches all_delivered [0..<n] ep nodes = Ok (merge_answers (map (im_GetMatches ep) nodes))"
proof -
  have "for_each (\<lambda>nd. bind_result (FetchMatches nd ep) (for_each mapProtoMatch)) nodes =
      Ok (map (im_GetMatches ep) nodes)"
    by (rule for_each_cong_Ok) (simp add: fetch_and_receive assms(2))
  then show ?thesis using assms(1) by (simp add: g_GetMatches_def query_cluster)
qed

lemma mapMatch_no_Err: "mapMatch m \<noteq> Err e"
  by (cases "mActualResponse m") (simp_all add: mapMatch_Ok mapMatch_nil)

lemma FetchMatches_no_Err: "FetchMatches nd ep \<noteq> Err e"
  by (simp add: FetchMatches_def for_each_no_Err mapMatch_no_Err)

lemma mapProtoMatch_no_Err: "mapProtoMatch p \<noteq> Err e"
  by (cases "pbActualRequest p"; cases "pbActualResponse p") (simp_all add: mapProtoMatch_def deref_def)

lemma FetchMatches_panics:
  "m \<in> set (im_GetMatches ep nd) \<Longrightarrow> mActualResponse m = None \<Longrightarrow> is_panic (FetchMatches nd ep)"
  unfolding FetchMatches_def inmemory_store_sel bind_result.simps
  by (rule for_each_panic) (auto simp: mapMatch_nil mapMatch_no_Err)

lemma pushed_retained: "sz \<noteq> 0 \<Longrightarrow> x \<in> set (push_bounded sz l x)"
  by (cases l) (auto simp: push_bounded_def Let_def word_gt_0)

section \<open>Properties\<close>

text \<open>A match that has a response with an \<open>int32\<close> status, and every mismatch, is the
  same after being mapped to its message and back.\<close>

theorem grpc_messages_roundtrip:
  assumes "mActualResponse m = Some r" and "- (2 ^ 31) \<le> asStatusCode r" and "asStatusCode r < 2 ^ 31"
  shows "bind_result (mapMatch m) mapProtoMatch = Ok m \<and> mapProtoMismatch (mapMismatch mm) = Ok mm"
  using assms by (simp add: send_and_receive sendable_def)

definition sample_match :: "string \<Rightarrow> int \<Rightarrow> ActualResponse option \<Rightarrow> Match" where
  "sample_match ep t resp = \<lparr>mEndpointID = ep, mTimestamp = t,
     mActualRequest = \<lparr>arMethod = ''GET'', arURL = ''/hello'', arHeader = [(''Accept'', [''*/*''])],
       arHost = ''localhost''\<rparr>,
     mActualResponse = resp\<rparr>"

definition sample_mismatch :: Mismatch where
  "sample_mismatch = \<lparr>mmDetails = ''no match'', mmTimestamp = 5,
     mmActualRequest = mActualRequest (sample_match [] 0 None)\<rparr>"

definition ok_200 :: "ActualResponse option" where
  "ok_200 = Some \<lparr>asStatusCode = 200, asHeader = []\<rparr>"

theorem grpc_messages_roundtrip_witness:
  "bind_result (mapMatch (sample_match ''1'' 7 ok_200)) mapProtoMatch = Ok (sample_match ''1'' 7 ok_200)
   \<and> mapProtoMismatch (mapMismatch sample_mismatch) = Ok sample_mismatch"
  by (rule grpc_messages_roundtrip [where r = "\<lparr>asStatusCode = 200, asHeader = []\<rparr>"])
    (simp_all add: sample_match_def ok_200_def)

text \<open>C32: When every call is delivered and every stored match has a response, a query for an
  endpoint returns exactly the matches all nodes hold for it: nothing lost, nothing twice, those
  of one node in their order, and the nodes taken in turn (all first matches, then all second
  ones, and so on).\<close>

theorem grpc_get_matches_merges_all_nodes:
  assumes "length nodes = n" and "\<forall>nd\<in>set nodes. \<forall>m\<in>set (im_GetMatches ep nd). sendable m"
  shows "\<exists>l. GetMatches (grpc_store all_delivered [0..<n] i) ep nodes = Ok l
    \<and> mset l = (\<Sum>nd\<leftarrow>nodes. mset (im_GetMatches ep nd))
    \<and> (\<forall>nd\<in>set nodes. subseq (im_GetMatches ep nd) l)
    \<and> (\<forall>k. (\<forall>nd\<in>set nodes. length (im_GetMatches ep nd) \<le> k) \<longrightarrow>
        l = concat (map (\<lambda>p. map (\<lambda>nd. im_GetMatches ep nd ! p)
              (filter (\<lambda>nd. p < length (im_GetMatches ep nd)) nodes)) [0..<k]))"
  using assms
  by (simp add: cluster_matches merge_answers_mset merge_answers_subseq comp_def
      merge_answers_columns column_def filter_map)

definition sample_node :: "(string \<times> Match) list \<Rightarrow> node" where
  "sample_node l = fold (\<lambda>(ep, m) s. im_AddMatch ep m s) l (NewInMemoryMatchstore 10)"

definition sample_nodes :: "node list" where
  "sample_nodes =
     [sample_node [(''1'', sample_match ''1'' 1 ok_200), (''1'', sample_match ''1'' 2 ok_200)],
      sample_node [(''1'', sample_match ''1'' 3 ok_200), (''2'', sample_match ''2'' 4 ok_200)]]"

lemma sample_nodes_matches:
  "im_GetMatches ''1'' (sample_nodes ! 0) = [sample_match ''1'' 1 ok_200, sample_match ''1'' 2 ok_200]"
  "im_GetMatches ''1'' (sample_nodes ! Suc 0) = [sample_match ''1'' 3 ok_200]"
  by (simp_all add: sample_nodes_def sample_node_def im_defs Let_def NewInMemoryMatchstore_def
      push_bounded_def)

theorem grpc_get_matches_merges_all_nodes_witness:
  "\<exists>l. GetMatches (grpc_store all_delivered [0..<2] 0) ''1'' sample_nodes = Ok l
    \<and> mset l = (\<Sum>nd\<leftarrow>sample_nodes. mset (im_GetMatches ''1'' nd))
    \<and> (\<forall>nd\<in>set sample_nodes. subseq (im_GetMatches ''1'' nd) l)
    \<and> (\<forall>k. (\<forall>nd\<in>set sample_nodes. length (im_GetMatches ''1'' nd) \<le> k) \<longrightarrow>
        l = concat (map (\<lambda>p. map (\<lambda>nd. im_GetMatches ''1'' nd ! p)
              (filter (\<lambda>nd. p < length (im_GetMatches ''1'' nd)) sample_nodes)) [0..<k]))"
proof (rule grpc_get_matches_merges_all_nodes)
  show "length sample_nodes = 2" by (simp add: sample_nodes_def)
  have "sendable (sample_match ep t ok_200)" for ep t
    by (simp add: sendable_def sample_match_def ok_200_def)
  then show "\<forall>nd\<in>set sample_nodes. \<forall>m\<in>set (im_GetMatches ''1'' nd). sendable m"
    using sample_nodes_matches by (simp add: sample_nodes_def)
qed

text \<open>Operations of several nodes, each performed by the node named with it.\<close>

definition cluster_run :: "nat \<Rightarrow> (nat \<times> (Match, Mismatch) store_op) list \<Rightarrow> node list \<Rightarrow> node list" where
  "cluster_run n ops nodes =
     fold (\<lambda>(i, op) nds. apply_op (grpc_store all_delivered [0..<n] i) op nds) ops nodes"

lemma cluster_run_counts:
  assumes "length nodes = n" and "\<forall>(i, op)\<in>set ops. i < n"
    and "g_GetMatchesCount all_delivered [0..<n] ep nodes = Ok (of_nat (length h))"
    and "g_GetMismatchesCount all_delivered [0..<n] nodes = Ok (of_nat (length h'))"
  shows "g_GetMatchesCount all_delivered [0..<n] ep (cluster_run n ops nodes) =
      Ok (of_nat (length (fold (\<lambda>(i, op) h. match_history ep h op) ops h)))
    \<and> g_GetMismatchesCount all_delivered [0..<n] (cluster_run n ops nodes) =
      Ok (of_nat (length (fold (\<lambda>(i, op) h. mismatch_history h op) ops h')))"
  using assms
proof (induction ops arbitrary: nodes h h')
  case (Cons x ops)
  obtain i op where x: "x = (i, op)" by (cases x)
  let ?nodes = "apply_op (grpc_store all_delivered [0..<n] i) op nodes"
  have inv: "length nodes = n \<and> i < n" using Cons.prems x by simp
  have "length ?nodes = n" using cluster.invar_step [OF inv] by simp
  moreover have "g_GetMatchesCount all_delivered [0..<n] ep ?nodes = Ok (of_nat (length (match_history ep h op)))"
    using cluster.count_step [OF inv] Cons.prems(3) by simp
  moreover have "g_GetMismatchesCount all_delivered [0..<n] ?nodes = Ok (of_nat (length (mismatch_history h' op)))"
    using cluster.mismatch_count_step [OF inv] Cons.prems(4) by simp
  ultimately show ?case
    using Cons.IH [of ?nodes] Cons.prems(2) by (simp add: x cluster_run_def)
qed (simp add: cluster_run_def)



text \<open>Deleting the matches of an endpoint from any node, with every call delivered, succeeds
  and leaves no match and a zero counter for it on any node, and changes neither the matches and
  counters of other endpoints nor the mismatches of any node.\<close>

theorem grpc_delete_reaches_all_nodes:
  assumes "length nodes = n"
  shows "\<exists>nodes'. DeleteMatches (grpc_store all_delivered [0..<n] i) ep nodes = (nodes', None)
    \<and> length nodes' = n
    \<and> (\<forall>k<n. im_GetMatches ep (nodes' ! k) = [] \<and> im_GetMatchesCount ep (nodes' ! k) = 0
        \<and> im_GetMismatches (nodes' ! k) = im_GetMismatches (nodes ! k)
        \<and> im_GetMismatchesCount (nodes' ! k) = im_GetMismatchesCount (nodes ! k)
        \<and> (\<forall>ep'. ep' \<noteq> ep \<longrightarrow> im_GetMatches ep' (nodes' ! k) = im_GetMatches ep' (nodes ! k)
            \<and> im_GetMatchesCount ep' (nodes' ! k) = im_GetMatchesCount ep' (nodes ! k)))"
  using assms by (auto simp: cluster_delete im_defs split: option.splits)

theorem grpc_delete_reaches_all_nodes_witness:
  "\<exists>nodes'. DeleteMatches (grpc_store all_delivered [0..<2] 1) ''1'' sample_nodes = (nodes', None)
    \<and> im_GetMatches ''1'' (nodes' ! 0) = [] \<and> im_GetMatches ''1'' (nodes' ! 1) = []"
proof -
  have "length sample_nodes = 2" by (simp add: sample_nodes_def)
  from grpc_delete_reaches_all_nodes [OF this, of 1 "''1''"]
  obtain nodes' where d: "DeleteMatches (grpc_store all_delivered [0..<2] 1) ''1'' sample_nodes = (nodes', None)"
    and z: "\<forall>k<2. im_GetMatches ''1'' (nodes' ! k) = []" by blast
  have "im_GetMatches ''1'' (nodes' ! 0) = []" by (rule z [rule_format]) simp
  moreover have "im_GetMatches ''1'' (nodes' ! 1) = []" by (rule z [rule_format]) simp
  ultimately show ?thesis using d by blast
qed

lemma delete_failing_client:
  assumes "length nodes = n" and "j < n" and "\<And>c. c < j \<Longrightarrow> net c = Delivered"
  shows "net j = NotSent e \<Longrightarrow> update_clients net (\<lambda>nd. (g nd, None)) 0 [0..<n] nodes =
      (map g (take j nodes) @ drop j nodes, Some e)"
    and "net j = ReplyLost e \<Longrightarrow> update_clients net (\<lambda>nd. (g nd, None)) 0 [0..<n] nodes =
      (map g (take (Suc j) nodes) @ drop (Suc j) nodes, Some e)"
proof -
  have split: "[j..<n] = j # [Suc j..<n]" using assms(2) by (simp add: upt_conv_Cons)
  have pre: "fold (\<lambda>c ns. ns[c := g (ns ! c)]) [0..<j] nodes = map g (take j nodes) @ drop j nodes"
    using assms by (simp add: fold_update_prefix)
  have upd: "(map g (take j nodes) @ drop j nodes)[j := g ((map g (take j nodes) @ drop j nodes) ! j)] =
      map g (take (Suc j) nodes) @ drop (Suc j) nodes"
    using assms fold_update_prefix [of "Suc j" nodes g] by (simp add: pre)
  show "net j = NotSent e \<Longrightarrow> update_clients net (\<lambda>nd. (g nd, None)) 0 [0..<n] nodes =
      (map g (take j nodes) @ drop j nodes, Some e)"
    using assms by (simp add: update_clients_prefix [of j] split pre)
  show "net j = ReplyLost e \<Longrightarrow> update_clients net (\<lambda>nd. (g nd, None)) 0 [0..<n] nodes =
      (map g (take (Suc j) nodes) @ drop (Suc j) nodes, Some e)"
    using assms upd by (simp add: update_clients_prefix [of j] split pre)
qed

text \<open>A deletion stops at the first client that fails and reports its error: the nodes before
  it have been cleared, the nodes after it keep everything, and the failing node itself is cleared
  exactly when only its answer was lost. A deletion is not atomic.\<close>

theorem grpc_delete_stops_at_failure:
  assumes "length nodes = n" and "j < n" and "\<forall>c<j. net c = Delivered"
    and "net j = (if lost then ReplyLost e else NotSent e)"
  shows "DeleteMatches (grpc_store net [0..<n] i) ep nodes =
    (let k = (if lost then j + 1 else j)
     in (map (im_DeleteMatches ep) (take k nodes) @ drop k nodes, Some e))"
  using delete_failing_client [OF assms(1,2), of net] assms(3,4)
  by (simp add: g_DeleteMatches_def RemoveMatches_def)

theorem grpc_delete_stops_at_failure_witness:
  "DeleteMatches (grpc_store (\<lambda>c. if c = 0 then Delivered else NotSent ''unavailable'') [0..<2] 0)
      ''1'' sample_nodes =
    (map (im_DeleteMatches ''1'') (take 1 sample_nodes) @ drop 1 sample_nodes, Some ''unavailable'')"
  using grpc_delete_stops_at_failure [where nodes = sample_nodes and n = 2 and j = 1
      and net = "\<lambda>c. if c = 0 then Delivered else NotSent ''unavailable''" and lost = False
      and e = "''unavailable''" and i = 0 and ep = "''1''"]
  by (simp add: sample_nodes_def)

text \<open>A match added to any node whose response is not there yet (the request is still being
  answered, or its rendering failed) makes the next query of its endpoint panic in the node that
  holds it, while the counters still answer.\<close>

theorem grpc_match_without_response_panics:
  assumes "length nodes = n" and "i < n" and "imsSize (nodes ! i) \<noteq> 0" and "mActualResponse m = None"
  shows "is_panic (GetMatches (grpc_store all_delivered [0..<n] j) ep
      (fst (AddMatch (grpc_store all_delivered [0..<n] i) ep m nodes)))"
proof -
  let ?nd = "im_AddMatch ep m (nodes ! i)"
  have "m \<in> set (im_GetMatches ep ?nd)"
    using assms(3) by (simp add: im_defs Let_def pushed_retained)
  then have "is_panic (FetchMatches ?nd ep)" using assms(4) by (rule FetchMatches_panics)
  then have "is_panic (for_each (\<lambda>nd. bind_result (FetchMatches nd ep) (for_each mapProtoMatch)) (nodes[i := ?nd]))"
  proof (intro for_each_panic [where x = ?nd])
    show "?nd \<in> set (nodes[i := ?nd])" using assms by (simp add: set_update_memI)
    show "\<forall>e. bind_result (FetchMatches nd ep) (for_each mapProtoMatch) \<noteq> Err e" for nd
    proof (cases "FetchMatches nd ep")
      case (Ok ps)
      then show ?thesis by (simp add: for_each_no_Err mapProtoMatch_no_Err)
    qed (simp_all add: FetchMatches_no_Err)
  qed (simp add: is_panic_bind)
  then show ?thesis
    using assms(1) by (simp add: g_GetMatches_def query_cluster is_panic_bind)
qed

theorem grpc_match_without_response_panics_witness:
  "is_panic (GetMatches (grpc_store all_delivered [0..<2] 0) ''1''
      (fst (AddMatch (grpc_store all_delivered [0..<2] 1) ''1'' (sample_match ''1'' 9 None) sample_nodes)))"
  by (rule grpc_match_without_response_panics)
    (simp_all add: sample_nodes_def sample_node_def sample_match_def im_defs Let_def NewInMemoryMatchstore_def)

end
