(* ===== verification/GrpcKVStore.thy ===== *)
theory GrpcKVStore
  imports GrpcMatchstoreProps KVHandler
begin

text \<open>
  The distributed key-value store (\<open>mockgo-grpc/kvstore/kvstore.go\<close>): every node keeps a
  full in-memory replica; a write is marshalled and sent to every client, one per node, reads
  are local. The state is the list of replicas.
\<close>

section \<open>The service and the storage\<close>

text \<open>\<open>json.Marshal\<close> of an \<open>interface{}\<close>: nil becomes \<open>null\<close>.\<close>

definition marshal_any :: "'v json_codec \<Rightarrow> 'v option \<Rightarrow> error + string" where
  "marshal_any js v = (case v of None \<Rightarrow> Inr ''null'' | Some x \<Rightarrow> jMarshal js x)"

definition StoreVal ::
  "'v json_codec \<Rightarrow> string \<Rightarrow> string \<Rightarrow> string \<Rightarrow> 'v InmemoryStorage \<Rightarrow> 'v InmemoryStorage \<times> error option" where
  "StoreVal js storage key value s =
     (case jUnmarshal js value of
        Inl e \<Rightarrow> (s, Some e)
      | Inr v \<Rightarrow>
          (case Put inmemory_storage storage key v s of
             (s', Some e) \<Rightarrow> (s', Some e)
           | (s', None) \<Rightarrow> (s', None)))"

definition gs_Put ::
  "network \<Rightarrow> nat list \<Rightarrow> 'v json_codec \<Rightarrow> string \<Rightarrow> string \<Rightarrow> 'v option
     \<Rightarrow> 'v InmemoryStorage list \<Rightarrow> 'v InmemoryStorage list \<times> error option" where
  "gs_Put net clients js store key val nodes =
     (case marshal_any js val of
        Inl e \<Rightarrow> (nodes, Some e)
      | Inr json \<Rightarrow> update_clients net (StoreVal js store key json) 0 clients nodes)"

definition grpc_storage ::
  "network \<Rightarrow> nat list \<Rightarrow> 'v json_codec \<Rightarrow> nat \<Rightarrow> ('v InmemoryStorage list, 'v) Storage" where
  "grpc_storage net clients js i =
     \<lparr>GetAll = (\<lambda>store nodes. GetAll inmemory_storage store (nodes ! i)),
      Put = gs_Put net clients js,
      Get = (\<lambda>store key nodes. Get inmemory_storage store key (nodes ! i)),
      ShutdownStorage = (\<lambda>nodes. (nodes, None))\<rparr>"

lemma grpc_storage_sel [simp]:
  "GetAll (grpc_storage net clients js i) store nodes = Ok (inm_GetAll store (nodes ! i))"
  "Put (grpc_storage net clients js i) = gs_Put net clients js"
  "Get (grpc_storage net clients js i) store key nodes = Ok (inm_Get store key (nodes ! i))"
  by (simp_all add: grpc_storage_def)

section \<open>Replication\<close>

text \<open>The value a replica holds after a write: what the encoding decodes to.\<close>

definition transmitted :: "'v json_codec \<Rightarrow> 'v option \<Rightarrow> 'v option \<Rightarrow> bool" where
  "transmitted js v v' \<longleftrightarrow>
     (case marshal_any js v of Inl e \<Rightarrow> False | Inr json \<Rightarrow> jUnmarshal js json = Inr v')"

lemma transmitted_iff:
  "transmitted js v v' \<longleftrightarrow> (\<exists>json. marshal_any js v = Inr json \<and> jUnmarshal js json = Inr v')"
  by (simp add: transmitted_def split: sum.split)

lemma StoreVal_Inr: "jUnmarshal js json = Inr v \<Longrightarrow> StoreVal js a k json = (\<lambda>s. (inm_Put a k v s, None))"
  by (simp add: StoreVal_def fun_eq_iff)

lemma gs_Put_delivered:
  assumes "length nodes = n" and "transmitted js v v'"
  shows "gs_Put all_delivered [0..<n] js a k v nodes = (map (inm_Put a k v') nodes, None)"
  using assms by (auto simp: gs_Put_def transmitted_iff StoreVal_Inr delete_all_delivered)

definition faithful :: "'v json_codec \<Rightarrow> bool" where
  "faithful js \<longleftrightarrow> (\<forall>v. transmitted js v v)"

lemma grpc_storage_contract:
  assumes "faithful js" and "i < n"
  shows "storage_contract (grpc_storage all_delivered [0..<n] js i) (\<lambda>nodes. length nodes = n)"
proof -
  have put: "gs_Put all_delivered [0..<n] js a k v nodes = (map (inm_Put a k v) nodes, None)"
    if "length nodes = n" for a k v nodes
    using that assms(1) by (simp add: faithful_def gs_Put_delivered)
  show ?thesis using assms(2) by unfold_locales (auto simp: put inm_Get_Put)
qed

section \<open>Properties\<close>

text \<open>Replication: when every call is delivered, a write on any node succeeds and makes every
  replica answer \<open>Get\<close> for that store and key with the decoded value, and leaves what every
  replica answers for other stores and keys as it was.\<close>

theorem grpc_put_replicates:
  assumes "length nodes = n" and "transmitted js v v'"
  shows "\<exists>nodes'. Put (grpc_storage all_delivered [0..<n] js i) a k v nodes = (nodes', None)
    \<and> length nodes' = n
    \<and> (\<forall>j<n. \<forall>a' k'. Get (grpc_storage all_delivered [0..<n] js j) a' k' nodes' =
         (if a' = a \<and> k' = k then Ok v' else Get (grpc_storage all_delivered [0..<n] js j) a' k' nodes))"
  using assms by (simp add: gs_Put_delivered inm_Get_Put)

definition null_digits_codec :: "nat json_codec" where
  "null_digits_codec = digits_codec
     \<lparr>jUnmarshal := (\<lambda>s. if s = ''null'' then Inr None else jUnmarshal digits_codec s)\<rparr>"

lemma null_digits_faithful: "faithful null_digits_codec"
proof -
  have "nat_digits n \<noteq> ''null''" for n
  proof
    assume n: "nat_digits n = ''null''"
    have "parse_digits 0 ''null'' = None" by code_simp
    with parse_nat_digits [of n] show False by (simp add: n)
  qed
  then show ?thesis
    by (simp add: faithful_def transmitted_def marshal_any_def null_digits_codec_def digits_codec_def
        parse_nat_def parse_nat_digits split: option.split)
qed

theorem grpc_put_replicates_witness:
  "\<exists>nodes'. Put (grpc_storage all_delivered [0..<2] null_digits_codec 0) ''s'' ''k'' (Some 42)
      [NewInmemoryStorage, NewInmemoryStorage] = (nodes', None)
    \<and> Get (grpc_storage all_delivered [0..<2] null_digits_codec 1) ''s'' ''k'' nodes' = Ok (Some 42)"
proof -
  have "transmitted null_digits_codec (Some 42) (Some 42)"
    using null_digits_faithful by (simp add: faithful_def)
  then obtain nodes' where
    "Put (grpc_storage all_delivered [0..<2] null_digits_codec 0) ''s'' ''k'' (Some 42)
      [NewInmemoryStorage, NewInmemoryStorage] = (nodes', None)"
    and g: "\<And>j a' k'. j < 2 \<Longrightarrow> Get (grpc_storage all_delivered [0..<2] null_digits_codec j) a' k' nodes' =
         (if a' = ''s'' \<and> k' = ''k'' then Ok (Some 42)
          else Get (grpc_storage all_delivered [0..<2] null_digits_codec j) a' k'
            [NewInmemoryStorage, NewInmemoryStorage])"
    using grpc_put_replicates [of "[NewInmemoryStorage, NewInmemoryStorage]" 2 null_digits_codec
        "Some 42" "Some 42" 0 "''s''" "''k''"] by auto
  with g [of 1 "''s''" "''k''"] show ?thesis by auto
qed



text \<open>A write that does not reach some client returns the error and leaves the replicas different: those before the failing client have the
  new value, those after it the old one.\<close>

theorem grpc_put_partial:
  assumes "length nodes = n" and "j < n" and "\<forall>c<j. net c = Delivered" and "net j = NotSent e"
    and "transmitted js v v'"
  shows "\<exists>nodes'. Put (grpc_storage net [0..<n] js i) a k v nodes = (nodes', Some e)
    \<and> (\<forall>c<n. Get (grpc_storage net [0..<n] js c) a k nodes' =
         (if c < j then Ok v' else Get (grpc_storage net [0..<n] js c) a k nodes))"
proof -
  obtain json where "marshal_any js v = Inr json" "jUnmarshal js json = Inr v'"
    using assms(5) by (auto simp: transmitted_iff)
  then have "gs_Put net [0..<n] js a k v nodes =
      (map (inm_Put a k v') (take j nodes) @ drop j nodes, Some e)"
    using delete_failing_client(1) [OF assms(1,2), of net] assms(3,4)
    by (simp add: gs_Put_def StoreVal_Inr)
  then show ?thesis
    using assms(1,2) by (simp add: nth_append inm_Get_Put)
qed

theorem grpc_put_partial_witness:
  "\<exists>nodes'. Put (grpc_storage (\<lambda>c. if c = 0 then Delivered else NotSent ''unavailable'') [0..<2]
        null_digits_codec 0) ''s'' ''k'' (Some 7) [NewInmemoryStorage, NewInmemoryStorage] =
      (nodes', Some ''unavailable'')
    \<and> inm_Get ''s'' ''k'' (nodes' ! 0) = Some 7 \<and> inm_Get ''s'' ''k'' (nodes' ! 1) = None"
proof -
  have "transmitted null_digits_codec (Some 7) (Some 7)"
    using null_digits_faithful by (simp add: faithful_def)
  from grpc_put_partial [where net = "\<lambda>c. if c = 0 then Delivered else NotSent ''unavailable''",
      OF _ _ _ _ this, where j = 1 and n = 2 and nodes = "[NewInmemoryStorage, NewInmemoryStorage]"
      and e = "''unavailable''" and i = 0 and a = "''s''" and k = "''k''"]
  obtain nodes' where
    p: "Put (grpc_storage (\<lambda>c. if c = 0 then Delivered else NotSent ''unavailable'') [0..<2]
        null_digits_codec 0) ''s'' ''k'' (Some 7) [NewInmemoryStorage, NewInmemoryStorage] =
      (nodes', Some ''unavailable'')"
    and g: "\<And>c. c < 2 \<Longrightarrow> Get (grpc_storage (\<lambda>c. if c = 0 then Delivered else NotSent ''unavailable'') [0..<2]
        null_digits_codec c) ''s'' ''k'' nodes' =
      (if c < 1 then Ok (Some 7) else Get (grpc_storage (\<lambda>c. if c = 0 then Delivered else NotSent ''unavailable'') [0..<2]
        null_digits_codec c) ''s'' ''k'' [NewInmemoryStorage, NewInmemoryStorage])" by auto
  from g [of 0] g [of 1] p show ?thesis by auto
qed

end
