(* ===== verification/GrpcVariant.thy ===== *)
theory GrpcVariant
  imports Starter GrpcKVStore
begin

text \<open>
  Starting the grpc variant (\<open>mockgo-grpc/cmd/mockgo/main.go\<close> and the constructors of
  \<open>mockgo-grpc/matchstore/matchstore.go\<close> and \<open>mockgo-grpc/kvstore/kvstore.go\<close>): every node dials
  the addresses of all nodes and serves its own store. Dialing, listening and serving are
  arguments. It shows that a cluster is wired as the theorems on the distributed stores
  assume: one client per node, in the order of the nodes.
\<close>

section \<open>The constructors\<close>

text \<open>The loop that dials; it stops at the first error.\<close>

primrec dial_all :: "(string \<Rightarrow> error + 'c) \<Rightarrow> string list \<Rightarrow> error + 'c list" where
  "dial_all dial [] = Inr []"
| "dial_all dial (address # addresses) =
     (case dial address of
        Inl err \<Rightarrow> Inl err
      | Inr conn \<Rightarrow>
          (case dial_all dial addresses of Inl err \<Rightarrow> Inl err | Inr clients \<Rightarrow> Inr (conn # clients)))"

record 'c grpcMatchstore =
  gmId :: string
  gmMatchstore :: node
  gmClients :: "'c list"
  gmTimeout :: int                    \<comment> \<open>in nanoseconds\<close>
  gmTransferLock :: bool

definition NewGrpcMatchstore ::
  "(string \<Rightarrow> error + 'c) \<Rightarrow> string \<Rightarrow> string list \<Rightarrow> 16 word \<Rightarrow> error + 'c grpcMatchstore" where
  "NewGrpcMatchstore dial uuid addresses capacity =
     (case dial_all dial addresses of
        Inl err \<Rightarrow> Inl err
      | Inr clients \<Rightarrow>
          Inr \<lparr>gmId = uuid, gmMatchstore = NewInMemoryMatchstore capacity, gmClients = clients,
               gmTimeout = 10 ^ 9, gmTransferLock = False\<rparr>)"

record ('c, 'v) grpcStorage =
  gkId :: string
  gkStorage :: "'v InmemoryStorage"
  gkClients :: "'c list"
  gkTimeout :: int

definition NewGrpcStorage ::
  "(string \<Rightarrow> error + 'c) \<Rightarrow> string \<Rightarrow> string list \<Rightarrow> error + ('c, 'v) grpcStorage" where
  "NewGrpcStorage dial uuid addresses =
     (case dial_all dial addresses of
        Inl err \<Rightarrow> Inl err
      | Inr clients \<Rightarrow>
          Inr \<lparr>gkId = uuid, gkStorage = NewInmemoryStorage, gkClients = clients, gkTimeout = 10 ^ 9\<rparr>)"

text \<open>The message of \<open>log.Fatalf\<close> when serving ends with an error; the key-value store puts its id before it.\<close>

definition serve_error :: "string \<Rightarrow> int \<Rightarrow> error \<Rightarrow> error" where
  "serve_error who port err = who @ ''can'' @ [CHR 0x27] @ ''t listen to port '' @ itoa port @ '': '' @ err"

definition listen_error :: "int \<Rightarrow> error \<Rightarrow> error" where
  "listen_error port err = ''can'' @ [CHR 0x27] @ ''t create listening to port '' @ itoa port @ '': '' @ err"

text \<open>The goroutine that serves: it returns when the server is stopped, otherwise it ends the
  process with a message.\<close>

definition startServe :: "(string \<Rightarrow> error + 'l) \<Rightarrow> ('l \<Rightarrow> error option) \<Rightarrow> int \<Rightarrow> error option" where
  "startServe listen serve_on port =
     (case listen ('':'' @ itoa port) of
        Inl err \<Rightarrow> Some (listen_error port err)
      | Inr listening \<Rightarrow> map_option (serve_error [] port) (serve_on listening))"

definition grpc_info :: "GrpcConfiguration \<Rightarrow> string" where
  "grpc_info c =
     nl @ ''GRPC:'' @ nl
       @ ''  Hostnames: '' @ fmt_list (ClusterHostnames c) @ env_name ''CLUSTER_HOSTNAMES'' @ nl
       @ ''  KVStore Port: '' @ itoa (KvstorePort c) @ env_name ''KVSTORE_PORT'' @ nl
       @ ''  Matchstore Port: '' @ itoa (MatchstorePort c) @ env_name ''MATCHSTORE_PORT'' @ nl @ nl"

section \<open>The wiring of a cluster\<close>

lemma dial_all_Inr:
  "\<forall>a\<in>set addresses. dial a = Inr (conn a) \<Longrightarrow> dial_all dial addresses = Inr (map conn addresses)"
  by (induction addresses) simp_all

lemma dial_all_Inl:
  "dial_all dial (pre @ a # post) = Inl err"
  if "\<forall>a\<in>set pre. dial a = Inr (conn a)" and "dial a = Inl err"
  using that by (induction pre) simp_all

text \<open>When the addresses a node builds from the configured host names lead to the nodes of the
  cluster in order, the match store of every node has exactly one client per node, itself included,
  in the order of the nodes, and an empty store with the configured capacity.\<close>

theorem grpc_cluster_wiring:
  fixes node_of :: "string \<Rightarrow> nat"
  assumes "map node_of (matchstore_addresses (grpc_main config basic)) = [0..<n]"
    and "\<forall>a\<in>set (matchstore_addresses (grpc_main config basic)). dial a = Inr (node_of a)"
  shows "n = length (ClusterHostnames config)
    \<and> (\<exists>g. NewGrpcMatchstore dial uuid (matchstore_addresses (grpc_main config basic))
          (matchstore_capacity (grpc_main config basic)) = Inr g
        \<and> gmClients g = [0..<n] \<and> gmMatchstore g = NewInMemoryMatchstore (store_capacity basic))"
proof -
  have "length (matchstore_addresses (grpc_main config basic)) = n"
    using arg_cong [OF assms(1), of length] by simp
  then show ?thesis
    using dial_all_Inr [OF assms(2)] assms(1)
    by (simp add: NewGrpcMatchstore_def) (simp add: grpc_main_def createAddresses_map)
qed

text \<open>The first address that cannot be dialed is the error that ends the start.\<close>

theorem grpc_dial_error:
  assumes "\<forall>a\<in>set pre. dial a = Inr (conn a)" and "dial a = Inl err"
  shows "NewGrpcMatchstore dial uuid (pre @ a # post) capacity = Inl err
    \<and> NewGrpcStorage dial uuid (pre @ a # post) = (Inl err :: error + ('c, 'v) grpcStorage)"
  using dial_all_Inl [OF assms] by (simp add: NewGrpcMatchstore_def NewGrpcStorage_def)

text \<open>A list of two host names of which the last is empty passes the check for several hosts and
  leaves a cluster of one.\<close>

theorem validate_leaves_single_host:
  "validate \<lparr>ClusterHostnames = [h, []], MatchstorePort = p, KvstorePort = q\<rparr> =
     Inr \<lparr>ClusterHostnames = [h], MatchstorePort = p, KvstorePort = q\<rparr>"
  by (simp add: validate_def)

end
