(* ===== verification/GrpcServing.thy ===== *)
theory GrpcServing
  imports GrpcVariant
begin

text \<open>
  Serving and stopping the stores of a grpc node (\<open>startServe\<close>, \<open>StopServe\<close> and \<open>Shutdown\<close> of
  \<open>mockgo-grpc/matchstore/matchstore.go\<close> and \<open>mockgo-grpc/kvstore/kvstore.go\<close>, which do the
  same): the goroutine the constructor starts listens, assigns \<open>server\<close> and serves; stopping uses that
  field from another goroutine. Of grpc it has what is documented: \<open>Serve\<close> returns nil when the server
  is stopped while it serves, and an error when it was stopped before; \<open>GracefulStop\<close> ends once the pending
  calls have.
\<close>

section \<open>The state and the steps\<close>

datatype grpc_phase =
  BeforeListening
| BeforeServe          \<comment> \<open>\<open>server\<close> is assigned\<close>
| Serving
| ServeReturned

datatype grpc_end = Alive | Fatal error | StopPanic error

record grpc_serving =
  gvPhase :: grpc_phase
  gvServer :: "bool option"            \<comment> \<open>nil, or whether the server has been stopped\<close>
  gvPending :: nat                     \<comment> \<open>calls of other nodes in progress\<close>
  gvStopReturned :: bool
  gvEnd :: grpc_end

definition new_serving :: grpc_serving where
  "new_serving = \<lparr>gvPhase = BeforeListening, gvServer = None, gvPending = 0, gvStopReturned = False, gvEnd = Alive\<rparr>"

datatype grpc_event =
  ListenAnswers "error option"
| CallServe
| ServeFails error                     \<comment> \<open>accepting a connection fails\<close>
| ServeStops
| CallArrives
| CallEnds
| CallStop                             \<comment> \<open>\<open>Shutdown\<close> or \<open>StopServe\<close>\<close>
| StopReturns

definition ErrServerStopped :: error where
  "ErrServerStopped = ''grpc: the server has been stopped''"

definition startServe_step :: "string \<Rightarrow> int \<Rightarrow> grpc_event \<Rightarrow> grpc_serving \<Rightarrow> grpc_serving option" where
  "startServe_step who port ev s =
     (case ev of
        ListenAnswers answer \<Rightarrow>
          if gvPhase s \<noteq> BeforeListening then None
          else (case answer of
                  Some err \<Rightarrow> Some (s\<lparr>gvEnd := Fatal (listen_error port err)\<rparr>)
                | None \<Rightarrow> Some (s\<lparr>gvPhase := BeforeServe, gvServer := Some False\<rparr>))
      | CallServe \<Rightarrow>
          if gvPhase s \<noteq> BeforeServe then None
          else if gvServer s = Some True
          then Some (s\<lparr>gvPhase := ServeReturned, gvEnd := Fatal (serve_error who port ErrServerStopped)\<rparr>)
          else Some (s\<lparr>gvPhase := Serving\<rparr>)
      | ServeFails err \<Rightarrow>
          if gvPhase s = Serving \<and> gvServer s = Some False
          then Some (s\<lparr>gvPhase := ServeReturned, gvEnd := Fatal (serve_error who port err)\<rparr>) else None
      | ServeStops \<Rightarrow>
          if gvPhase s = Serving \<and> gvServer s = Some True then Some (s\<lparr>gvPhase := ServeReturned\<rparr>) else None
      | _ \<Rightarrow> None)"

text \<open>\<open>GracefulStop\<close> is called on the field \<open>server\<close>, which may still be nil.\<close>

definition GracefulStop :: "grpc_event \<Rightarrow> grpc_serving \<Rightarrow> grpc_serving option" where
  "GracefulStop ev s =
     (case ev of
        CallStop \<Rightarrow>
          (case gvServer s of
             None \<Rightarrow> Some (s\<lparr>gvEnd := StopPanic nil_deref\<rparr>)
           | Some stopped \<Rightarrow> Some (s\<lparr>gvServer := Some True\<rparr>))
      | StopReturns \<Rightarrow>
          if gvServer s = Some True \<and> gvPending s = 0 \<and> \<not> gvStopReturned s
          then Some (s\<lparr>gvStopReturned := True\<rparr>) else None
      | _ \<Rightarrow> None)"

definition grpc_calls :: "grpc_event \<Rightarrow> grpc_serving \<Rightarrow> grpc_serving option" where
  "grpc_calls ev s =
     (case ev of
        CallArrives \<Rightarrow>
          if gvPhase s = Serving \<and> gvServer s = Some False then Some (s\<lparr>gvPending := gvPending s + 1\<rparr>) else None
      | CallEnds \<Rightarrow> if 0 < gvPending s then Some (s\<lparr>gvPending := gvPending s - 1\<rparr>) else None
      | _ \<Rightarrow> None)"

definition grpc_step :: "string \<Rightarrow> int \<Rightarrow> grpc_event \<Rightarrow> grpc_serving \<Rightarrow> grpc_serving option" where
  "grpc_step who port ev s =
     (if gvEnd s \<noteq> Alive then None
      else case startServe_step who port ev s of
             Some s' \<Rightarrow> Some s'
           | None \<Rightarrow> (case GracefulStop ev s of Some s' \<Rightarrow> Some s' | None \<Rightarrow> grpc_calls ev s))"

text \<open>The two stores of a node; \<open>who\<close> is what their messages begin with.\<close>

definition matchstore_serving :: "int \<Rightarrow> grpc_event \<Rightarrow> grpc_serving \<Rightarrow> grpc_serving option" where
  "matchstore_serving port = grpc_step [] port"

definition kvstore_serving :: "string \<Rightarrow> int \<Rightarrow> grpc_event \<Rightarrow> grpc_serving \<Rightarrow> grpc_serving option" where
  "kvstore_serving uuid port = grpc_step (''kvstore '' @ uuid @ '': '') port"

primrec grpc_run :: "string \<Rightarrow> int \<Rightarrow> grpc_event list \<Rightarrow> grpc_serving \<Rightarrow> grpc_serving option" where
  "grpc_run who port [] s = Some s"
| "grpc_run who port (ev # evs) s =
     (case grpc_step who port ev s of None \<Rightarrow> None | Some s' \<Rightarrow> grpc_run who port evs s')"

section \<open>What stopping does\<close>

lemmas grpc_steps = grpc_step_def startServe_step_def GracefulStop_def grpc_calls_def

lemma grpc_run_snoc:
  "grpc_run who port (evs @ [ev]) s =
     (case grpc_run who port evs s of None \<Rightarrow> None | Some s' \<Rightarrow> grpc_step who port ev s')"
  by (induction evs arbitrary: s) (auto split: option.splits)

text \<open>The events so far and the state: the server is nil exactly before the listening, it is stopped exactly
  when a stop has been called, no call is in progress before it serves.\<close>

definition serving_inv :: "grpc_event list \<Rightarrow> grpc_serving \<Rightarrow> bool" where
  "serving_inv evs s \<longleftrightarrow>
     (gvServer s = None \<longleftrightarrow> ListenAnswers None \<notin> set evs)
     \<and> (gvPhase s = BeforeListening \<longleftrightarrow> gvServer s = None)
     \<and> (gvEnd s = Alive \<longrightarrow> (gvServer s = Some True \<longleftrightarrow> CallStop \<in> set evs))
     \<and> (\<forall>e. gvEnd s = StopPanic e \<longrightarrow> e = nil_deref \<and> gvServer s = None \<and> CallStop \<in> set evs)
     \<and> (CallServe \<in> set evs \<longleftrightarrow> gvPhase s = Serving \<or> gvPhase s = ServeReturned)
     \<and> (gvStopReturned s \<longrightarrow> gvServer s = Some True \<and> gvPending s = 0)
     \<and> (gvPhase s \<noteq> Serving \<and> gvPhase s \<noteq> ServeReturned \<longrightarrow> gvPending s = 0)"

lemma serving_inv_step:
  "serving_inv evs s \<Longrightarrow> grpc_step who port ev s = Some s' \<Longrightarrow> serving_inv (evs @ [ev]) s'"
  by (cases ev) (auto simp: serving_inv_def grpc_steps split: if_splits option.splits)

lemma serving_inv_run:
  "grpc_run who port evs new_serving = Some s \<Longrightarrow> serving_inv evs s"
proof (induction evs arbitrary: s rule: rev_induct)
  case Nil
  then show ?case by (auto simp: serving_inv_def new_serving_def)
next
  case (snoc ev evs)
  then show ?case by (auto simp: grpc_run_snoc split: option.splits intro: serving_inv_step)
qed

text \<open>Stopping a store of a grpc node: the call of \<open>Shutdown\<close> panics exactly when the goroutine that serves
  has not assigned the server yet (it has not got its listener), whatever has happened before; it returns only
  when no call of another node is in progress; and a stop between the assignment and the call of \<open>Serve\<close> lets the
  call fail, which ends the whole process.\<close>

theorem grpc_stop_outcomes:
  assumes "grpc_run who port evs new_serving = Some s" and "gvEnd s = Alive"
  shows "(\<exists>s'. grpc_step who port CallStop s = Some s'
        \<and> (gvEnd s' = StopPanic nil_deref \<longleftrightarrow> ListenAnswers None \<notin> set evs)
        \<and> (gvEnd s' = Alive \<longleftrightarrow> ListenAnswers None \<in> set evs))
    \<and> (gvStopReturned s \<longrightarrow> gvPending s = 0 \<and> CallStop \<in> set evs)
    \<and> (ListenAnswers None \<in> set evs \<and> CallServe \<notin> set evs \<longrightarrow>
        (\<exists>s'. grpc_run who port [CallStop, CallServe] s = Some s'
          \<and> gvEnd s' = Fatal (serve_error who port ErrServerStopped)))"
proof -
  have inv: "gvServer s = None \<longleftrightarrow> ListenAnswers None \<notin> set evs" "gvPhase s = BeforeListening \<longleftrightarrow> gvServer s = None"
    "gvStopReturned s \<longrightarrow> gvServer s = Some True \<and> gvPending s = 0" "gvServer s = Some True \<longleftrightarrow> CallStop \<in> set evs"
    "CallServe \<in> set evs \<longleftrightarrow> gvPhase s = Serving \<or> gvPhase s = ServeReturned"
    using serving_inv_run [OF assms(1)] assms(2) unfolding serving_inv_def by blast+
  have "gvPhase s = BeforeServe" if "ListenAnswers None \<in> set evs" "CallServe \<notin> set evs"
    using inv(1,2,5) that by (cases "gvPhase s") auto
  then show ?thesis
    using inv assms(2) by (cases "gvServer s") (simp_all add: grpc_steps)
qed

theorem grpc_stop_outcomes_witness:
  "\<exists>s s'. grpc_run [] 50051 [ListenAnswers None] new_serving = Some s
    \<and> grpc_run [] 50051 [CallStop, CallServe] s = Some s'
    \<and> gvEnd s' = Fatal (serve_error [] 50051 ErrServerStopped)"
proof -
  let ?s = "new_serving\<lparr>gvPhase := BeforeServe, gvServer := Some False\<rparr>"
  have run: "grpc_run [] 50051 [ListenAnswers None] new_serving = Some ?s"
    by (simp add: grpc_steps new_serving_def)
  have "gvEnd ?s = Alive" by (simp add: new_serving_def)
  from grpc_stop_outcomes [OF run this] run show ?thesis by auto
qed

end
