(* ===== verification/TestUtil.thy ===== *)
theory TestUtil
  imports Complex_Main HttpUtil
begin

text \<open>
  The helpers of \<open>mockgo/testutil/http.go\<close> and \<open>util.go\<close> with which the tests of the repository build
  requests and look at answers. Parsing the target of a new request (\<open>NewRequest\<close> of
  \<open>net/http\<close> and \<open>httptest\<close>), the test server, the random numbers and the run of the tests are arguments. A header is a list of its entries in the order in
  which the loop over the map meets them.
\<close>

section \<open>Headers\<close>

record Header =
  hdEntries :: "(string, string list) entries"

definition CreateHeader :: Header where
  "CreateHeader = \<lparr>hdEntries = []\<rparr>"

definition basicAuth :: "string \<Rightarrow> string \<Rightarrow> string" where
  "basicAuth username password = ''Basic '' @ b64_encode (username @ '':'' @ password)"

definition WithAuth :: "string \<Rightarrow> string \<Rightarrow> Header \<Rightarrow> Header" where
  "WithAuth username password h =
     h\<lparr>hdEntries := AList.update ''Authorization'' [basicAuth username password] (hdEntries h)\<rparr>"

definition WithKeyValue :: "string \<Rightarrow> string \<Rightarrow> Header \<Rightarrow> Header" where
  "WithKeyValue key v h = h\<lparr>hdEntries := AList.update key [v] (hdEntries h)\<rparr>"

definition WithJSONContentType :: "Header \<Rightarrow> Header" where
  "WithJSONContentType h = h\<lparr>hdEntries := AList.update ''Content-Type'' [''application/json''] (hdEntries h)\<rparr>"

definition WithJSONAccept :: "Header \<Rightarrow> Header" where
  "WithJSONAccept h = h\<lparr>hdEntries := AList.update ''Accept'' [''application/json''] (hdEntries h)\<rparr>"

text \<open>\<open>v[0]\<close> of an empty list panics; the functions above make no such entry.\<close>

primrec set_header_fields :: "(string, string list) entries \<Rightarrow> request \<Rightarrow> request result" where
  "set_header_fields [] request = Ok request"
| "set_header_fields (e # es) request =
     (case snd e of
        [] \<Rightarrow> Panic ''index out of range [0] with length 0''
      | v # vs \<Rightarrow>
          set_header_fields es (request\<lparr>reqHeader := reqHeader request @ [(canonical_key (fst e), v)]\<rparr>))"

definition setHeader :: "request \<Rightarrow> Header \<Rightarrow> request result" where
  "setHeader request header = set_header_fields (hdEntries header) request"

section \<open>Requests\<close>

definition bodyReader :: "string \<Rightarrow> body option" where
  "bodyReader b = (if length b > 0 then Some (Unread b) else None)"

definition CreateOutgoingRequest ::
  "(string \<Rightarrow> string \<Rightarrow> body option \<Rightarrow> request) \<Rightarrow> string \<Rightarrow> string \<Rightarrow> string \<Rightarrow> Header \<Rightarrow> string \<Rightarrow> request result" where
  "CreateOutgoingRequest newRequest serverURL method path header b =
     setHeader (newRequest method (serverURL @ path) (bodyReader b)) header"

definition CreateIncomingRequest ::
  "(string \<Rightarrow> string \<Rightarrow> body option \<Rightarrow> request) \<Rightarrow> string \<Rightarrow> string \<Rightarrow> Header \<Rightarrow> string \<Rightarrow> request result" where
  "CreateIncomingRequest newRequest method path header b =
     setHeader (newRequest method (''http://localhost/'' @ path) (bodyReader b)) header"

text \<open>A reader that fails, in place of a body.\<close>

definition errorReader :: body where
  "errorReader = FailingReader ''error reading bytes''"

definition CreateIncomingErrorReadingBodyRequest ::
  "(string \<Rightarrow> string \<Rightarrow> body option \<Rightarrow> request) \<Rightarrow> string \<Rightarrow> string \<Rightarrow> string \<Rightarrow> Header \<Rightarrow> request result" where
  "CreateIncomingErrorReadingBodyRequest newRequest serverURL method path header =
     setHeader (newRequest method (serverURL @ path) (Some errorReader)) header"

section \<open>Answers\<close>

record test_response =
  trStatusCode :: int
  trHeader :: "(string \<times> string) list"
  trBody :: "error + string"            \<comment> \<open>what reading it gives\<close>

text \<open>\<open>recorder.Result()\<close>: a handler that writes nothing has answered 200.\<close>

definition recorder_Result :: "response_writer \<Rightarrow> test_response" where
  "recorder_Result w =
     (case rwStatus w of
        None \<Rightarrow> \<lparr>trStatusCode = 200, trHeader = rwHeader w, trBody = Inr (rwBody w)\<rparr>
      | Some code \<Rightarrow> \<lparr>trStatusCode = code, trHeader = rwSent w, trBody = Inr (rwBody w)\<rparr>)"

text \<open>The result is the error of reading the body, or what the assertion says of the response and its body.\<close>

definition callAssertResponse :: "test_response \<Rightarrow> (test_response \<Rightarrow> string \<Rightarrow> 'a) \<Rightarrow> error + 'a" where
  "callAssertResponse response assertResponse =
     (case trBody response of Inl err \<Rightarrow> Inl err | Inr respBody \<Rightarrow> Inr (assertResponse response respBody))"

definition AssertHandlerFunc ::
  "request \<Rightarrow> 's handler \<Rightarrow> (test_response \<Rightarrow> string \<Rightarrow> 'a) \<Rightarrow> 's \<Rightarrow> ((error + 'a) \<times> 's) result" where
  "AssertHandlerFunc request handlerFunc assertResponse s =
     bind_result (handlerFunc request new_writer s) (\<lambda>(recorder, s').
       Ok (callAssertResponse (recorder_Result recorder) assertResponse, s'))"

section \<open>The test server\<close>

text \<open>The client of the server that has been started: it sends a request and gets a response or an error.
  The variable \<open>testServer\<close> is nil before the start.\<close>

type_synonym 's test_client = "request \<Rightarrow> 's \<Rightarrow> (error + test_response) \<times> 's"

definition StartServing :: "('router \<Rightarrow> 's test_client) \<Rightarrow> 'router \<Rightarrow> 's test_client option" where
  "StartServing newServer router = Some (newServer router)"

definition StopServing :: "('s test_client \<Rightarrow> 's test_client) \<Rightarrow> 's test_client option \<Rightarrow> 's test_client option result" where
  "StopServing close testServer =
     (case testServer of None \<Rightarrow> Panic nil_deref | Some client \<Rightarrow> Ok (Some (close client)))"

definition AssertResponseOfRequestCall ::
  "'s test_client option \<Rightarrow> request \<Rightarrow> (test_response \<Rightarrow> string \<Rightarrow> 'a) \<Rightarrow> 's \<Rightarrow> ((error + 'a) \<times> 's) result" where
  "AssertResponseOfRequestCall testServer request assertResponse s =
     (case testServer of
        None \<Rightarrow> Panic nil_deref
      | Some client \<Rightarrow>
          (case client request s of
             (Inl err, s') \<Rightarrow> Ok (Inl err, s')
           | (Inr response, s') \<Rightarrow> Ok (callAssertResponse response assertResponse, s')))"

text \<open>Whether \<open>assert.Equal\<close> holds.\<close>

definition AssertResponseStatusOfRequestCall ::
  "'s test_client option \<Rightarrow> request \<Rightarrow> int \<Rightarrow> 's \<Rightarrow> ((error + bool) \<times> 's) result" where
  "AssertResponseStatusOfRequestCall testServer request expectedResponseStatus s =
     (case testServer of
        None \<Rightarrow> Panic nil_deref
      | Some client \<Rightarrow>
          (case client request s of
             (Inl err, s') \<Rightarrow> Ok (Inl err, s')
           | (Inr response, s') \<Rightarrow> Ok (Inr (expectedResponseStatus = trStatusCode response), s')))"

section \<open>Random strings and the run of the tests\<close>

definition letterBytes :: string where
  "letterBytes = ''abcdefghijklmnopqrstuvwxyzABCDEFGHIJKLMNOPQRSTUVWXYZ''"

text \<open>\<open>rand.Int63\<close> is documented not to be negative; then \<open>%\<close> is \<open>mod\<close>.\<close>

primrec random_letters :: "('r \<Rightarrow> int \<times> 'r) \<Rightarrow> nat \<Rightarrow> 'r \<Rightarrow> string \<times> 'r" where
  "random_letters int63 0 rand = ([], rand)"
| "random_letters int63 (Suc n) rand =
     (let (i, rand1) = int63 rand; (b, rand2) = random_letters int63 n rand1
      in (letterBytes ! nat (i mod int (length letterBytes)) # b, rand2))"

definition RandString :: "('r \<Rightarrow> int \<times> 'r) \<Rightarrow> int \<Rightarrow> 'r \<Rightarrow> (string \<times> 'r) result" where
  "RandString int63 n rand =
     (if n < 0 then Panic ''makeslice: len out of range'' else Ok (random_letters int63 (nat n) rand))"

text \<open>The check of the coverage is commented out: the code of the tests is returned.\<close>

definition RunAndCheckCoverage :: "string \<Rightarrow> ('s \<Rightarrow> int \<times> 's) \<Rightarrow> real \<Rightarrow> 's \<Rightarrow> int \<times> 's" where
  "RunAndCheckCoverage testPackage m_Run treshold s = (let (code, s') = m_Run s in (code, s'))"

lemma random_letters_letters:
  "length (fst (random_letters int63 n rand)) = n \<and> set (fst (random_letters int63 n rand)) \<subseteq> set letterBytes"
proof (induction n arbitrary: rand)
  case (Suc n)
  have "letterBytes ! nat (i mod int (length letterBytes)) \<in> set letterBytes" for i
    by (rule nth_mem) (simp add: letterBytes_def nat_less_iff)
  with Suc show ?case by (auto simp: Let_def case_prod_beta)
qed simp

text \<open>A random string has the length that was asked for and consists of letters.\<close>

theorem random_string:
  "0 \<le> n \<Longrightarrow> \<exists>s rand'. RandString int63 n rand = Ok (s, rand') \<and> length s = nat n \<and> set s \<subseteq> set letterBytes"
  using random_letters_letters [of int63 "nat n" rand]
  by (cases "random_letters int63 (nat n) rand") (simp add: RandString_def)

section \<open>A test client is let in\<close>

lemma basicAuth_eq: "basicAuth u p = BasicAuth u p"
  by (simp add: basicAuth_def BasicAuth_def)

text \<open>The header of the tests for an API call passes the authentication and the check of the
  accepted type, so an assertion sees the answer of the handler itself.\<close>

theorem test_client_reaches_handler:
  assumes "reqHeader r = []" and "CHR '':'' \<notin> set u"
    and "setHeader r (WithJSONAccept (WithAuth u p CreateHeader)) = Ok r'"
  shows "AssertHandlerFunc r' (BasicAuthMiddleware prefix u p (JSONAcceptRequest impl)) assertion s =
    AssertHandlerFunc r' impl assertion s"
proof -
  have keys: "canonical_key ''Authorization'' = ''Authorization''" "canonical_key ''Accept'' = ''Accept''"
    by code_simp+
  have r': "r' = r\<lparr>reqHeader := [(''Authorization'', BasicAuth u p), (''Accept'', ''application/json'')]\<rparr>"
    using assms(1,3) by (simp add: setHeader_def WithJSONAccept_def WithAuth_def CreateHeader_def keys basicAuth_eq)
  have "request_BasicAuth r' = Some (u, p)"
    by (rule request_BasicAuth_header) (simp_all add: r' header_get_def keys assms(2))
  moreover have "header_get (reqHeader r') ''Accept'' = ''application/json''"
    by (simp add: r' header_get_def keys)
  ultimately show ?thesis
    by (simp add: AssertHandlerFunc_def BasicAuthMiddleware_def JSONAcceptRequest_def)
qed

end
