(* ===== verification/Reporting.thy ===== *)
theory Reporting
  imports MockHandlerProps
begin

text \<open>
  From a request to its record: what an in-memory match store holds after the mock endpoints have
  answered a request.
\<close>

text \<open>The response kept for a match agrees with the answer the client has got.\<close>

definition answer_agrees :: "answer \<Rightarrow> ActualResponse option \<Rightarrow> bool" where
  "answer_agrees ans resp \<longleftrightarrow>
     (case ans of
        NotFound \<Rightarrow> False
      | Failed e \<Rightarrow> resp = None
      | Answered w \<Rightarrow>
          (case resp of
             None \<Rightarrow> rwStatus w = Some 500
           | Some a \<Rightarrow> rwStatus w = Some (final_status (asStatusCode a)) \<and> asHeader a = []))"

lemma render_without_template:
  assumes "rsTemplate (epResponse ep) = None"
  shows "rdMatches (renderResponse env r (Some ep) m pp qp (fresh_render heap k)) = heap
    \<and> answer_agrees (answer_of (renderResponse env r (Some ep) m pp qp (fresh_render heap k))) None"
  using assms
  by (simp add: renderResponse_def exec_template_def set_panic_def answer_agrees_def answer_of_def
      render_error_def fresh_render_def new_writer_def rwStatus_write_bytes rwStatus_put_status Let_def split: sum.split)

lemma render_agrees:
  assumes "a < length heap" and "mActualResponse (heap ! a) = None"
  shows "\<exists>resp. rdMatches (renderResponse env r (Some ep) (Some a) pp qp (fresh_render heap k)) =
      heap[a := (heap ! a)\<lparr>mActualResponse := resp\<rparr>]
    \<and> answer_agrees (answer_of (renderResponse env r (Some ep) (Some a) pp qp (fresh_render heap k))) resp"
proof -
  let ?st = "renderResponse env r (Some ep) (Some a) pp qp (fresh_render heap k)"
  have same: "heap[a := (heap ! a)\<lparr>mActualResponse := None\<rparr>] = heap"
    using assms by (metis Match.surjective Match.update_convs(4) list_update_id)
  show ?thesis
  proof (cases "rsTemplate (epResponse ep)")
    case None
    with render_without_template [OF this] same show ?thesis by metis
  next
    case (Some t)
    have "rdPanic (fresh_render heap k) = None" "rwStatus (rdWriter (fresh_render heap k)) = None"
      "rwBody (rdWriter (fresh_render heap k)) = []" "rdMatches (fresh_render heap k) = heap"
      by (simp_all add: fresh_render_def new_writer_def)
    note render_ended [OF Some this(1-3), of a env r pp qp]
    then consider "error_sent (fresh_render heap k) ?st" | "response_sent a (fresh_render heap k) ?st"
      | "bad_status (fresh_render heap k) ?st" unfolding ended_def by blast
    then show ?thesis
    proof cases
      case 1
      then show ?thesis
        using same by (intro exI [where x = None]) (simp add: error_sent_def answer_agrees_def answer_of_def fresh_render_def)
    next
      case 2
      then obtain status where "rdPanic ?st = None" "rwStatus (rdWriter ?st) = Some (final_status status)"
        "rdMatches ?st = with_response a status heap"
        by (auto simp: response_sent_def fresh_render_def)
      then show ?thesis
        by (intro exI [where x = "Some \<lparr>asStatusCode = status, asHeader = []\<rparr>"])
          (simp add: with_response_def answer_agrees_def answer_of_def)
    next
      case 3
      then show ?thesis
        using same by (intro exI [where x = None]) (auto simp: bad_status_def answer_agrees_def answer_of_def fresh_render_def)
    qed
  qed
qed

lemma push_bounded_last:
  assumes "sz \<noteq> 0"
  shows "push_bounded sz l x \<noteq> [] \<and> last (push_bounded sz l x) = x"
proof -
  have "\<not> sz < 1" using assms by (simp add: word_less_1)
  then show ?thesis by (cases l) (simp_all add: push_bounded_def Let_def)
qed

text \<open>Every request is recorded as it was answered: when a server with an in-memory store of non-zero
  capacity answers a request for a mock endpoint, then either no endpoint was chosen, the answer is
  404, and the last mismatch of the store has the time and the data of the request; or the last match
  the store has for the chosen endpoint has the time and the data of this request, and the response
  status that was sent; a match has no response exactly when the client got 500 from a failing
  template or no answer at all. The other matches are as they were.\<close>

theorem answered_request_is_recorded:
  fixes sv :: "('t, (nat, Mismatch) InMemoryMatchstore, 'k) server_state"
  assumes "\<not> has_prefix (urlPath r) pathPrefix" and "imsSize (hsMatchstore (svHandler sv)) \<noteq> 0"
    and "serve inmemory_backend env pathPrefix now r sv = (ans, sv')"
  shows "(ans = NotFound \<and> svEndPoint sv' = None \<and> im_GetMismatches (hsMatchstore (svHandler sv')) \<noteq> []
      \<and> mmTimestamp (last (im_GetMismatches (hsMatchstore (svHandler sv')))) = now
      \<and> mmActualRequest (last (im_GetMismatches (hsMatchstore (svHandler sv')))) = actual_request r
      \<and> hsMatches (svHandler sv') = hsMatches (svHandler sv))
    \<or> (\<exists>ep resp. svEndPoint sv' = Some ep \<and> im_GetMatches (epID ep) (hsMatchstore (svHandler sv')) \<noteq> []
        \<and> hsMatches (svHandler sv') ! last (im_GetMatches (epID ep) (hsMatchstore (svHandler sv'))) =
            \<lparr>mEndpointID = epID ep, mTimestamp = now, mActualRequest = actual_request r, mActualResponse = resp\<rparr>
        \<and> answer_agrees ans resp
        \<and> (\<forall>i<length (hsMatches (svHandler sv)). hsMatches (svHandler sv') ! i = hsMatches (svHandler sv) ! i))"
proof -
  let ?h = "svHandler sv" and ?o = "outcome inmemory_backend now r (svHandler sv)"
  let ?heap = "hsMatches (svHandler sv)"
  obtain sv1 b where m: "mock_matcher inmemory_backend pathPrefix now r sv = Ok (fst ?o \<noteq> None, r\<lparr>reqBody := b\<rparr>, sv1)"
    and sv1: "svHandler sv1 = snd ?o" "svEndPoint sv1 = fst ?o"
      "svMatch sv1 = map_option (\<lambda>_. length ?heap) (svEndPoint sv1)"
    using mock_matcher_outcome [OF assms(1), of inmemory_backend now sv] by (elim exE conjE)
  from outcome_recorded [of inmemory_backend now r ?h] show ?thesis
  proof
    assume "\<exists>d. ?o = (None, mismatch_recorded inmemory_backend now d r ?h)"
    then obtain d where o: "?o = (None, mismatch_recorded inmemory_backend now d r ?h)" ..
    let ?mm = "\<lparr>mmDetails = d, mmTimestamp = now, mmActualRequest = actual_request r\<rparr>"
    have "ans = NotFound" "sv' = sv1" using assms(3) m o by (simp_all add: serve_def)
    moreover have "im_GetMismatches (hsMatchstore (svHandler sv1)) =
        push_bounded (imsSize (hsMatchstore ?h)) (im_GetMismatches (hsMatchstore ?h)) ?mm"
      using im_mismatches_step [of "AddMismatchOp ?mm" "hsMatchstore ?h"] by (simp add: sv1 o mismatch_recorded_def)
    ultimately show ?thesis
      using push_bounded_last [OF assms(2), of _ ?mm] by (simp add: sv1 o) (simp add: mismatch_recorded_def)
  next
    assume "\<exists>ep. ?o = (Some ep, match_recorded inmemory_backend now ep r ?h)"
    then obtain ep where o: "?o = (Some ep, match_recorded inmemory_backend now ep r ?h)" ..
    let ?new = "\<lparr>mEndpointID = epID ep, mTimestamp = now, mActualRequest = actual_request r, mActualResponse = None\<rparr>"
    let ?st = "renderResponse env (r\<lparr>reqBody := b\<rparr>) (Some ep) (Some (length ?heap))
      (svRequestPathParam sv1) (svQueryParams sv1) (fresh_render (?heap @ [?new]) (svWorld sv1))"
    have heap1: "hsMatches (svHandler sv1) = ?heap @ [?new]" by (simp add: sv1 o match_recorded_def)
    have ans: "ans = answer_of ?st" and sv': "svHandler sv' = (svHandler sv1)\<lparr>hsMatches := rdMatches ?st\<rparr>"
      and chosen: "svEndPoint sv' = Some ep"
      using assms(3) m o sv1 heap1 by (auto simp: serve_def mock_handler_def Let_def)
    obtain resp where resp: "rdMatches ?st = (?heap @ [?new])[length ?heap := ?new\<lparr>mActualResponse := resp\<rparr>]"
      "answer_agrees (answer_of ?st) resp"
      using render_agrees [of "length ?heap" "?heap @ [?new]" env "r\<lparr>reqBody := b\<rparr>" ep
          "svRequestPathParam sv1" "svQueryParams sv1" "svWorld sv1"] by auto
    let ?ids = "push_bounded (imsSize (hsMatchstore ?h)) (im_GetMatches (epID ep) (hsMatchstore ?h)) (length ?heap)"
    have listed: "im_GetMatches (epID ep) (hsMatchstore (svHandler sv')) = ?ids"
      using im_matches_step [of "epID ep" "AddMatchOp (epID ep) (length ?heap)" "hsMatchstore ?h"]
      by (simp add: sv' sv1 o match_recorded_def)
    have heap': "hsMatches (svHandler sv') = ?heap @ [?new\<lparr>mActualResponse := resp\<rparr>]"
      by (simp add: sv' resp(1))
    have ids: "?ids \<noteq> []" "last ?ids = length ?heap"
      using push_bounded_last [OF assms(2), of "im_GetMatches (epID ep) (hsMatchstore ?h)" "length ?heap"] by auto
    have "hsMatches (svHandler sv') ! last ?ids =
        \<lparr>mEndpointID = epID ep, mTimestamp = now, mActualRequest = actual_request r, mActualResponse = resp\<rparr>"
      unfolding ids(2) heap' by simp
    moreover have "\<forall>i<length ?heap. hsMatches (svHandler sv') ! i = ?heap ! i"
      unfolding heap' by (simp add: nth_append)
    moreover have "answer_agrees ans resp" using resp(2) ans by simp
    ultimately show ?thesis
      using chosen ids(1) unfolding listed [symmetric] by blast
  qed
qed

end
