(* ===== verification/Router.thy ===== *)
theory Router
  imports Starter Reporting
begin

text \<open>
  The HTTP server as \<open>SetupRouter\<close> of \<open>mockgo/starter/starter.go\<close> puts it together: the
  routes of all handlers on one state, in the order they are added, behind the basic
  authentication. The router (\<open>gorilla/mux\<close>) is a library: how it cleans a path and whether the
  path template and the method of a route fit a request are arguments. Its documented dispatch is
  followed: routes are tried in the order they were added, the first that fits handles the
  request, through the middleware; when none fits the answer is 404, or 405 when a path fitted
  with another method. The state is that of the mock handler, the world of its template functions
  being the key-value store.
\<close>

section \<open>Routes\<close>

text \<open>What the router says about a path template, a method and a request.\<close>

datatype route_match = Bound "string \<rightharpoonup> string" | WrongMethod | Different

record mux_env =
  muxMatch :: "string \<Rightarrow> string option \<Rightarrow> request \<Rightarrow> route_match"
  muxClean :: "string \<Rightarrow> string"

text \<open>A route has a name, a path template, a method and a handler, or a matcher function (which is
  given the time) and a handler.\<close>

datatype 's route =
  PathRoute string string "string option" "'s handler"
| MatcherRoute "int \<Rightarrow> request \<Rightarrow> 's \<Rightarrow> (bool \<times> request \<times> 's) result" "'s handler"

datatype 's routing = Found "'s handler" request | NoRoute | MethodMismatch | MatcherPanic error

primrec find_route ::
  "mux_env \<Rightarrow> int \<Rightarrow> 's route list \<Rightarrow> bool \<Rightarrow> request \<Rightarrow> 's \<Rightarrow> 's routing \<times> 's" where
  "find_route mx now [] wrong r s = (if wrong then MethodMismatch else NoRoute, s)"
| "find_route mx now (rt # rts) wrong r s =
     (case rt of
        PathRoute name path method h \<Rightarrow>
          (case muxMatch mx path method r of
             Bound vars \<Rightarrow> (Found h (r\<lparr>muxVars := vars\<rparr>), s)
           | WrongMethod \<Rightarrow> find_route mx now rts True r s
           | Different \<Rightarrow> find_route mx now rts wrong r s)
      | MatcherRoute matcher h \<Rightarrow>
          (case matcher now r s of
             Ok (found, r', s') \<Rightarrow> if found then (Found h r', s') else find_route mx now rts wrong r' s'
           | Err e \<Rightarrow> (MatcherPanic e, s)
           | Panic e \<Rightarrow> (MatcherPanic e, s)))"

section \<open>The parts on one state\<close>

text \<open>The state the routes work on: that of the mock handler, and the panic a handler ended with, which the server
  catches.\<close>

type_synonym ('t, 's, 'k) conn_state = "('t, 's, 'k) server_state \<times> error option"

definition catching :: "('t, 's, 'k) server_state handler \<Rightarrow> ('t, 's, 'k) conn_state handler" where
  "catching h r w c =
     (case h r w (fst c) of
        Ok (w', sv') \<Rightarrow> Ok (w', sv', snd c)
      | Err e \<Rightarrow> Ok (w, fst c, Some e)
      | Panic e \<Rightarrow> Ok (w, fst c, Some e))"

text \<open>The match store as its API sees it: pointers to matches are followed.\<close>

definition api_matchstore ::
  "('s, 'm) backend \<Rightarrow> (('t, 's, 'k) server_state, Match, Mismatch) Matchstore" where
  "api_matchstore ms =
     (let store = \<lambda>sv. hsMatchstore (svHandler sv);
          methods = \<lambda>sv. beStore ms (hsMatches (svHandler sv));
          changed = \<lambda>sv (s', e). (sv\<lparr>svHandler := (svHandler sv)\<lparr>hsMatchstore := s'\<rparr>\<rparr>, e)
      in \<lparr>GetMatches = (\<lambda>ep sv. map_result (map (beShown ms (hsMatches (svHandler sv)))) (GetMatches (methods sv) ep (store sv))),
          GetMatchesCount = (\<lambda>ep sv. GetMatchesCount (methods sv) ep (store sv)),
          GetMismatches = (\<lambda>sv. GetMismatches (methods sv) (store sv)),
          AddMatch = (\<lambda>ep m sv.
            let h = svHandler sv; sv' = sv\<lparr>svHandler := h\<lparr>hsMatches := hsMatches h @ [m]\<rparr>\<rparr>
            in changed sv' (AddMatch (methods sv) ep (beKept ms (length (hsMatches h)) m) (store sv))),
          AddMismatch = (\<lambda>mm sv. changed sv (AddMismatch (methods sv) mm (store sv))),
          GetMismatchesCount = (\<lambda>sv. GetMismatchesCount (methods sv) (store sv)),
          DeleteMatches = (\<lambda>ep sv. changed sv (DeleteMatches (methods sv) ep (store sv))),
          DeleteMismatches = (\<lambda>sv. changed sv (DeleteMismatches (methods sv) (store sv))),
          Shutdown = (\<lambda>sv. changed sv (Shutdown (methods sv) (store sv)))\<rparr>)"

text \<open>The key-value store is the world of the template functions.\<close>

definition api_storage :: "('k, 'v) Storage \<Rightarrow> (('t, 's, 'k) server_state, 'v) Storage" where
  "api_storage st =
     \<lparr>GetAll = (\<lambda>a sv. GetAll st a (svWorld sv)),
      Put = (\<lambda>a k v sv. case Put st a k v (svWorld sv) of (k', e) \<Rightarrow> (sv\<lparr>svWorld := k'\<rparr>, e)),
      Get = (\<lambda>a k sv. Get st a k (svWorld sv)),
      ShutdownStorage = (\<lambda>sv. case ShutdownStorage st (svWorld sv) of (k', e) \<Rightarrow> (sv\<lparr>svWorld := k'\<rparr>, e))\<rparr>"

section \<open>The router of the server\<close>

text \<open>What \<open>SetupRouter\<close> is called with and what the handlers use of libraries: template
  execution, file loading, JSON, and the handler of the metrics, which reads the counters.\<close>

record ('t, 'j, 's, 'm, 'k, 'v) server_setup =
  suConfig :: BasicConfiguration
  suMatchstore :: "('s, 'm) backend"
  suStorage :: "('k, 'v) Storage"
  suTemplates :: "('t, 'j, 'k) template_env"
  suLoader :: "'t loader_env"
  suMatchesJson :: "Match list \<Rightarrow> error + string"
  suMismatchesJson :: "Mismatch list \<Rightarrow> error + string"
  suCodec :: "'v json_codec"
  suMetrics :: "request \<Rightarrow> (string \<Rightarrow> nat) \<Rightarrow> nat \<Rightarrow> response_writer \<Rightarrow> response_writer"

definition serve_health :: "'c handler" where
  "serve_health r w c = Ok (write_bytes ''OK'' (put_status 200 w), c)"

definition mock_AddRoutes ::
  "('t, 'j, 's, 'm, 'k, 'v) server_setup \<Rightarrow> ('t, 's, 'k) conn_state route list" where
  "mock_AddRoutes su =
     (let p = APIPathPrefix (suConfig su) in
      [MatcherRoute
         (\<lambda>now r c. map_result (\<lambda>(found, r', sv'). (found, r', sv', snd c)) (mock_matcher (suMatchstore su) p now r (fst c)))
         (\<lambda>r w c. case mock_handler (suTemplates su) r (fst c) of (st, sv') \<Rightarrow> Ok (rdWriter st, sv', rdPanic st)),
       PathRoute ''reload'' (p @ ''/reload'') (Some ''POST'')
         (catching (handleReload (suLoader su) (MockDir (suConfig su)) (MockFilepattern (suConfig su))))])"

definition api_routes ::
  "(string \<times> string \<times> string \<times> ('t, 's, 'k) server_state handler) list \<Rightarrow> ('t, 's, 'k) conn_state route list" where
  "api_routes routes = map (\<lambda>(name, path, method, h). PathRoute name path (Some method) (catching h)) routes"

definition SetupRouter ::
  "('t, 'j, 's, 'm, 'k, 'v) server_setup \<Rightarrow> ('t, 's, 'k) conn_state route list" where
  "SetupRouter su =
     (let p = APIPathPrefix (suConfig su) in
      [PathRoute ''health'' (p @ ''/health'') (Some ''GET'') serve_health]
      @ mock_AddRoutes su
      @ api_routes (matches_AddRoutes p (api_matchstore (suMatchstore su)) (suMatchesJson su) (suMismatchesJson su))
      @ api_routes (kv_AddRoutes p (api_storage (suStorage su)) (suCodec su))
      @ [PathRoute ''metrics'' (p @ ''/metrics'') None
           (\<lambda>r w c. let h = svHandler (fst c) in Ok (suMetrics su r (hsMatchesMetric h) (hsMismatchesMetric h) w, c))])"

text \<open>A request as the server handles it: a path that is not clean is redirected, otherwise
  the route that is found handles it behind the authentication.\<close>

datatype http_reply = Moved string | MethodNotAllowed | Served answer

definition reply_of :: "(response_writer \<times> ('t, 's, 'k) conn_state) result \<Rightarrow> ('t, 's, 'k) server_state
    \<Rightarrow> http_reply \<times> ('t, 's, 'k) server_state" where
  "reply_of res sv =
     (case res of
        Ok (w, sv', None) \<Rightarrow> (Served (Answered w), sv')
      | Ok (w, sv', Some e) \<Rightarrow> (Served (Failed e), sv')
      | Err e \<Rightarrow> (Served (Failed e), sv)
      | Panic e \<Rightarrow> (Served (Failed e), sv))"

definition serve_http ::
  "mux_env \<Rightarrow> ('t, 'j, 's, 'm, 'k, 'v) server_setup \<Rightarrow> int \<Rightarrow> request \<Rightarrow> ('t, 's, 'k) server_state
     \<Rightarrow> http_reply \<times> ('t, 's, 'k) server_state" where
  "serve_http mx su now r sv =
     (if muxClean mx (urlPath r) \<noteq> urlPath r then (Moved (muxClean mx (urlPath r)), sv)
      else case find_route mx now (SetupRouter su) False r (sv, None) of
          (Found h r', c) \<Rightarrow>
            reply_of (BasicAuthMiddleware (APIPathPrefix (suConfig su)) (APIUsername (suConfig su))
              (APIPassword (suConfig su)) h r' new_writer c) (fst c)
        | (NoRoute, c) \<Rightarrow> (Served NotFound, fst c)
        | (MethodMismatch, c) \<Rightarrow> (MethodNotAllowed, fst c)
        | (MatcherPanic e, c) \<Rightarrow> (Served (Failed e), fst c))"

end
