(* ===== verification/Lifecycle.thy ===== *)
theory Lifecycle
  imports Starter
begin

text \<open>
  The life of the server process after its router is set up (the end of \<open>SetupRouter\<close>,
  \<open>DefaultServing\<close> and \<open>DefaultShutdown\<close> of \<open>mockgo/starter/starter.go\<close>): the
  goroutine that waits for a signal, the goroutine that serves, the one that waits for the group's
  context and shuts everything down, and \<open>SetupRouter\<close> itself waiting for both. A step
  function gives the state after an event, or none when the event cannot happen in a state.
  Of \<open>net/http\<close> it has what \<open>ListenAndServe\<close> and \<open>Shutdown\<close> document: the first
  returns an error always, \<open>ErrServerClosed\<close> after \<open>Shutdown\<close> was called, the
  second closes the listener and waits for the active requests without a limit.
\<close>

section \<open>The state\<close>

datatype serving_phase =
  BeforeServing        \<comment> \<open>\<open>server\<close> is still nil\<close>
| BeforeListen         \<comment> \<open>\<open>server\<close> is assigned\<close>
| Accepting
| ServingReturned

datatype shutdown_phase =
  AwaitDone | AtMatchstore | AtKVStore | AtServer | InShutdown | ShutdownReturned

datatype exit_status = Running | Returned "error option" | Crashed error

record ('s, 'k) lifecycle =
  lcSignal :: bool                     \<comment> \<open>a signal is in \<open>StopChannel\<close>\<close>
  lcCancelled :: bool                  \<comment> \<open>\<open>cancel\<close> has been called\<close>
  lcServing :: serving_phase
  lcShutdown :: shutdown_phase
  lcActive :: nat                      \<comment> \<open>requests in their handlers\<close>
  lcGroupErr :: "error option"         \<comment> \<open>the first error of the group\<close>
  lcMatchstore :: 's
  lcKVStore :: 'k
  lcLog :: "string list"
  lcExit :: exit_status

definition ErrServerClosed :: error where "ErrServerClosed = ''http: Server closed''"

text \<open>The group keeps the first error, which also ends its context.\<close>

definition group_error :: "error option \<Rightarrow> error option \<Rightarrow> error option" where
  "group_error old new = (case old of None \<Rightarrow> new | Some e \<Rightarrow> Some e)"

definition group_done :: "('s, 'k) lifecycle \<Rightarrow> bool" where
  "group_done s \<longleftrightarrow> lcCancelled s \<or> lcGroupErr s \<noteq> None"

definition shutting_down :: "('s, 'k) lifecycle \<Rightarrow> bool" where
  "shutting_down s \<longleftrightarrow> lcShutdown s = InShutdown \<or> lcShutdown s = ShutdownReturned"

section \<open>The steps\<close>

datatype lc_event =
  SignalArrives
| CancelContext                        \<comment> \<open>the first goroutine\<close>
| AssignServer                         \<comment> \<open>\<open>DefaultServing\<close>\<close>
| Listen "error option"                \<comment> \<open>what \<open>net.Listen\<close> answers\<close>
| AcceptRequest
| RequestEnds
| AcceptFails error
| ServeClosed
| SeeDone                              \<comment> \<open>the second function of the group\<close>
| ShutdownMatchstore
| ShutdownKVStore
| CallShutdown
| ShutdownReturns
| WaitReturns

definition serving_returns :: "error \<Rightarrow> ('s, 'k) lifecycle \<Rightarrow> ('s, 'k) lifecycle" where
  "serving_returns e s =
     s\<lparr>lcServing := ServingReturned, lcGroupErr := group_error (lcGroupErr s) (Some e)\<rparr>"

definition DefaultServing :: "lc_event \<Rightarrow> ('s, 'k) lifecycle \<Rightarrow> ('s, 'k) lifecycle option" where
  "DefaultServing ev s =
     (case ev of
        AssignServer \<Rightarrow>
          if lcServing s = BeforeServing
          then Some (s\<lparr>lcServing := BeforeListen, lcLog := lcLog s @ [''serving http  ...'']\<rparr>) else None
      | Listen answer \<Rightarrow>
          if lcServing s \<noteq> BeforeListen then None
          else if shutting_down s then Some (serving_returns ErrServerClosed s)
          else (case answer of
                  Some e \<Rightarrow> Some (serving_returns e s)
                | None \<Rightarrow> Some (s\<lparr>lcServing := Accepting\<rparr>))
      | AcceptFails e \<Rightarrow>
          if lcServing s = Accepting \<and> \<not> shutting_down s then Some (serving_returns e s) else None
      | ServeClosed \<Rightarrow>
          if lcServing s = Accepting \<and> shutting_down s then Some (serving_returns ErrServerClosed s) else None
      | _ \<Rightarrow> None)"

text \<open>\<open>logged\<close> is what the two error branches write; the error does not stop the shutdown.\<close>

definition logged :: "string \<Rightarrow> error option \<Rightarrow> string list" where
  "logged what err = (case err of None \<Rightarrow> [] | Some e \<Rightarrow> [''can'' @ [CHR 0x27] @ ''t shutdown '' @ what])"

definition shutdown_steps ::
  "('s, 'm, 'mm) Matchstore \<Rightarrow> ('k, 'v) Storage \<Rightarrow> lc_event \<Rightarrow> ('s, 'k) lifecycle
     \<Rightarrow> ('s, 'k) lifecycle option" where
  "shutdown_steps ms st ev s =
     (case ev of
        SeeDone \<Rightarrow>
          if lcShutdown s = AwaitDone \<and> group_done s then Some (s\<lparr>lcShutdown := AtMatchstore\<rparr>) else None
      | ShutdownMatchstore \<Rightarrow>
          if lcShutdown s = AtMatchstore
          then (case Shutdown ms (lcMatchstore s) of
                  (store, err) \<Rightarrow>
                    Some (s\<lparr>lcShutdown := AtKVStore, lcMatchstore := store,
                       lcLog := lcLog s @ [''shutting down matchstore ...''] @ logged ''matchstore'' err\<rparr>))
          else None
      | ShutdownKVStore \<Rightarrow>
          if lcShutdown s = AtKVStore
          then (case ShutdownStorage st (lcKVStore s) of
                  (store, err) \<Rightarrow>
                    Some (s\<lparr>lcShutdown := AtServer, lcKVStore := store,
                       lcLog := lcLog s @ [''shutting down kvstore ...''] @ logged ''kvstore'' err\<rparr>))
          else None
      | _ \<Rightarrow> None)"

text \<open>\<open>server.Shutdown\<close> dereferences a server that is still nil; otherwise it closes the listener,
  waits for the active requests and returns what closing the listener gave.\<close>

definition DefaultShutdown ::
  "error option \<Rightarrow> lc_event \<Rightarrow> ('s, 'k) lifecycle \<Rightarrow> ('s, 'k) lifecycle option" where
  "DefaultShutdown closed ev s =
     (case ev of
        CallShutdown \<Rightarrow>
          if lcShutdown s \<noteq> AtServer then None
          else if lcServing s = BeforeServing
          then Some (s\<lparr>lcLog := lcLog s @ [''shutting down http server ...''], lcExit := Crashed nil_deref\<rparr>)
          else Some (s\<lparr>lcShutdown := InShutdown, lcLog := lcLog s @ [''shutting down http server ...'']\<rparr>)
      | ShutdownReturns \<Rightarrow>
          if lcShutdown s = InShutdown \<and> lcActive s = 0
          then Some (s\<lparr>lcShutdown := ShutdownReturned, lcGroupErr := group_error (lcGroupErr s) closed\<rparr>)
          else None
      | _ \<Rightarrow> None)"

definition other_steps :: "lc_event \<Rightarrow> ('s, 'k) lifecycle \<Rightarrow> ('s, 'k) lifecycle option" where
  "other_steps ev s =
     (case ev of
        SignalArrives \<Rightarrow> Some (s\<lparr>lcSignal := True\<rparr>)
      | CancelContext \<Rightarrow>
          if lcSignal s \<and> \<not> lcCancelled s then Some (s\<lparr>lcSignal := False, lcCancelled := True\<rparr>) else None
      | AcceptRequest \<Rightarrow>
          if lcServing s = Accepting \<and> \<not> shutting_down s
          then Some (s\<lparr>lcActive := lcActive s + 1\<rparr>) else None
      | RequestEnds \<Rightarrow> if 0 < lcActive s then Some (s\<lparr>lcActive := lcActive s - 1\<rparr>) else None
      | WaitReturns \<Rightarrow>
          if lcServing s = ServingReturned \<and> lcShutdown s = ShutdownReturned
          then Some (s\<lparr>lcExit := Returned (lcGroupErr s),
                 lcLog := lcLog s @ (if lcGroupErr s \<noteq> None then [''exit ''] else [])\<rparr>)
          else None
      | _ \<Rightarrow> None)"

definition lc_step ::
  "('s, 'm, 'mm) Matchstore \<Rightarrow> ('k, 'v) Storage \<Rightarrow> error option \<Rightarrow> lc_event \<Rightarrow> ('s, 'k) lifecycle
     \<Rightarrow> ('s, 'k) lifecycle option" where
  "lc_step ms st closed ev s =
     (if lcExit s \<noteq> Running then None
      else case DefaultServing ev s of
        Some s' \<Rightarrow> Some s'
      | None \<Rightarrow>
          (case shutdown_steps ms st ev s of
             Some s' \<Rightarrow> Some s'
           | None \<Rightarrow> (case DefaultShutdown closed ev s of Some s' \<Rightarrow> Some s' | None \<Rightarrow> other_steps ev s)))"

primrec lc_run ::
  "('s, 'm, 'mm) Matchstore \<Rightarrow> ('k, 'v) Storage \<Rightarrow> error option \<Rightarrow> lc_event list \<Rightarrow> ('s, 'k) lifecycle
     \<Rightarrow> ('s, 'k) lifecycle option" where
  "lc_run ms st closed [] s = Some s"
| "lc_run ms st closed (ev # evs) s =
     (case lc_step ms st closed ev s of None \<Rightarrow> None | Some s' \<Rightarrow> lc_run ms st closed evs s')"

text \<open>The process up to the start of the goroutines: the configuration text is logged, the mock files
  are loaded; a file that cannot be loaded ends the process, as a panic does. (\<open>Boot\<close> has the rest of
  what comes before the goroutines.)\<close>

definition first_state :: "string \<Rightarrow> 's \<Rightarrow> 'k \<Rightarrow> ('s, 'k) lifecycle" where
  "first_state info store kv =
     \<lparr>lcSignal = False, lcCancelled = False, lcServing = BeforeServing, lcShutdown = AwaitDone,
      lcActive = 0, lcGroupErr = None, lcMatchstore = store, lcKVStore = kv, lcLog = [info], lcExit = Running\<rparr>"

definition mockfiles_error :: error where
  "mockfiles_error = ''can'' @ [CHR 0x27] @ ''t load mockfiles''"

definition boot ::
  "BasicConfiguration \<Rightarrow> string \<Rightarrow> 't epSearchNode result \<Rightarrow> 's \<Rightarrow> 'k \<Rightarrow> ('s, 'k) lifecycle result" where
  "boot c configInfo loaded store kv =
     bind_result (Info c) (\<lambda>info.
       case loaded of
         Err e \<Rightarrow> Err mockfiles_error
       | Panic p \<Rightarrow> Panic p
       | Ok tree \<Rightarrow> Ok (first_state (info @ configInfo) store kv))"

end
