(* ===== verification/Redis.thy ===== *)
theory Redis
  imports InMemory KVHandler GrpcKVStore
begin

text \<open>
  The stores of the redis variant (\<open>mockgo-redis/matchstore/matchstore.go\<close> and
  \<open>mockgo-redis/kvstore/kvstore.go\<close>). The client of the redis server is an argument: a
  record of the commands the code sends. What the code relies on is stated by \<open>list_laws\<close>,
  \<open>string_laws\<close> and \<open>hash_laws\<close>: the documented effect of these commands on a server that can
  be reached. Encoding of matches is an argument, too.
\<close>

section \<open>The commands of the server\<close>

record 's redis =
  rRPush :: "string \<Rightarrow> string \<Rightarrow> 's \<Rightarrow> 's \<times> error option"
  rLLen :: "string \<Rightarrow> 's \<Rightarrow> int"
  rLPop :: "string \<Rightarrow> 's \<Rightarrow> 's \<times> error option"
  rLRange :: "string \<Rightarrow> 's \<Rightarrow> error + string list"        \<comment> \<open>from 0 to -1\<close>
  rDel :: "string \<Rightarrow> 's \<Rightarrow> 's \<times> error option"
  rSet :: "string \<Rightarrow> string \<Rightarrow> 's \<Rightarrow> 's \<times> error option"
  rIncr :: "string \<Rightarrow> 's \<Rightarrow> 's \<times> error option"
  rGet :: "string \<Rightarrow> 's \<Rightarrow> error + string"
  rHSet :: "string \<Rightarrow> string \<Rightarrow> string \<Rightarrow> 's \<Rightarrow> 's \<times> error option"
  rHGet :: "string \<Rightarrow> string \<Rightarrow> 's \<Rightarrow> error + string"
  rHGetAll :: "string \<Rightarrow> 's \<Rightarrow> error + (string, string) entries"
  rPing :: "'s \<Rightarrow> error option"
  rClose :: "'s \<Rightarrow> 's \<times> error option"

record match_codec =
  marshal_match :: "Match \<Rightarrow> error + string"
  unmarshal_match :: "string \<Rightarrow> error + Match"
  marshal_mismatch :: "Mismatch \<Rightarrow> error + string"
  unmarshal_mismatch :: "string \<Rightarrow> error + Mismatch"

definition mismatchesKey :: string where "mismatchesKey = ''__mismatches__''"
definition counterKey :: string where "counterKey = ''__counter__''"

section \<open>The match store\<close>

text \<open>The decoding loop; it stops at the first error.\<close>

primrec decode_all :: "(string \<Rightarrow> error + 'a) \<Rightarrow> string list \<Rightarrow> 'a list result" where
  "decode_all dec [] = Ok []"
| "decode_all dec (v # vs) =
     (case dec v of
        Inl e \<Rightarrow> Err e
      | Inr x \<Rightarrow> bind_result (decode_all dec vs) (\<lambda>xs. Ok (x # xs)))"

text \<open>\<open>StringCmd.Uint64\<close>.\<close>

definition parse_uint64 :: "string \<Rightarrow> 64 word result" where
  "parse_uint64 s =
     (case parse_nat s of
        None \<Rightarrow> Err (''strconv.ParseUint: parsing '' @ quoted s @ '': invalid syntax'')
      | Some n \<Rightarrow> if int n < 2 ^ 64 then Ok (of_nat n)
                  else Err (''strconv.ParseUint: parsing '' @ quoted s @ '': value out of range''))"

definition r_list :: "'s redis \<Rightarrow> (string \<Rightarrow> error + 'a) \<Rightarrow> string \<Rightarrow> 's \<Rightarrow> 'a list result" where
  "r_list db dec key s =
     (case rLRange db key s of Inl e \<Rightarrow> Err e | Inr vs \<Rightarrow> decode_all dec vs)"

definition r_count :: "'s redis \<Rightarrow> string \<Rightarrow> 's \<Rightarrow> 64 word result" where
  "r_count db key s =
     (case rGet db (key @ counterKey) s of Inl e \<Rightarrow> Err e | Inr v \<Rightarrow> parse_uint64 v)"

definition r_GetMatches :: "'s redis \<Rightarrow> match_codec \<Rightarrow> string \<Rightarrow> 's \<Rightarrow> Match list result" where
  "r_GetMatches db mc endpointID s = r_list db (unmarshal_match mc) endpointID s"

definition r_GetMatchesCount :: "'s redis \<Rightarrow> string \<Rightarrow> 's \<Rightarrow> 64 word result" where
  "r_GetMatchesCount db endpointID s = r_count db endpointID s"

definition r_GetMismatches :: "'s redis \<Rightarrow> match_codec \<Rightarrow> 's \<Rightarrow> Mismatch list result" where
  "r_GetMismatches db mc s = r_list db (unmarshal_mismatch mc) mismatchesKey s"

definition r_GetMismatchesCount :: "'s redis \<Rightarrow> 's \<Rightarrow> 64 word result" where
  "r_GetMismatchesCount db s = r_count db mismatchesKey s"

text \<open>Pushing an encoded element to a list, cutting the list, and counting; every error ends it.\<close>

definition r_push :: "'s redis \<Rightarrow> 16 word \<Rightarrow> string \<Rightarrow> string \<Rightarrow> 's \<Rightarrow> 's \<times> error option" where
  "r_push db cap key mval s =
     (case rRPush db key mval s of
        (s1, Some e) \<Rightarrow> (s1, Some e)
      | (s1, None) \<Rightarrow>
          (case (if rLLen db key s1 > int (unat cap) then rLPop db key s1 else (s1, None)) of
             (s2, Some e) \<Rightarrow> (s2, Some e)
           | (s2, None) \<Rightarrow> rIncr db (key @ counterKey) s2))"

definition r_AddMatch ::
  "'s redis \<Rightarrow> match_codec \<Rightarrow> 16 word \<Rightarrow> string \<Rightarrow> Match \<Rightarrow> 's \<Rightarrow> 's \<times> error option" where
  "r_AddMatch db mc cap endpointID m s =
     (case marshal_match mc m of Inl e \<Rightarrow> (s, Some e) | Inr mval \<Rightarrow> r_push db cap endpointID mval s)"

definition r_AddMismatch ::
  "'s redis \<Rightarrow> match_codec \<Rightarrow> 16 word \<Rightarrow> Mismatch \<Rightarrow> 's \<Rightarrow> 's \<times> error option" where
  "r_AddMismatch db mc cap mm s =
     (case marshal_mismatch mc mm of Inl e \<Rightarrow> (s, Some e) | Inr mval \<Rightarrow> r_push db cap mismatchesKey mval s)"

definition r_clear :: "'s redis \<Rightarrow> string \<Rightarrow> 's \<Rightarrow> 's \<times> error option" where
  "r_clear db key s =
     (case rDel db key s of
        (s1, Some e) \<Rightarrow> (s1, Some e)
      | (s1, None) \<Rightarrow> rSet db (key @ counterKey) ''0'' s1)"

definition r_DeleteMatches :: "'s redis \<Rightarrow> string \<Rightarrow> 's \<Rightarrow> 's \<times> error option" where
  "r_DeleteMatches db endpointID s = r_clear db endpointID s"

definition r_DeleteMismatches :: "'s redis \<Rightarrow> 's \<Rightarrow> 's \<times> error option" where
  "r_DeleteMismatches db s = r_clear db mismatchesKey s"

definition redis_store :: "'s redis \<Rightarrow> match_codec \<Rightarrow> 16 word \<Rightarrow> ('s, Match, Mismatch) Matchstore" where
  "redis_store db mc cap =
     \<lparr>GetMatches = r_GetMatches db mc, GetMatchesCount = r_GetMatchesCount db,
      GetMismatches = r_GetMismatches db mc, AddMatch = r_AddMatch db mc cap,
      AddMismatch = r_AddMismatch db mc cap, GetMismatchesCount = r_GetMismatchesCount db,
      DeleteMatches = r_DeleteMatches db, DeleteMismatches = r_DeleteMismatches db,
      Shutdown = rClose db\<rparr>"

section \<open>The key-value store\<close>

definition rs_Put ::
  "'s redis \<Rightarrow> 'v json_codec \<Rightarrow> string \<Rightarrow> string \<Rightarrow> 'v option \<Rightarrow> 's \<Rightarrow> 's \<times> error option" where
  "rs_Put db js store key val s =
     (case marshal_any js val of Inl e \<Rightarrow> (s, Some e) | Inr mval \<Rightarrow> rHSet db store key mval s)"

definition rs_Get :: "'s redis \<Rightarrow> 'v json_codec \<Rightarrow> string \<Rightarrow> string \<Rightarrow> 's \<Rightarrow> 'v option result" where
  "rs_Get db js store key s =
     (case rHGet db store key s of
        Inl e \<Rightarrow> Err e
      | Inr text \<Rightarrow> (case jUnmarshal js text of Inl e \<Rightarrow> Err e | Inr v \<Rightarrow> Ok v))"

text \<open>The loop over the fields; the map is built from the decoded pairs.\<close>

primrec decode_fields ::
  "'v json_codec \<Rightarrow> (string, string) entries \<Rightarrow> (string \<rightharpoonup> 'v option) \<Rightarrow> (string \<rightharpoonup> 'v option) result" where
  "decode_fields js [] m = Ok m"
| "decode_fields js (f # fs) m =
     (case jUnmarshal js (snd f) of
        Inl e \<Rightarrow> Err e
      | Inr v \<Rightarrow> decode_fields js fs (m(fst f \<mapsto> v)))"

definition rs_GetAll :: "'s redis \<Rightarrow> 'v json_codec \<Rightarrow> string \<Rightarrow> 's \<Rightarrow> (string, 'v option) gomap result" where
  "rs_GetAll db js store s =
     (case rHGetAll db store s of
        Inl e \<Rightarrow> Err e
      | Inr fvs \<Rightarrow> bind_result (decode_fields js fvs Map.empty) (\<lambda>m. Ok (Some m)))"

definition redis_storage :: "'s redis \<Rightarrow> 'v json_codec \<Rightarrow> ('s, 'v) Storage" where
  "redis_storage db js =
     \<lparr>GetAll = rs_GetAll db js, Put = rs_Put db js, Get = rs_Get db js, ShutdownStorage = rClose db\<rparr>"

section \<open>The constructors\<close>

text \<open>The options of a client, durations in nanoseconds; creating a client is an argument, and
  \<open>checkConnectivity\<close> sends a \<open>PING\<close>.\<close>

record RedisOptions =
  roAddr :: string
  roPassword :: string
  roDB :: int
  roMaxRetries :: int
  roMinRetryBackoff :: int
  roMaxRetryBackoff :: int

definition redis_options :: "string \<Rightarrow> string \<Rightarrow> int \<Rightarrow> RedisOptions" where
  "redis_options address password db =
     \<lparr>roAddr = address, roPassword = password, roDB = db, roMaxRetries = 30,
      roMinRetryBackoff = 500 * 10 ^ 6, roMaxRetryBackoff = 2 * 10 ^ 9\<rparr>"

definition checkConnectivity :: "'s redis \<Rightarrow> 's \<Rightarrow> error option" where
  "checkConnectivity client s = rPing client s"

definition NewRedisMatchstore ::
  "(RedisOptions \<Rightarrow> 's redis) \<Rightarrow> match_codec \<Rightarrow> string \<Rightarrow> string \<Rightarrow> int \<Rightarrow> 16 word \<Rightarrow> 's
     \<Rightarrow> error + ('s, Match, Mismatch) Matchstore" where
  "NewRedisMatchstore newClient mc address password db capacity s =
     (let client = newClient (redis_options address password db)
      in case checkConnectivity client s of Some err \<Rightarrow> Inl err | None \<Rightarrow> Inr (redis_store client mc capacity))"

definition NewRedisStorage ::
  "(RedisOptions \<Rightarrow> 's redis) \<Rightarrow> 'v json_codec \<Rightarrow> string \<Rightarrow> string \<Rightarrow> int \<Rightarrow> 's \<Rightarrow> error + ('s, 'v) Storage" where
  "NewRedisStorage newClient js address password db s =
     (let client = newClient (redis_options address password db)
      in case checkConnectivity client s of Some err \<Rightarrow> Inl err | None \<Rightarrow> Inr (redis_storage client js))"

section \<open>The operations of the two stores\<close>

lemma redis_store_sel [simp]:
  "GetMatches (redis_store db mc cap) = r_GetMatches db mc"
  "GetMatchesCount (redis_store db mc cap) = r_GetMatchesCount db"
  "GetMismatches (redis_store db mc cap) = r_GetMismatches db mc"
  "AddMatch (redis_store db mc cap) = r_AddMatch db mc cap"
  "AddMismatch (redis_store db mc cap) = r_AddMismatch db mc cap"
  "GetMismatchesCount (redis_store db mc cap) = r_GetMismatchesCount db"
  "DeleteMatches (redis_store db mc cap) = r_DeleteMatches db"
  "DeleteMismatches (redis_store db mc cap) = r_DeleteMismatches db"
  by (simp_all add: redis_store_def)

lemma redis_storage_sel [simp]:
  "GetAll (redis_storage db js) = rs_GetAll db js"
  "Put (redis_storage db js) = rs_Put db js"
  "Get (redis_storage db js) = rs_Get db js"
  by (simp_all add: redis_storage_def)

section \<open>What the code relies on\<close>

text \<open>The data a key of the server can hold. A list is never empty: its key goes away with the
  last element.\<close>

datatype redis_value = RList "string list" | RString string | RHash "string \<rightharpoonup> string"

definition list_value :: "string list \<Rightarrow> redis_value option" where
  "list_value l = (if l = [] then None else Some (RList l))"

definition list_at :: "redis_value option \<Rightarrow> string list option" where
  "list_at v = (case v of None \<Rightarrow> Some [] | Some (RList l) \<Rightarrow> Some l | _ \<Rightarrow> None)"

definition hash_at :: "redis_value option \<Rightarrow> (string \<rightharpoonup> string) option" where
  "hash_at v = (case v of None \<Rightarrow> Some Map.empty | Some (RHash h) \<Rightarrow> Some h | _ \<Rightarrow> None)"

definition redis_nil :: error where "redis_nil = ''redis: nil''"

text \<open>\<open>view\<close> is the key space. A command on a key that is absent or of the right kind succeeds
  with its documented effect and touches no other key.\<close>

definition list_laws :: "'s redis \<Rightarrow> ('s \<Rightarrow> string \<rightharpoonup> redis_value) \<Rightarrow> bool" where
  "list_laws db view \<longleftrightarrow>
     (\<forall>s k l. list_at (view s k) = Some l \<longrightarrow>
        (\<forall>v. \<exists>s'. rRPush db k v s = (s', None) \<and> view s' = (view s)(k := list_value (l @ [v])))
        \<and> rLLen db k s = int (length l)
        \<and> (l \<noteq> [] \<longrightarrow> (\<exists>s'. rLPop db k s = (s', None) \<and> view s' = (view s)(k := list_value (tl l))))
        \<and> rLRange db k s = Inr l)"

definition string_laws :: "'s redis \<Rightarrow> ('s \<Rightarrow> string \<rightharpoonup> redis_value) \<Rightarrow> bool" where
  "string_laws db view \<longleftrightarrow>
     (\<forall>s k. \<exists>s'. rDel db k s = (s', None) \<and> view s' = (view s)(k := None))
     \<and> (\<forall>s k v. \<exists>s'. rSet db k v s = (s', None) \<and> view s' = (view s)(k \<mapsto> RString v))
     \<and> (\<forall>s k. view s k = None \<longrightarrow> rGet db k s = Inl redis_nil
          \<and> (\<exists>s'. rIncr db k s = (s', None) \<and> view s' = (view s)(k \<mapsto> RString (itoa 1))))
     \<and> (\<forall>s k v. view s k = Some (RString v) \<longrightarrow> rGet db k s = Inr v
          \<and> (\<forall>i. v = itoa i \<and> - (2 ^ 63) \<le> i \<and> i + 1 < 2 ^ 63 \<longrightarrow>
               (\<exists>s'. rIncr db k s = (s', None) \<and> view s' = (view s)(k \<mapsto> RString (itoa (i + 1))))))"

definition hash_laws :: "'s redis \<Rightarrow> ('s \<Rightarrow> string \<rightharpoonup> redis_value) \<Rightarrow> bool" where
  "hash_laws db view \<longleftrightarrow>
     (\<forall>s k h. hash_at (view s k) = Some h \<longrightarrow>
        (\<forall>f v. \<exists>s'. rHSet db k f v s = (s', None) \<and> view s' = (view s)(k \<mapsto> RHash (h(f \<mapsto> v))))
        \<and> (\<forall>f. rHGet db k f s = (case h f of None \<Rightarrow> Inl redis_nil | Some v \<Rightarrow> Inr v))
        \<and> (\<exists>fs. rHGetAll db k s = Inr fs \<and> map_of fs = h \<and> distinct (map fst fs)))"

end
