(* ===== verification/RedisProps.thy ===== *)
theory RedisProps
  imports Redis
begin

text \<open>
  What the redis stores guarantee on a server that keeps the documented laws: the match store
  holds the last matches of every endpoint and counts them, the key-value store keeps the
  contract of a storage; and where they answer differently from the in-memory stores.
\<close>

section \<open>The key-value store keeps the contract\<close>

definition decodable :: "'v json_codec \<Rightarrow> (string \<rightharpoonup> redis_value) \<Rightarrow> bool" where
  "decodable js ks \<longleftrightarrow>
     (\<forall>a. \<exists>h. hash_at (ks a) = Some h \<and> (\<forall>f v. h f = Some v \<longrightarrow> (\<exists>x. jUnmarshal js v = Inr x)))"

lemma rs_Get_hash:
  assumes "hash_laws db view" and "hash_at (view s a) = Some h"
  shows "rs_Get db js a k s =
    (case h k of None \<Rightarrow> Err redis_nil
     | Some v \<Rightarrow> (case jUnmarshal js v of Inl e \<Rightarrow> Err e | Inr x \<Rightarrow> Ok x))"
  using assms by (auto simp: hash_laws_def rs_Get_def split: option.split)

lemma rs_Put_hash:
  assumes "hash_laws db view" and "hash_at (view s a) = Some h"
    and "marshal_any js v = Inr json"
  shows "\<exists>s'. rs_Put db js a k v s = (s', None) \<and> view s' = (view s)(a \<mapsto> RHash (h(k \<mapsto> json)))"
  using assms by (simp add: hash_laws_def rs_Put_def)

lemma hash_at_RHash [simp]: "hash_at (Some (RHash h)) = Some h"
  by (simp add: hash_at_def)

lemma redis_storage_contract:
  fixes js :: "'v json_codec"
  assumes laws: "hash_laws db view" and js: "faithful js"
  shows "storage_contract (redis_storage db js) (\<lambda>s. decodable js (view s))"
proof
  fix s a k and v :: "'v option"
  assume inv: "decodable js (view s)"
  obtain h where h: "hash_at (view s a) = Some h" "\<forall>f v. h f = Some v \<longrightarrow> (\<exists>x. jUnmarshal js v = Inr x)"
    using inv unfolding decodable_def by blast
  obtain json where json: "marshal_any js v = Inr json" "jUnmarshal js json = Inr v"
    using js by (auto simp: faithful_def transmitted_iff)
  obtain s' where s': "rs_Put db js a k v s = (s', None)" "view s' = (view s)(a \<mapsto> RHash (h(k \<mapsto> json)))"
    using rs_Put_hash [OF laws h(1) json(1)] by blast
  show "snd (Put (redis_storage db js) a k v s) = None" by (simp add: s')
  show "decodable js (view (fst (Put (redis_storage db js) a k v s)))"
    using inv h(2) json(2) by (auto simp: s' decodable_def)
  fix a' k'
  obtain h' where h': "hash_at (view s a') = Some h'" using inv unfolding decodable_def by blast
  have "hash_at (view s' a') = Some (if a' = a then h(k \<mapsto> json) else h')"
    using h' by (simp add: s')
  from rs_Get_hash [OF laws this, of js k'] rs_Get_hash [OF laws h', of js k'] h h' json(2)
  show "Get (redis_storage db js) a' k' (fst (Put (redis_storage db js) a k v s)) =
      (if a' = a \<and> k' = k then Ok v else Get (redis_storage db js) a' k' s)"
    by (auto simp: s')
qed

section \<open>The lists of the match store\<close>

definition holds :: "16 word \<Rightarrow> (string \<rightharpoonup> redis_value) \<Rightarrow> string \<Rightarrow> string list \<Rightarrow> bool \<Rightarrow> bool" where
  "holds cap ks key h counted \<longleftrightarrow>
     ks key = list_value (last_n (unat cap) h)
     \<and> ks (key @ counterKey) = (if counted then Some (RString (itoa (int (length h)))) else None)
     \<and> (\<not> counted \<longrightarrow> h = [])"

lemma list_at_list_value [simp]: "list_at (list_value l) = Some l"
  by (simp add: list_value_def list_at_def)

lemma key_counter [simp]: "key @ counterKey \<noteq> key" "key \<noteq> key @ counterKey"
  by (simp_all add: counterKey_def)

lemma counterKey_not_Nil [simp]: "counterKey \<noteq> []"
  by (simp add: counterKey_def)

lemma last_n_short: "length h < n \<Longrightarrow> last_n n h @ [x] = last_n n (h @ [x])"
  by (simp add: last_n_def)

lemma rIncr_holds:
  assumes "string_laws db view" and "view s (key @ counterKey) =
      (if counted then Some (RString (itoa (int n))) else None)"
    and "\<not> counted \<longrightarrow> n = 0" and "int n + 1 < 2 ^ 63"
  shows "\<exists>s'. rIncr db (key @ counterKey) s = (s', None)
    \<and> view s' = (view s)(key @ counterKey \<mapsto> RString (itoa (int n + 1)))"
  using assms by (cases counted) (auto simp: string_laws_def)

lemma r_push_holds:
  assumes ll: "list_laws db view" and sl: "string_laws db view"
    and h: "holds cap (view s) key h counted" and len: "int (length h) + 1 < 2 ^ 63"
  shows "\<exists>s'. r_push db cap key v s = (s', None) \<and> holds cap (view s') key (h @ [v]) True
    \<and> (\<forall>k. k \<noteq> key \<longrightarrow> k \<noteq> key @ counterKey \<longrightarrow> view s' k = view s k)"
proof -
  let ?l = "last_n (unat cap) h"
  have "list_at (view s key) = Some ?l" using h by (simp add: holds_def)
  then obtain s1 where s1: "rRPush db key v s = (s1, None)" "view s1 = (view s)(key := list_value (?l @ [v]))"
    using ll unfolding list_laws_def by blast
  have at1: "list_at (view s1 key) = Some (?l @ [v])" by (simp add: s1)
  then have llen: "rLLen db key s1 = int (Suc (min (unat cap) (length h)))"
    using ll unfolding list_laws_def by (fastforce simp: length_last_n)
  obtain s2 where s2: "(if rLLen db key s1 > int (unat cap) then rLPop db key s1 else (s1, None)) = (s2, None)"
    "view s2 = (view s)(key := list_value (last_n (unat cap) (h @ [v])))"
  proof (cases "unat cap \<le> length h")
    case True
    obtain s2 where "rLPop db key s1 = (s2, None)" "view s2 = (view s1)(key := list_value (tl (?l @ [v])))"
      using ll at1 unfolding list_laws_def by blast
    with True that [of s2] show ?thesis by (simp add: llen s1 last_n_snoc)
  next
    case False
    then have "1 + int (length h) \<le> int (unat cap)" by linarith
    with False that [of s1] show ?thesis by (simp add: llen s1 last_n_short)
  qed
  have cnt: "view s2 (key @ counterKey) = (if counted then Some (RString (itoa (int (length h)))) else None)"
    and un: "\<not> counted \<longrightarrow> length h = 0"
    using h by (auto simp: s2 holds_def)
  obtain s3 where s3: "rIncr db (key @ counterKey) s2 = (s3, None)"
    "view s3 = (view s2)(key @ counterKey \<mapsto> RString (itoa (int (length h) + 1)))"
    using rIncr_holds [OF sl cnt un len] by blast
  have "r_push db cap key v s = (s3, None)"
    by (simp only: r_push_def s1(1) s2(1) s3(1) prod.case option.case)
  moreover have "holds cap (view s3) key (h @ [v]) True" by (simp add: holds_def s3 s2 add.commute)
  ultimately show ?thesis by (simp add: s3 s2)
qed

lemma r_clear_holds:
  assumes "string_laws db view"
  shows "\<exists>s'. r_clear db key s = (s', None) \<and> holds cap (view s') key [] True
    \<and> (\<forall>k. k \<noteq> key \<longrightarrow> k \<noteq> key @ counterKey \<longrightarrow> view s' k = view s k)"
proof -
  obtain s1 where s1: "rDel db key s = (s1, None)" "view s1 = (view s)(key := None)"
    using assms unfolding string_laws_def by blast
  obtain s2 where s2: "rSet db (key @ counterKey) ''0'' s1 = (s2, None)"
    "view s2 = (view s1)(key @ counterKey \<mapsto> RString ''0'')"
    using assms unfolding string_laws_def by blast
  have "itoa 0 = ''0''" by code_simp
  with s1 s2 show ?thesis
    by (simp add: r_clear_def holds_def list_value_def last_n_def)
qed

lemma r_list_holds:
  assumes "list_laws db view" and "holds cap (view s) key h counted"
  shows "r_list db dec key s = decode_all dec (last_n (unat cap) h)"
proof -
  have "list_at (view s key) = Some (last_n (unat cap) h)" using assms(2) by (simp add: holds_def)
  then have "rLRange db key s = Inr (last_n (unat cap) h)"
    using assms(1) unfolding list_laws_def by blast
  then show ?thesis by (simp add: r_list_def)
qed

lemma parse_uint64_itoa: "int n < 2 ^ 63 \<Longrightarrow> parse_uint64 (itoa (int n)) = Ok (of_nat n)"
  by (simp add: parse_uint64_def itoa_def parse_nat_def parse_nat_digits)

lemma r_count_holds:
  assumes "string_laws db view" and "holds cap (view s) key h counted" and "int (length h) < 2 ^ 63"
  shows "r_count db key s = (if counted then Ok (of_nat (length h)) else Err redis_nil)"
proof (cases counted)
  case True
  then have "rGet db (key @ counterKey) s = Inr (itoa (int (length h)))"
    using assms by (auto simp: holds_def string_laws_def)
  with True assms(3) show ?thesis by (simp add: r_count_def parse_uint64_itoa)
next
  case False
  then have "rGet db (key @ counterKey) s = Inl redis_nil"
    using assms by (auto simp: holds_def string_laws_def)
  with False show ?thesis by (simp add: r_count_def)
qed

section \<open>The match store and its history\<close>

text \<open>An endpoint id whose keys cannot be confused with others.\<close>

definition clean_id :: "string \<Rightarrow> bool" where
  "clean_id ep \<longleftrightarrow> ep \<noteq> mismatchesKey \<and> \<not> has_suffix ep counterKey"

definition op_clean :: "(Match, Mismatch) store_op \<Rightarrow> bool" where
  "op_clean op = (case op of AddMatchOp ep m \<Rightarrow> clean_id ep | DeleteMatchesOp ep \<Rightarrow> clean_id ep | _ \<Rightarrow> True)"

text \<open>The keys an operation counts under.\<close>

definition op_keys :: "(Match, Mismatch) store_op \<Rightarrow> string set" where
  "op_keys op = (case op of AddMatchOp ep m \<Rightarrow> {ep} | DeleteMatchesOp ep \<Rightarrow> {ep}
     | AddMismatchOp mm \<Rightarrow> {mismatchesKey} | DeleteMismatchesOp \<Rightarrow> {mismatchesKey})"

lemma clean_keys:
  assumes "clean_id ep \<or> ep = mismatchesKey" and "clean_id ep' \<or> ep' = mismatchesKey" and "ep \<noteq> ep'"
  shows "ep \<noteq> ep' @ counterKey" "ep @ counterKey \<noteq> ep'" "ep @ counterKey \<noteq> ep' @ counterKey"
proof -
  have "\<not> has_suffix mismatchesKey counterKey" by code_simp
  then have "\<not> has_suffix k counterKey" if "clean_id k \<or> k = mismatchesKey" for k
    using that by (auto simp: clean_id_def)
  then show "ep \<noteq> ep' @ counterKey" "ep @ counterKey \<noteq> ep'"
    using assms(1,2) by (auto simp: has_suffix_iff)
qed (use assms(3) in simp)

text \<open>The codec is faithful on the matches and mismatches of the given sets.\<close>

definition codec_on :: "match_codec \<Rightarrow> Match set \<Rightarrow> Mismatch set \<Rightarrow> bool" where
  "codec_on mc M MM \<longleftrightarrow>
     (\<forall>m\<in>M. \<exists>b. marshal_match mc m = Inr b \<and> unmarshal_match mc b = Inr m)
     \<and> (\<forall>mm\<in>MM. \<exists>b. marshal_mismatch mc mm = Inr b \<and> unmarshal_mismatch mc b = Inr mm)"

definition op_in :: "Match set \<Rightarrow> Mismatch set \<Rightarrow> (Match, Mismatch) store_op \<Rightarrow> bool" where
  "op_in M MM op = (case op of AddMatchOp ep m \<Rightarrow> m \<in> M | AddMismatchOp mm \<Rightarrow> mm \<in> MM | _ \<Rightarrow> True)"

definition enc :: "('a \<Rightarrow> error + string) \<Rightarrow> 'a \<Rightarrow> string" where
  "enc f x = (case f x of Inl e \<Rightarrow> [] | Inr b \<Rightarrow> b)"

lemma codec_enc:
  assumes "codec_on mc M MM"
  shows "m \<in> M \<Longrightarrow> marshal_match mc m = Inr (enc (marshal_match mc) m)"
    and "m \<in> M \<Longrightarrow> unmarshal_match mc (enc (marshal_match mc) m) = Inr m"
    and "mm \<in> MM \<Longrightarrow> marshal_mismatch mc mm = Inr (enc (marshal_mismatch mc) mm)"
    and "mm \<in> MM \<Longrightarrow> unmarshal_mismatch mc (enc (marshal_mismatch mc) mm) = Inr mm"
  using assms by (auto simp: codec_on_def enc_def split: sum.splits)

definition redis_inv ::
  "match_codec \<Rightarrow> 16 word \<Rightarrow> (string \<rightharpoonup> redis_value) \<Rightarrow> (string \<Rightarrow> Match list) \<Rightarrow> Mismatch list
     \<Rightarrow> string set \<Rightarrow> bool" where
  "redis_inv mc cap ks hist mhist counted \<longleftrightarrow>
     (\<forall>ep. clean_id ep \<longrightarrow> holds cap ks ep (map (enc (marshal_match mc)) (hist ep)) (ep \<in> counted))
     \<and> holds cap ks mismatchesKey (map (enc (marshal_mismatch mc)) mhist) (mismatchesKey \<in> counted)"

lemma holds_frame:
  "holds cap ks key h c \<Longrightarrow> ks' key = ks key \<Longrightarrow> ks' (key @ counterKey) = ks (key @ counterKey) \<Longrightarrow>
   holds cap ks' key h c"
  by (simp add: holds_def)

text \<open>An operation that changes one key and its counter keeps what the other keys hold.\<close>

lemma redis_inv_change:
  assumes inv: "redis_inv mc cap ks hist mhist counted"
    and key: "clean_id key \<or> key = mismatchesKey"
    and frame: "\<forall>k. k \<noteq> key \<longrightarrow> k \<noteq> key @ counterKey \<longrightarrow> ks' k = ks k"
    and new: "if key = mismatchesKey then holds cap ks' key (map (enc (marshal_mismatch mc)) mhist') True
      else holds cap ks' key (map (enc (marshal_match mc)) (hist' key)) True"
    and hist: "\<forall>ep. ep \<noteq> key \<longrightarrow> hist' ep = hist ep" and mhist: "key \<noteq> mismatchesKey \<longrightarrow> mhist' = mhist"
    and counted: "counted' = insert key counted"
  shows "redis_inv mc cap ks' hist' mhist' counted'"
proof -
  have keep: "holds cap ks' k h c" if "holds cap ks k h c" "k \<noteq> key" "clean_id k \<or> k = mismatchesKey" for k h c
    using holds_frame [OF that(1)] frame clean_keys [OF that(3) key that(2)] that(2) by blast
  have mm: "\<not> clean_id mismatchesKey" by (simp add: clean_id_def)
  show ?thesis
    unfolding redis_inv_def
  proof (intro conjI allI impI)
    fix ep assume ep: "clean_id ep"
    show "holds cap ks' ep (map (enc (marshal_match mc)) (hist' ep)) (ep \<in> counted')"
    proof (cases "ep = key")
      case True
      with new ep mm counted show ?thesis by (auto split: if_splits)
    next
      case False
      have "holds cap ks ep (map (enc (marshal_match mc)) (hist ep)) (ep \<in> counted)"
        using inv ep by (simp add: redis_inv_def)
      from keep [OF this False] ep False hist counted show ?thesis by simp
    qed
  next
    show "holds cap ks' mismatchesKey (map (enc (marshal_mismatch mc)) mhist') (mismatchesKey \<in> counted')"
    proof (cases "key = mismatchesKey")
      case True
      with new counted show ?thesis by simp
    next
      case False
      have "holds cap ks mismatchesKey (map (enc (marshal_mismatch mc)) mhist) (mismatchesKey \<in> counted)"
        using inv by (simp add: redis_inv_def)
      from keep [OF this] False mhist counted show ?thesis by simp
    qed
  qed
qed

lemma redis_inv_step:
  assumes ll: "list_laws db view" and sl: "string_laws db view" and mc: "codec_on mc M MM" and mem: "op_in M MM op"
    and inv: "redis_inv mc cap (view s) hist mhist counted" and op: "op_clean op"
    and len: "\<forall>ep. int (length (hist ep)) + 1 < 2 ^ 63" "int (length mhist) + 1 < 2 ^ 63"
  shows "redis_inv mc cap (view (apply_op (redis_store db mc cap) op s))
    (\<lambda>ep. match_history ep (hist ep) op) (mismatch_history mhist op) (op_keys op \<union> counted)"
proof (cases op)
  case (AddMatchOp ep m)
  then have clean: "clean_id ep" using op by (simp add: op_clean_def)
  have h: "holds cap (view s) ep (map (enc (marshal_match mc)) (hist ep)) (ep \<in> counted)"
    using inv clean by (simp add: redis_inv_def)
  have l: "int (length (map (enc (marshal_match mc)) (hist ep))) + 1 < 2 ^ 63" using len(1) by simp
  obtain s' where s': "r_push db cap ep (enc (marshal_match mc) m) s = (s', None)"
    "holds cap (view s') ep (map (enc (marshal_match mc)) (hist ep) @ [enc (marshal_match mc) m]) True"
    "\<forall>k. k \<noteq> ep \<longrightarrow> k \<noteq> ep @ counterKey \<longrightarrow> view s' k = view s k"
    using r_push_holds [OF ll sl h l] by blast
  have "apply_op (redis_store db mc cap) op s = s'"
    using mem by (simp add: AddMatchOp op_in_def r_AddMatch_def codec_enc(1) [OF mc] s'(1))
  then show ?thesis
    using redis_inv_change [OF inv disjI1 [OF clean] s'(3)] s'(2) clean AddMatchOp
    by (simp add: op_keys_def clean_id_def)
next
  case (AddMismatchOp mm)
  have h: "holds cap (view s) mismatchesKey (map (enc (marshal_mismatch mc)) mhist) (mismatchesKey \<in> counted)"
    using inv by (simp add: redis_inv_def)
  have l: "int (length (map (enc (marshal_mismatch mc)) mhist)) + 1 < 2 ^ 63" using len(2) by simp
  obtain s' where s': "r_push db cap mismatchesKey (enc (marshal_mismatch mc) mm) s = (s', None)"
    "holds cap (view s') mismatchesKey
      (map (enc (marshal_mismatch mc)) mhist @ [enc (marshal_mismatch mc) mm]) True"
    "\<forall>k. k \<noteq> mismatchesKey \<longrightarrow> k \<noteq> mismatchesKey @ counterKey \<longrightarrow> view s' k = view s k"
    using r_push_holds [OF ll sl h l] by blast
  have "apply_op (redis_store db mc cap) op s = s'"
    using mem by (simp add: AddMismatchOp op_in_def r_AddMismatch_def codec_enc(3) [OF mc] s'(1))
  then show ?thesis
    using redis_inv_change [OF inv disjI2 [OF refl] s'(3)] s'(2) AddMismatchOp
    by (simp add: op_keys_def)
next
  case (DeleteMatchesOp ep)
  then have clean: "clean_id ep" using op by (simp add: op_clean_def)
  obtain s' where s': "r_clear db ep s = (s', None)" "holds cap (view s') ep [] True"
    "\<forall>k. k \<noteq> ep \<longrightarrow> k \<noteq> ep @ counterKey \<longrightarrow> view s' k = view s k"
    using r_clear_holds [OF sl, of ep s cap] by auto
  then show ?thesis
    using redis_inv_change [OF inv disjI1 [OF clean] s'(3)] clean DeleteMatchesOp
    by (simp add: op_keys_def clean_id_def r_DeleteMatches_def)
next
  case DeleteMismatchesOp
  obtain s' where s': "r_clear db mismatchesKey s = (s', None)" "holds cap (view s') mismatchesKey [] True"
    "\<forall>k. k \<noteq> mismatchesKey \<longrightarrow> k \<noteq> mismatchesKey @ counterKey \<longrightarrow> view s' k = view s k"
    using r_clear_holds [OF sl, of mismatchesKey s cap] by auto
  then show ?thesis
    using redis_inv_change [OF inv disjI2 [OF refl] s'(3)] DeleteMismatchesOp
    by (simp add: op_keys_def r_DeleteMismatches_def)
qed

end
