(* ===== verification/RedisServer.thy ===== *)
theory RedisServer
  imports Redis
begin

text \<open>
  A key space in memory with the commands the redis stores use, hashes as lists of pairs. It
  keeps the laws the properties assume, so they can hold, and it is executable.
\<close>

datatype stored = SList "string list" | SString string | SHash "(string, string) entries"

type_synonym key_space = "string \<Rightarrow> stored option"

primrec stored_value :: "stored \<Rightarrow> redis_value" where
  "stored_value (SList l) = RList l"
| "stored_value (SString v) = RString v"
| "stored_value (SHash h) = RHash (map_of h)"

definition key_view :: "key_space \<Rightarrow> string \<rightharpoonup> redis_value" where
  "key_view s k = map_option stored_value (s k)"

definition wrong_type :: error where
  "wrong_type = ''WRONGTYPE Operation against a key holding the wrong kind of value''"

definition stored_list :: "string list \<Rightarrow> stored option" where
  "stored_list l = (if l = [] then None else Some (SList l))"

definition list_of :: "stored option \<Rightarrow> string list option" where
  "list_of v = (case v of None \<Rightarrow> Some [] | Some (SList l) \<Rightarrow> Some l | _ \<Rightarrow> None)"

definition hash_of :: "stored option \<Rightarrow> (string, string) entries option" where
  "hash_of v = (case v of None \<Rightarrow> Some [] | Some (SHash h) \<Rightarrow> Some (AList.clearjunk h) | _ \<Rightarrow> None)"

definition ks_incr :: "string \<Rightarrow> key_space \<Rightarrow> key_space \<times> error option" where
  "ks_incr k s =
     (case s k of
        None \<Rightarrow> (s(k \<mapsto> SString (itoa 1)), None)
      | Some (SString v) \<Rightarrow>
          (case atoi v of
             Inl e \<Rightarrow> (s, Some ''ERR value is not an integer or out of range'')
           | Inr i \<Rightarrow>
               if i + 1 < 2 ^ 63 then (s(k \<mapsto> SString (itoa (i + 1))), None)
               else (s, Some ''ERR increment or decrement would overflow''))
      | Some _ \<Rightarrow> (s, Some wrong_type))"

definition key_space_redis :: "key_space redis" where
  "key_space_redis =
     \<lparr>rRPush = (\<lambda>k v s. case list_of (s k) of
        None \<Rightarrow> (s, Some wrong_type) | Some l \<Rightarrow> (s(k := stored_list (l @ [v])), None)),
      rLLen = (\<lambda>k s. case list_of (s k) of None \<Rightarrow> 0 | Some l \<Rightarrow> int (length l)),
      rLPop = (\<lambda>k s. case list_of (s k) of
        None \<Rightarrow> (s, Some wrong_type) | Some [] \<Rightarrow> (s, Some redis_nil)
      | Some (x # l) \<Rightarrow> (s(k := stored_list l), None)),
      rLRange = (\<lambda>k s. case list_of (s k) of None \<Rightarrow> Inl wrong_type | Some l \<Rightarrow> Inr l),
      rDel = (\<lambda>k s. (s(k := None), None)),
      rSet = (\<lambda>k v s. (s(k \<mapsto> SString v), None)),
      rIncr = ks_incr,
      rGet = (\<lambda>k s. case s k of None \<Rightarrow> Inl redis_nil | Some (SString v) \<Rightarrow> Inr v | _ \<Rightarrow> Inl wrong_type),
      rHSet = (\<lambda>k f v s. case hash_of (s k) of
        None \<Rightarrow> (s, Some wrong_type) | Some h \<Rightarrow> (s(k \<mapsto> SHash ((f, v) # h)), None)),
      rHGet = (\<lambda>k f s. case hash_of (s k) of
        None \<Rightarrow> Inl wrong_type
      | Some h \<Rightarrow> (case map_of h f of None \<Rightarrow> Inl redis_nil | Some v \<Rightarrow> Inr v)),
      rHGetAll = (\<lambda>k s. case hash_of (s k) of None \<Rightarrow> Inl wrong_type | Some h \<Rightarrow> Inr h),
      rPing = (\<lambda>s. None),
      rClose = (\<lambda>s. (s, None))\<rparr>"

lemma key_view_upd [simp]: "key_view (s(k := v)) = (key_view s)(k := map_option stored_value v)"
  by (auto simp: key_view_def)

lemma key_view_empty [simp]: "key_view Map.empty = Map.empty"
  by (simp add: key_view_def fun_eq_iff)

lemma list_at_view: "list_at (key_view s k) = list_of (s k)"
  by (auto simp: list_at_def list_of_def key_view_def split: option.split stored.split)

lemma hash_at_view: "hash_at (key_view s k) = map_option map_of (hash_of (s k))"
  by (auto simp: hash_at_def hash_of_def key_view_def map_of_clearjunk split: option.split stored.split)

lemma stored_value_RString: "stored_value z = RString v \<longleftrightarrow> z = SString v"
  by (cases z) simp_all

lemma stored_list_value: "map_option stored_value (stored_list l) = list_value l"
  by (simp add: stored_list_def list_value_def)

lemma distinct_hash_of: "hash_of v = Some h \<Longrightarrow> distinct (map fst h)"
  by (auto simp: hash_of_def distinct_clearjunk split: option.splits stored.splits)

lemma key_space_list_laws: "list_laws key_space_redis key_view"
  by (auto simp: list_laws_def key_space_redis_def list_at_view stored_list_value split: list.split)

lemma key_view_iff:
  "key_view s k = None \<longleftrightarrow> s k = None"
  "key_view s k = Some (RString v) \<longleftrightarrow> s k = Some (SString v)"
  by (auto simp: key_view_def stored_value_RString)

lemma ks_incr_steps:
  "s k = None \<Longrightarrow> ks_incr k s = (s(k \<mapsto> SString (itoa 1)), None)"
  "s k = Some (SString (itoa i)) \<Longrightarrow> - (2 ^ 63) \<le> i \<Longrightarrow> i + 1 < 2 ^ 63 \<Longrightarrow>
   ks_incr k s = (s(k \<mapsto> SString (itoa (i + 1))), None)"
  using atoi_itoa [of i] by (simp_all add: ks_incr_def)

lemma key_space_string_laws: "string_laws key_space_redis key_view"
  by (simp add: string_laws_def key_space_redis_def key_view_iff ks_incr_steps)

lemma key_space_hash_laws: "hash_laws key_space_redis key_view"
  by (auto simp: hash_laws_def key_space_redis_def hash_at_view map_of_clearjunk
      dest: distinct_hash_of split: option.split)

end
