(* ===== verification/InMemoryProps.thy ===== *)
theory InMemoryProps
  imports InMemory
begin

text \<open>
  The properties of the in-memory store: it refines the history of operations since the last
  deletion, its lists are bounded by the capacity (except for the largest one), its counters
  count all matches modulo \<open>2 ^ 64\<close>.
\<close>

definition run_inmemory ::
  "16 word \<Rightarrow> ('m, 'mm) store_op list \<Rightarrow> ('m, 'mm) InMemoryMatchstore" where
  "run_inmemory sz ops = fold (apply_op inmemory_store) ops (NewInMemoryMatchstore sz)"

definition matches_since_delete :: "string \<Rightarrow> ('m, 'mm) store_op list \<Rightarrow> 'm list" where
  "matches_since_delete ep ops = fold (\<lambda>op h. match_history ep h op) ops []"

definition mismatches_since_delete :: "('m, 'mm) store_op list \<Rightarrow> 'mm list" where
  "mismatches_since_delete ops = fold (\<lambda>op h. mismatch_history h op) ops []"

lemma im_fold_size: "imsSize (fold (apply_op inmemory_store) ops s) = imsSize s"
  by (induction ops arbitrary: s) simp_all

lemma im_fold_matches:
  "im_GetMatches ep s = retained (imsSize s) h \<Longrightarrow>
   im_GetMatches ep (fold (apply_op inmemory_store) ops s) =
     retained (imsSize s) (fold (\<lambda>op h. match_history ep h op) ops h)"
proof (induction ops arbitrary: s h)
  case (Cons op ops)
  have "im_GetMatches ep (apply_op inmemory_store op s) = retained (imsSize s) (match_history ep h op)"
    using Cons.prems by (simp add: im_matches_step push_bounded_retained split: store_op.split)
  with Cons.IH [of "apply_op inmemory_store op s"] show ?case by simp
qed simp

lemma im_fold_mismatches:
  "im_GetMismatches s = retained (imsSize s) h \<Longrightarrow>
   im_GetMismatches (fold (apply_op inmemory_store) ops s) =
     retained (imsSize s) (fold (\<lambda>op h. mismatch_history h op) ops h)"
proof (induction ops arbitrary: s h)
  case (Cons op ops)
  have "im_GetMismatches (apply_op inmemory_store op s) = retained (imsSize s) (mismatch_history h op)"
    using Cons.prems by (simp add: im_mismatches_step push_bounded_retained split: store_op.split)
  with Cons.IH [of "apply_op inmemory_store op s"] show ?case by simp
qed simp

lemma new_inmemory [simp]:
  "imsSize (NewInMemoryMatchstore sz) = sz"
  "im_GetMatches ep (NewInMemoryMatchstore sz) = []"
  "im_GetMismatches (NewInMemoryMatchstore sz) = []"
  "im_GetMatchesCount ep (NewInMemoryMatchstore sz) = 0"
  "im_GetMismatchesCount (NewInMemoryMatchstore sz) = 0"
  by (simp_all add: NewInMemoryMatchstore_def im_defs)

lemma run_inmemory_matches:
  "im_GetMatches ep (run_inmemory sz ops) = retained sz (matches_since_delete ep ops)"
  unfolding run_inmemory_def matches_since_delete_def
  using im_fold_matches [of ep "NewInMemoryMatchstore sz" "[]" ops] by simp

lemma run_inmemory_mismatches:
  "im_GetMismatches (run_inmemory sz ops) = retained sz (mismatches_since_delete ops)"
  unfolding run_inmemory_def mismatches_since_delete_def
  using im_fold_mismatches [of "NewInMemoryMatchstore sz" "[]" ops] by simp

text \<open>Refinement: after any sequence of additions and deletions the in-memory store returns
  for each endpoint the most recent matches since its last deletion, oldest first, as many as
  the capacity keeps, and in the same way for mismatches; operations on one endpoint or on
  mismatches leave every other list alone.\<close>

theorem inmemory_refines_history:
  "im_GetMatches ep (run_inmemory sz ops) = retained sz (matches_since_delete ep ops)
   \<and> im_GetMismatches (run_inmemory sz ops) = retained sz (mismatches_since_delete ops)"
  by (simp add: run_inmemory_matches run_inmemory_mismatches)

text \<open>The counters count every match of an endpoint and every mismatch since the last
  deletion, not only the retained ones, wrapping at \<open>2 ^ 64\<close>.\<close>

theorem inmemory_counts:
  "im_GetMatchesCount ep (run_inmemory sz ops) = of_nat (length (matches_since_delete ep ops))
   \<and> im_GetMismatchesCount (run_inmemory sz ops) = of_nat (length (mismatches_since_delete ops))"
  using im.count_run [where s = "NewInMemoryMatchstore sz" and h = "[]" and ep = ep and ops = ops]
    im.mismatch_count_run [where s = "NewInMemoryMatchstore sz" and h = "[]" and ops = ops]
  by (simp add: run_inmemory_def matches_since_delete_def mismatches_since_delete_def)

text \<open>With a capacity below 65535 no list of the store ever holds more entries than the
  capacity, whatever the sequence of operations.\<close>

theorem inmemory_capacity:
  assumes "sz \<noteq> 65535"
  shows "length (im_GetMatches ep (run_inmemory sz ops)) \<le> unat sz
    \<and> length (im_GetMismatches (run_inmemory sz ops)) \<le> unat sz"
  using assms by (simp add: run_inmemory_matches run_inmemory_mismatches retained_def length_last_n)

theorem inmemory_capacity_witness:
  "length (im_GetMatches ''e'' (run_inmemory 1 [AddMatchOp ''e'' (1::nat), AddMatchOp ''e'' 2,
      (AddMismatchOp () :: (nat, unit) store_op)])) \<le> 1"
proof -
  have "(1 :: 16 word) \<noteq> 65535" by simp
  from inmemory_capacity [OF this, of "''e''" "[AddMatchOp ''e'' (1::nat), AddMatchOp ''e'' 2, AddMismatchOp ()]"]
  show ?thesis by simp
qed

text \<open>With the capacity 65535 (a configured \<open>MATCHES_CAPACITY\<close> of 65535) nothing is ever
  evicted: the length is cut to 16 bits before the comparison, so it is never above the
  capacity and the lists grow with every request.\<close>

theorem inmemory_max_capacity_unbounded:
  "im_GetMatches ep (run_inmemory 65535 ops) = matches_since_delete ep ops
   \<and> im_GetMismatches (run_inmemory 65535 ops) = mismatches_since_delete ops"
  by (simp add: run_inmemory_matches run_inmemory_mismatches retained_def)

end
