(* ===== verification/RedisRefine.thy ===== *)
theory RedisRefine
  imports RedisProps RedisServer InMemoryProps MatchesHandler
begin

text \<open>
  The redis stores against what they stand for: the match store against the history of
  operations, the key-value store against the writes it was given; and the answers of the API
  on a key the server does not have.
\<close>

section \<open>Running the match store\<close>

lemma decode_all_enc:
  "\<forall>x\<in>set l. dec (f x) = Inr x \<Longrightarrow> decode_all dec (map f l) = Ok l"
  by (induction l) simp_all

lemma last_n_map: "last_n n (map f h) = map f (last_n n h)"
  by (simp add: last_n_def drop_map)

lemma set_last_n: "x \<in> set (last_n n h) \<Longrightarrow> x \<in> set h"
  unfolding last_n_def by (rule in_set_dropD)

lemma decode_last_n:
  "\<forall>x\<in>set h. dec (f x) = Inr x \<Longrightarrow> decode_all dec (last_n n (map f h)) = Ok (last_n n h)"
  by (auto simp: last_n_map intro!: decode_all_enc dest: set_last_n)

lemma length_match_history: "length (match_history ep h op) \<le> Suc (length h)"
  by (cases op) auto

lemma length_mismatch_history: "length (mismatch_history h op) \<le> Suc (length h)"
  by (cases op) auto

lemma length_histories:
  "length (fold (\<lambda>op h. match_history ep h op) ops h) \<le> length h + length ops"
  "length (fold (\<lambda>op h. mismatch_history h op) ops h') \<le> length h' + length ops"
proof (induction ops arbitrary: h h')
  case (Cons op ops)
  { case 1 show ?case using Cons.IH(1) [of "match_history ep h op"] length_match_history [of ep h op] by simp }
  { case 2 show ?case using Cons.IH(2) [of "mismatch_history h' op"] length_mismatch_history [of h' op] by simp }
qed simp_all

lemma histories_in:
  assumes "\<forall>op\<in>set ops. op_in M MM op"
  shows "set h \<subseteq> M \<Longrightarrow> set (fold (\<lambda>op h. match_history ep h op) ops h) \<subseteq> M"
    and "set h' \<subseteq> MM \<Longrightarrow> set (fold (\<lambda>op h. mismatch_history h op) ops h') \<subseteq> MM"
  using assms
proof (induction ops arbitrary: h h')
  case (Cons op ops)
  { case 1
    then have "set (match_history ep h op) \<subseteq> M" by (cases op) (auto simp: op_in_def)
    with 1 Cons.IH(1) show ?case by simp }
  { case 2
    then have "set (mismatch_history h' op) \<subseteq> MM" by (cases op) (auto simp: op_in_def)
    with 2 Cons.IH(2) show ?case by simp }
qed simp_all

text \<open>Steps of which some are operations of the store and the others do not change its data
  base.\<close>

lemma redis_inv_steps:
  assumes laws: "list_laws db view" "string_laws db view" "codec_on mc M MM"
    and op_step: "\<And>x op s. f x = Some op \<Longrightarrow> step x s = apply_op (redis_store db mc cap) op s"
    and other_step: "\<And>x s. f x = None \<Longrightarrow> view (step x s) = view s"
  shows "\<forall>op\<in>set (List.map_filter f xs). op_in M MM op \<and> op_clean op \<Longrightarrow>
    redis_inv mc cap (view s) hist mhist counted \<Longrightarrow>
    \<forall>ep. int (length (hist ep)) + int (length xs) < 2 ^ 63 \<Longrightarrow>
    int (length mhist) + int (length xs) < 2 ^ 63 \<Longrightarrow>
    redis_inv mc cap (view (fold step xs s))
      (\<lambda>ep. fold (\<lambda>op h. match_history ep h op) (List.map_filter f xs) (hist ep))
      (fold (\<lambda>op h. mismatch_history h op) (List.map_filter f xs) mhist)
      (\<Union> (op_keys ` set (List.map_filter f xs)) \<union> counted)"
proof (induction xs arbitrary: s hist mhist counted)
  case (Cons x xs)
  have "int (length (hist ep)) + 1 < 2 ^ 63" for ep
    using spec [OF Cons.prems(3), of ep] by simp
  then have len: "\<forall>ep. int (length (hist ep)) + 1 < 2 ^ 63" "int (length mhist) + 1 < 2 ^ 63"
    using Cons.prems(4) by simp_all
  show ?case
  proof (cases "f x")
    case None
    have "int (length (hist ep)) + int (length xs) < 2 ^ 63" for ep
      using spec [OF Cons.prems(3), of ep] by simp
    with Cons.IH [of "step x s" hist mhist counted] Cons.prems(1,2,4) None other_step [OF None]
    show ?thesis by (simp add: map_filter_simps)
  next
    case (Some op)
    have op: "op_in M MM op" "op_clean op" using Cons.prems(1) Some by (simp_all add: map_filter_simps)
    have "int (length (match_history ep (hist ep) op)) + int (length xs) < 2 ^ 63" for ep
      using length_match_history [of ep "hist ep" op]
      by (intro le_less_trans [OF _ spec [OF Cons.prems(3), of ep]]) simp
    moreover have "int (length (mismatch_history mhist op)) + int (length xs) < 2 ^ 63"
      using length_mismatch_history [of mhist op]
      by (intro le_less_trans [OF _ Cons.prems(4)]) simp
    moreover have "\<Union> (op_keys ` set (List.map_filter f (x # xs))) \<union> counted =
        \<Union> (op_keys ` set (List.map_filter f xs)) \<union> (op_keys op \<union> counted)"
      using Some by (auto simp: map_filter_simps)
    ultimately show ?thesis
      using Cons.IH [OF _ redis_inv_step [OF laws op(1) Cons.prems(2) op(2) len]] Cons.prems(1) Some
        op_step [OF Some, of s]
      by (simp only: fold_simps comp_apply) (simp add: map_filter_simps)
  qed
qed (simp add: map_filter_simps)

lemma redis_inv_run:
  assumes "list_laws db view" and "string_laws db view" and "codec_on mc M MM"
    and "\<forall>op\<in>set ops. op_in M MM op \<and> op_clean op" and "redis_inv mc cap (view s) hist mhist counted"
    and "\<forall>ep. int (length (hist ep)) + int (length ops) < 2 ^ 63"
    and "int (length mhist) + int (length ops) < 2 ^ 63"
  shows "redis_inv mc cap (view (fold (apply_op (redis_store db mc cap)) ops s))
      (\<lambda>ep. fold (\<lambda>op h. match_history ep h op) ops (hist ep))
      (fold (\<lambda>op h. mismatch_history h op) ops mhist)
      (\<Union> (op_keys ` set ops) \<union> counted)"
proof -
  have "List.map_filter Some ops = ops" by (induction ops) (simp_all add: map_filter_simps)
  then show ?thesis
    using redis_inv_steps [OF assms(1-3), of Some "apply_op (redis_store db mc cap)" cap ops s hist mhist counted]
      assms(4-7) by simp
qed

lemma redis_inv_empty: "redis_inv mc cap Map.empty (\<lambda>_. []) [] {}"
  by (simp add: redis_inv_def holds_def list_value_def last_n_def)

text \<open>What is read back under a key that holds a history.\<close>

lemma r_list_history:
  assumes "list_laws db view" and "holds cap (view s) key (map f h) c" and "\<forall>x\<in>set h. dec (f x) = Inr x"
  shows "r_list db dec key s = Ok (last_n (unat cap) h)"
  using r_list_holds [OF assms(1,2), of dec] decode_last_n [OF assms(3)] by simp

text \<open>What the store answers in a state that holds given histories.\<close>

lemma redis_inv_reads:
  assumes ll: "list_laws db view" and sl: "string_laws db view" and mc: "codec_on mc M MM"
    and inv: "redis_inv mc cap (view s) hist mhist counted" and clean: "clean_id ep"
    and sub: "set (hist ep) \<subseteq> M" "set mhist \<subseteq> MM"
    and len: "int (length (hist ep)) < 2 ^ 63" "int (length mhist) < 2 ^ 63"
  shows "r_GetMatches db mc ep s = Ok (last_n (unat cap) (hist ep))"
    and "r_GetMismatches db mc s = Ok (last_n (unat cap) mhist)"
    and "r_GetMatchesCount db ep s =
      (if ep \<in> counted then Ok (of_nat (length (hist ep))) else Err redis_nil)"
    and "r_GetMismatchesCount db s =
      (if mismatchesKey \<in> counted then Ok (of_nat (length mhist)) else Err redis_nil)"
proof -
  have h: "holds cap (view s) ep (map (enc (marshal_match mc)) (hist ep)) (ep \<in> counted)"
    and m: "holds cap (view s) mismatchesKey (map (enc (marshal_mismatch mc)) mhist) (mismatchesKey \<in> counted)"
    using inv clean by (simp_all add: redis_inv_def)
  have dec: "\<forall>x\<in>set (hist ep). unmarshal_match mc (enc (marshal_match mc) x) = Inr x"
    "\<forall>x\<in>set mhist. unmarshal_mismatch mc (enc (marshal_mismatch mc) x) = Inr x"
    using codec_enc [OF mc] sub by auto
  show "r_GetMatches db mc ep s = Ok (last_n (unat cap) (hist ep))"
    "r_GetMismatches db mc s = Ok (last_n (unat cap) mhist)"
    using r_list_history [OF ll h dec(1)] r_list_history [OF ll m dec(2)]
    by (simp_all add: r_GetMatches_def r_GetMismatches_def)
  show "r_GetMatchesCount db ep s =
      (if ep \<in> counted then Ok (of_nat (length (hist ep))) else Err redis_nil)"
    "r_GetMismatchesCount db s =
      (if mismatchesKey \<in> counted then Ok (of_nat (length mhist)) else Err redis_nil)"
    using r_count_holds [OF sl h] r_count_holds [OF sl m] len
    by (simp_all add: r_GetMatchesCount_def r_GetMismatchesCount_def)
qed

lemma since_delete_bounds:
  assumes "\<forall>op\<in>set ops. op_in M MM op"
  shows "set (matches_since_delete ep ops) \<subseteq> M" "set (mismatches_since_delete ops) \<subseteq> MM"
    and "length (matches_since_delete ep ops) \<le> length ops" "length (mismatches_since_delete ops) \<le> length ops"
  using histories_in [of ops M MM] length_histories(1) [of ep ops "[]"] length_histories(2) [of ops "[]"] assms
  by (simp_all add: matches_since_delete_def mismatches_since_delete_def)

text \<open>C25: Refinement: on a server that keeps the documented laws of its commands, after any
  sequence of additions and deletions from an empty data base the redis store returns for each
  endpoint the last matches since its deletion, as many as the capacity says (all 65535
  for the largest one, too), and their number; in the same way for mismatches. A number that was
  never counted nor reset is an error, though, and not zero.\<close>

theorem redis_store_refines_history:
  fixes db :: "'s redis" and view mc cap ops s
  defines "run \<equiv> fold (apply_op (redis_store db mc cap)) ops s"
  assumes "list_laws db view" and "string_laws db view" and "codec_on mc M MM"
    and "\<forall>op\<in>set ops. op_in M MM op \<and> op_clean op" and "view s = Map.empty"
    and "int (length ops) < 2 ^ 63" and "clean_id ep"
  shows "GetMatches (redis_store db mc cap) ep run = Ok (last_n (unat cap) (matches_since_delete ep ops))
   \<and> GetMismatches (redis_store db mc cap) run = Ok (last_n (unat cap) (mismatches_since_delete ops))
   \<and> GetMatchesCount (redis_store db mc cap) ep run =
       (if \<exists>op\<in>set ops. ep \<in> op_keys op then Ok (of_nat (length (matches_since_delete ep ops)))
        else Err redis_nil)
   \<and> GetMismatchesCount (redis_store db mc cap) run =
       (if \<exists>op\<in>set ops. mismatchesKey \<in> op_keys op then Ok (of_nat (length (mismatches_since_delete ops)))
        else Err redis_nil)"
proof -
  have inv: "redis_inv mc cap (view run) (\<lambda>ep. matches_since_delete ep ops) (mismatches_since_delete ops)
      (\<Union> (op_keys ` set ops))"
    using redis_inv_run [OF assms(2-5), of cap s "\<lambda>_. []" "[]" "{}"] redis_inv_empty assms(6,7)
    by (simp add: run_def matches_since_delete_def mismatches_since_delete_def)
  have "\<forall>op\<in>set ops. op_in M MM op" using assms(5) by blast
  note bounds = since_delete_bounds [OF this]
  have "int (length (matches_since_delete ep ops)) < 2 ^ 63" "int (length (mismatches_since_delete ops)) < 2 ^ 63"
    using bounds(3) [of ep] bounds(4) assms(7) by linarith+
  from redis_inv_reads [OF assms(2-4) inv assms(8) bounds(1,2) this]
  show ?thesis by simp
qed

text \<open>A codec that is faithful on matches that differ in their time only.\<close>

definition sample_request :: ActualRequest where
  "sample_request = \<lparr>arMethod = ''GET'', arURL = ''/a'', arHeader = [], arHost = []\<rparr>"

definition match_at :: "int \<Rightarrow> Match" where
  "match_at t = \<lparr>mEndpointID = ''e'', mTimestamp = t, mActualRequest = sample_request, mActualResponse = None\<rparr>"

definition mismatch_at :: "int \<Rightarrow> Mismatch" where
  "mismatch_at t = \<lparr>mmDetails = [], mmTimestamp = t, mmActualRequest = sample_request\<rparr>"

definition time_codec :: match_codec where
  "time_codec =
     \<lparr>marshal_match = (\<lambda>m. Inr (itoa (mTimestamp m))),
      unmarshal_match = (\<lambda>b. case atoi b of Inl e \<Rightarrow> Inl e | Inr t \<Rightarrow> Inr (match_at t)),
      marshal_mismatch = (\<lambda>m. Inr (itoa (mmTimestamp m))),
      unmarshal_mismatch = (\<lambda>b. case atoi b of Inl e \<Rightarrow> Inl e | Inr t \<Rightarrow> Inr (mismatch_at t))\<rparr>"

lemma time_codec_on: "codec_on time_codec (match_at ` {1, 2}) (mismatch_at ` {1, 2})"
  by (simp add: codec_on_def time_codec_def match_at_def mismatch_at_def atoi_itoa)

theorem redis_store_refines_history_witness:
  "GetMatches (redis_store key_space_redis time_codec 1) ''e''
      (fold (apply_op (redis_store key_space_redis time_codec 1))
        [AddMatchOp ''e'' (match_at 1), AddMatchOp ''e'' (match_at 2)] Map.empty) = Ok [match_at 2]
   \<and> GetMatchesCount (redis_store key_space_redis time_codec 1) ''e''
      (fold (apply_op (redis_store key_space_redis time_codec 1))
        [AddMatchOp ''e'' (match_at 1), AddMatchOp ''e'' (match_at 2)] Map.empty) = Ok 2
   \<and> GetMismatchesCount (redis_store key_space_redis time_codec 1)
      (fold (apply_op (redis_store key_space_redis time_codec 1))
        [AddMatchOp ''e'' (match_at 1), AddMatchOp ''e'' (match_at 2)] Map.empty) = Err redis_nil"
proof -
  let ?ops = "[AddMatchOp ''e'' (match_at 1), AddMatchOp ''e'' (match_at 2)] :: (Match, Mismatch) store_op list"
  have clean: "clean_id ''e''" by code_simp
  then have ops: "\<forall>op\<in>set ?ops. op_in (match_at ` {1, 2}) (mismatch_at ` {1, 2}) op \<and> op_clean op"
    by (simp add: op_in_def op_clean_def)
  have "mismatchesKey \<noteq> ''e''" by (simp add: mismatchesKey_def)
  then show ?thesis
    using redis_store_refines_history [where view = key_view and s = Map.empty, OF key_space_list_laws key_space_string_laws time_codec_on ops
        key_view_empty _ clean, of 1]
    by (simp add: op_keys_def matches_since_delete_def last_n_def)
qed

section \<open>The key-value store\<close>

lemma decode_fields_Ok:
  "distinct (map fst fs) \<Longrightarrow> \<forall>(f, v)\<in>set fs. jUnmarshal js v = Inr (g f) \<Longrightarrow>
   decode_fields js fs m = Ok (\<lambda>k. if k \<in> fst ` set fs then Some (g k) else m k)"
proof (induction fs arbitrary: m)
  case (Cons p fs)
  obtain f v where p: "p = (f, v)" by (cases p)
  with Cons show ?case by (auto simp: fun_eq_iff)
qed simp

text \<open>All fields at once are what the fields are one by one.\<close>

lemma rs_GetAll_hash:
  assumes "hash_laws db view" and "decodable js (view s)"
  shows "rs_GetAll db js a s =
    Ok (Some (\<lambda>k. case rs_Get db js a k s of Ok v \<Rightarrow> Some v | _ \<Rightarrow> None))"
proof -
  obtain h where h: "hash_at (view s a) = Some h" "\<And>f v. h f = Some v \<Longrightarrow> \<exists>x. jUnmarshal js v = Inr x"
    using assms(2) unfolding decodable_def by blast
  obtain fs where fs: "rHGetAll db a s = Inr fs" "map_of fs = h" "distinct (map fst fs)"
    using assms(1) h(1) unfolding hash_laws_def by blast
  let ?g = "\<lambda>k. projr (jUnmarshal js (the (h k)))"
  have g: "\<forall>(f, v)\<in>set fs. jUnmarshal js v = Inr (?g f)"
  proof clarify
    fix f v assume "(f, v) \<in> set fs"
    then have "h f = Some v" using map_of_is_SomeI [OF fs(3)] fs(2) by simp
    with h(2) [OF this] show "jUnmarshal js v = Inr (?g f)" by auto
  qed
  have "(if k \<in> fst ` set fs then Some (?g k) else None) =
      (case rs_Get db js a k s of Ok v \<Rightarrow> Some v | _ \<Rightarrow> None)" for k
  proof (cases "h k")
    case None
    with fs(2) have "k \<notin> fst ` set fs" by (simp add: map_of_eq_None_iff [symmetric])
    with None show ?thesis by (simp add: rs_Get_hash [OF assms(1) h(1)])
  next
    case (Some v)
    with fs(2) have "k \<in> fst ` set fs" by (metis map_of_eq_None_iff option.distinct(1))
    moreover obtain x where "jUnmarshal js v = Inr x" using h(2) [OF Some] ..
    ultimately show ?thesis using Some by (simp add: rs_Get_hash [OF assms(1) h(1)])
  qed
  then show ?thesis
    by (simp add: rs_GetAll_def fs(1) decode_fields_Ok [OF fs(3) g])
qed

lemma decodable_empty [simp]: "decodable js Map.empty"
  by (simp add: decodable_def hash_at_def)

lemma rs_Get_empty:
  "hash_laws db view \<Longrightarrow> view s = Map.empty \<Longrightarrow> rs_Get db js a k s = Err redis_nil"
  by (simp add: rs_Get_hash [where h = Map.empty] hash_at_def)

text \<open>When values survive their encoding, after any sequence of writes to an empty data base
  \<open>Get\<close> returns the value of the last write for that store and key, and \<open>GetAll\<close> exactly
  the keys written to a store with their last values; unlike the in-memory store the redis store
  returns an error for a key that was never written, and an empty map for a store
  that was never written.\<close>

theorem redis_storage_last_write:
  assumes "hash_laws db view" and "faithful js" and "view s = Map.empty"
  shows "Get (redis_storage db js) a k (put_all (redis_storage db js) ws s) =
      (case last_write ws a k of Some v \<Rightarrow> Ok v | None \<Rightarrow> Err redis_nil)
    \<and> GetAll (redis_storage db js) a (put_all (redis_storage db js) ws s) = Ok (Some (last_write ws a))"
proof -
  note st = redis_storage_contract [OF assms(1,2)]
  have inv: "decodable js (view s)" by (simp add: assms(3))
  have get: "Get (redis_storage db js) a k (put_all (redis_storage db js) ws s) =
      (case last_write ws a k of Some v \<Rightarrow> Ok v | None \<Rightarrow> Err redis_nil)" for k
    using storage_contract.get_put_all [OF st inv] rs_Get_empty [OF assms(1,3), of js] by (simp split: option.split)
  moreover have "rs_GetAll db js a (put_all (redis_storage db js) ws s) =
      Ok (Some (\<lambda>k. case Get (redis_storage db js) a k (put_all (redis_storage db js) ws s) of
        Ok v \<Rightarrow> Some v | _ \<Rightarrow> None))"
    using rs_GetAll_hash [OF assms(1) storage_contract.invar_put_all [OF st inv]] by simp
  moreover have "(case case last_write ws a k of Some v \<Rightarrow> Ok v | None \<Rightarrow> Err redis_nil of
      Ok v \<Rightarrow> Some v | _ \<Rightarrow> None) = last_write ws a k" for k
    by (simp split: option.split)
  ultimately show ?thesis by (simp only: redis_storage_sel get)
qed

theorem redis_storage_last_write_witness:
  "Get (redis_storage key_space_redis null_digits_codec) ''s'' ''k''
      (put_all (redis_storage key_space_redis null_digits_codec)
        [((''s'', ''k''), Some 1), ((''s'', ''k''), Some 2)] Map.empty) = Ok (Some 2)
   \<and> Get (redis_storage key_space_redis null_digits_codec) ''s'' ''l''
      (put_all (redis_storage key_space_redis null_digits_codec)
        [((''s'', ''k''), Some 1), ((''s'', ''k''), Some 2)] Map.empty) = Err redis_nil"
  using redis_storage_last_write [where view = key_view and s = Map.empty, OF key_space_hash_laws null_digits_faithful key_view_empty,
      of "''s''" "''k''" "[((''s'', ''k''), Some 1), ((''s'', ''k''), Some 2)]"]
    redis_storage_last_write [where view = key_view and s = Map.empty, OF key_space_hash_laws null_digits_faithful key_view_empty,
      of "''s''" "''l''" "[((''s'', ''k''), Some 1), ((''s'', ''k''), Some 2)]"]
  by (simp add: last_write_def)

section \<open>The API over the redis stores\<close>

lemma inm_GetAll_new [simp]: "inm_GetAll a NewInmemoryStorage = None"
  by (simp add: inm_GetAll_def NewInmemoryStorage_def)

text \<open>On a server without data the API of the redis variant answers the \<open>GET\<close> of a key
  and of a count with 500 and the error \<open>redis: nil\<close>, and the \<open>GET\<close> of a whole store with the
  empty map, where the in-memory stores give 404, the count zero with 200, and 404.\<close>

theorem redis_missing_key_answers:
  fixes js :: "'v json_codec"
  assumes "string_laws db view" and "hash_laws db view" and "view s = Map.empty"
    and "rwStatus w = None" and "rwBody w = []"
  shows "handleGetKVStore (redis_storage db js) js r w s = Ok (http_Error redis_nil 500 w, s)
    \<and> handleGetMatchesCount (redis_store db mc cap) r w s = Ok (http_Error redis_nil 500 w, s)
    \<and> handleGetAllKVStore (redis_storage db js) js r w s =
        Ok (WriteEntity (\<lambda>_. None) (jMarshalMap js) Map.empty w, s)
    \<and> handleGetKVStore inmemory_storage js r w NewInmemoryStorage = Ok (put_status 404 w, NewInmemoryStorage)
    \<and> handleGetMatchesCount inmemory_store r w (NewInMemoryMatchstore cap :: ('m, 'mm) InMemoryMatchstore) =
        Ok (write_bytes ''0'' w, NewInMemoryMatchstore cap)
    \<and> handleGetAllKVStore inmemory_storage js r w NewInmemoryStorage = Ok (put_status 404 w, NewInmemoryStorage)"
proof -
  have "rs_GetAll db js a s = Ok (Some Map.empty)" for a
    using rs_GetAll_hash [OF assms(2), of js s a] rs_Get_empty [OF assms(2,3), of js a] assms(3) by simp
  moreover have "r_count db key s = Err redis_nil" for key
    using assms(1,3) by (simp add: string_laws_def r_count_def)
  ultimately show ?thesis
    using rs_Get_empty [OF assms(2,3), of js] assms(4)
    by (simp add: handleGetKVStore_def handleGetMatchesCount_def handleGetAllKVStore_def
        r_GetMatchesCount_def write_result_def marshal_uint64_def WriteEntity_def nat_digits_0)
qed

theorem redis_missing_key_answers_witness:
  "\<exists>w. handleGetMatchesCount (redis_store key_space_redis time_codec 5)
      ((example_request ''GET'' ''/__/matchesCount/e'')\<lparr>muxVars := [''endpointId'' \<mapsto> ''e'']\<rparr>) new_writer
      Map.empty = Ok (w, Map.empty) \<and> rwStatus w = Some 500"
proof -
  have w: "rwStatus new_writer = None" "rwBody new_writer = []" by (simp_all add: new_writer_def)
  note answers = redis_missing_key_answers [where view = key_view and s = Map.empty,
      OF key_space_string_laws key_space_hash_laws key_view_empty w, where mc = time_codec and cap = 5]
  show ?thesis
    by (intro exI conjI) (rule answers [THEN conjunct2, THEN conjunct1], simp add: rwStatus_http_Error w)
qed

end
