(* ===== verification/RedisVariant.thy ===== *)
theory RedisVariant
  imports Starter RedisRefine
begin

text \<open>
  The redis variant as a whole (\<open>mockgo-redis/cmd/mockgo/main.go\<close>): the configuration text and
  the start of its two stores, and the two stores at work on one server: they use different data
  bases, so neither disturbs the other.
\<close>

section \<open>Starting the variant\<close>

definition redis_info :: "RedisConfiguration \<Rightarrow> string result" where
  "redis_info c =
     bind_result (passwordInfo (RedisPassword c)) (\<lambda>pw.
       Ok (nl @ nl
         @ ''Redis:'' @ nl
         @ ''  Address: '' @ sq (RedisAddress c) @ env_name ''REDIS_ADDRESS'' @ nl
         @ ''  Password: '' @ sq pw @ env_name ''REDIS_PASSWORD'' @ nl
         @ ''  Matchstore Database: '' @ itoa (MatchstoreRedisDB c) @ env_name ''MATCHSTORE_REDIS_DB'' @ nl
         @ ''  KVStore Database: '' @ itoa (KvstoreRedisDB c) @ env_name ''KVSTORE_REDIS_DB'' @ nl @ nl
         @ ''Redis:'' @ nl))"

text \<open>\<open>initialization\<close> after the environment has been read: the message of \<open>log.Fatal\<close>, if any.\<close>

definition redis_initialization :: "RedisConfiguration \<Rightarrow> error option" where
  "redis_initialization c = map_option (\<lambda>e. ''wrong configuration: '' @ e) (validateRedis c)"

text \<open>\<open>main\<close> up to the call of \<open>SetupRouter\<close>, with the text and the stores it passes;
  the left values are the messages of \<open>log.Fatalf\<close>.\<close>

definition redis_main ::
  "(RedisOptions \<Rightarrow> 's redis) \<Rightarrow> match_codec \<Rightarrow> 'v json_codec \<Rightarrow> RedisConfiguration \<Rightarrow> BasicConfiguration
     \<Rightarrow> 's \<Rightarrow> error + (string result \<times> ('s, Match, Mismatch) Matchstore \<times> ('s, 'v) Storage)" where
  "redis_main newClient mc js config basic s =
     (case NewRedisMatchstore newClient mc (RedisAddress config) (RedisPassword config)
             (MatchstoreRedisDB config) (store_capacity basic) s of
        Inl err \<Rightarrow> Inl (''can'' @ [CHR 0x27] @ ''t initialize redis matchstore: '' @ err)
      | Inr matchStore \<Rightarrow>
          (case NewRedisStorage newClient js (RedisAddress config) (RedisPassword config)
                  (KvstoreRedisDB config) s of
             Inl err \<Rightarrow> Inl (''can'' @ [CHR 0x27] @ ''t initialize redis kvstore: '' @ err)
           | Inr storage \<Rightarrow> Inr (redis_info config, matchStore, storage)))"

section \<open>Two data bases of one server\<close>

text \<open>A client changes no data base but the one of its options.\<close>

definition own_database :: "'s redis \<Rightarrow> ('s \<Rightarrow> string \<rightharpoonup> redis_value) \<Rightarrow> bool" where
  "own_database db other \<longleftrightarrow>
     (\<forall>k v s. other (fst (rRPush db k v s)) = other s) \<and> (\<forall>k s. other (fst (rLPop db k s)) = other s)
     \<and> (\<forall>k s. other (fst (rDel db k s)) = other s) \<and> (\<forall>k v s. other (fst (rSet db k v s)) = other s)
     \<and> (\<forall>k s. other (fst (rIncr db k s)) = other s) \<and> (\<forall>k f v s. other (fst (rHSet db k f v s)) = other s)"

definition database_laws :: "(RedisOptions \<Rightarrow> 's redis) \<Rightarrow> (int \<Rightarrow> 's \<Rightarrow> string \<rightharpoonup> redis_value) \<Rightarrow> bool" where
  "database_laws newClient view \<longleftrightarrow>
     (\<forall>opts. list_laws (newClient opts) (view (roDB opts)) \<and> string_laws (newClient opts) (view (roDB opts))
        \<and> hash_laws (newClient opts) (view (roDB opts))
        \<and> (\<forall>d. d \<noteq> roDB opts \<longrightarrow> own_database (newClient opts) (view d)))"

lemma database_lawsD:
  assumes "database_laws newClient view"
  shows "list_laws (newClient opts) (view (roDB opts))" "string_laws (newClient opts) (view (roDB opts))"
    "hash_laws (newClient opts) (view (roDB opts))" "d \<noteq> roDB opts \<Longrightarrow> own_database (newClient opts) (view d)"
  using assms unfolding database_laws_def by blast+

lemma roDB_options [simp]: "roDB (redis_options address password db) = db"
  by (simp add: redis_options_def)

lemma own_database_push:
  assumes "own_database db other"
  shows "other (fst (r_push db cap key v s)) = other s"
  using assms by (simp add: own_database_def r_push_def case_prod_beta split: option.split)

lemma own_database_clear:
  assumes "own_database db other"
  shows "other (fst (r_clear db key s)) = other s"
  using assms by (simp add: own_database_def r_clear_def case_prod_beta split: option.split)

lemma own_database_op:
  assumes "own_database db other"
  shows "other (apply_op (redis_store db mc cap) op s) = other s"
  by (cases op)
    (simp_all add: r_AddMatch_def r_AddMismatch_def r_DeleteMatches_def r_DeleteMismatches_def
      own_database_push [OF assms] own_database_clear [OF assms] split: sum.split)

lemma own_database_put:
  assumes "own_database db other"
  shows "other (fst (rs_Put db js a k v s)) = other s"
  using assms by (simp add: rs_Put_def own_database_def split: sum.split)

section \<open>Both stores at work\<close>

text \<open>An operation on the match store or a write to the key-value store, in the order in which
  they reach the server.\<close>

type_synonym 'v variant_op = "(Match, Mismatch) store_op + ((string \<times> string) \<times> 'v option)"

definition apply_variant ::
  "('s, Match, Mismatch) Matchstore \<Rightarrow> ('s, 'v) Storage \<Rightarrow> 'v variant_op \<Rightarrow> 's \<Rightarrow> 's" where
  "apply_variant ms st x s =
     (case x of Inl op \<Rightarrow> apply_op ms op s | Inr w \<Rightarrow> fst (Put st (fst (fst w)) (snd (fst w)) (snd w) s))"

lemma apply_variant_simps [simp]:
  "apply_variant ms st (Inl op) s = apply_op ms op s"
  "apply_variant ms st (Inr ((a, k), v)) s = fst (Put st a k v s)"
  by (simp_all add: apply_variant_def)

definition store_ops :: "'v variant_op list \<Rightarrow> (Match, Mismatch) store_op list" where
  "store_ops xs = List.map_filter (\<lambda>x. case x of Inl op \<Rightarrow> Some op | Inr w \<Rightarrow> None) xs"

definition writes :: "'v variant_op list \<Rightarrow> ((string \<times> string) \<times> 'v option) list" where
  "writes xs = List.map_filter (\<lambda>x. case x of Inl op \<Rightarrow> None | Inr w \<Rightarrow> Some w) xs"

lemma variant_op_lists [simp]:
  "store_ops [] = []" "store_ops (Inl op # xs) = op # store_ops xs" "store_ops (Inr w # xs) = store_ops xs"
  "writes [] = []" "writes (Inl op # xs) = writes xs" "writes (Inr w # xs) = w # writes xs"
  by (simp_all add: store_ops_def writes_def map_filter_simps)

lemma kv_run:
  assumes laws: "hash_laws db view" and js: "faithful js"
    and op: "\<And>op s. view (apply_op ms op s) = view s"
  shows "decodable js (view s) \<Longrightarrow>
    decodable js (view (fold (apply_variant ms (redis_storage db js)) xs s))
    \<and> rs_Get db js a k (fold (apply_variant ms (redis_storage db js)) xs s) =
        (case last_write (writes xs) a k of Some v \<Rightarrow> Ok v | None \<Rightarrow> rs_Get db js a k s)"
proof (induction xs arbitrary: s)
  case (Cons x xs)
  note st = redis_storage_contract [OF laws js]
  show ?case
  proof (cases x)
    case (Inl op)
    have view: "view (apply_op ms op s) = view s" by (rule assms(3))
    obtain h where "hash_at (view s a) = Some h" using Cons.prems unfolding decodable_def by blast
    then have "rs_Get db js a k (apply_op ms op s) = rs_Get db js a k s"
      using rs_Get_hash [OF laws, of s a h js k] rs_Get_hash [OF laws, of "apply_op ms op s" a h js k] view by simp
    with Cons.IH [of "apply_op ms op s"] Cons.prems view Inl show ?thesis
      by (simp split: option.split)
  next
    case (Inr w)
    obtain a' k' v where w: "w = ((a', k'), v)" by (metis prod.collapse)
    with Cons.IH [OF storage_contract.invar_put [OF st Cons.prems, of a' k' v]]
      storage_contract.get_put [OF st Cons.prems, of a k a' k' v] Inr
    show ?thesis
      by (auto simp: last_write_def map_add_def split: option.split)
  qed
qed (simp add: last_write_def)

lemma length_store_ops: "length (store_ops xs) \<le> length xs"
  by (induction xs) (auto split: sum.split simp: store_ops_def map_filter_simps)

text \<open>C24: The redis variant: started with a valid configuration on a server that can be reached
  and whose data bases are empty, and after any interleaving of operations of the match store and
  writes to the key-value store on that server, the match store answers with the history of its
  own operations and the key-value store with its own last writes: the configuration check for
  different data bases is what keeps them apart.\<close>

theorem redis_variant_stores_apart:
  fixes view :: "int \<Rightarrow> 's \<Rightarrow> string \<rightharpoonup> redis_value"
  assumes "redis_initialization config = None" and "database_laws newClient view"
    and "\<forall>opts. rPing (newClient opts) s = None" and "\<forall>d. view d s = Map.empty"
    and "codec_on mc M MM" and "faithful js"
    and "\<forall>op\<in>set (store_ops xs). op_in M MM op \<and> op_clean op" and "int (length xs) < 2 ^ 63" and "clean_id ep"
  shows "\<exists>ms st. redis_main newClient mc js config basic s = Inr (redis_info config, ms, st)
    \<and> GetMatches ms ep (fold (apply_variant ms st) xs s) =
        Ok (last_n (unat (store_capacity basic)) (matches_since_delete ep (store_ops xs)))
    \<and> GetMismatches ms (fold (apply_variant ms st) xs s) =
        Ok (last_n (unat (store_capacity basic)) (mismatches_since_delete (store_ops xs)))
    \<and> Get st a k (fold (apply_variant ms st) xs s) =
        (case last_write (writes xs) a k of Some v \<Rightarrow> Ok v | None \<Rightarrow> Err redis_nil)"
proof -
  let ?om = "redis_options (RedisAddress config) (RedisPassword config) (MatchstoreRedisDB config)"
  let ?ok = "redis_options (RedisAddress config) (RedisPassword config) (KvstoreRedisDB config)"
  let ?vm = "view (MatchstoreRedisDB config)" and ?vk = "view (KvstoreRedisDB config)"
  let ?cap = "store_capacity basic"
  let ?ms = "redis_store (newClient ?om) mc ?cap" and ?st = "redis_storage (newClient ?ok) js"
  let ?run = "fold (apply_variant ?ms ?st) xs s"
  have apart: "MatchstoreRedisDB config \<noteq> KvstoreRedisDB config"
    using assms(1) by (auto simp: redis_initialization_def validateRedis_def split: if_splits)
  have laws: "list_laws (newClient ?om) ?vm" "string_laws (newClient ?om) ?vm" "hash_laws (newClient ?ok) ?vk"
    and own: "own_database (newClient ?om) ?vk" "own_database (newClient ?ok) ?vm"
    using database_lawsD [OF assms(2), where opts = ?om] database_lawsD [OF assms(2), where opts = ?ok] apart
    by simp_all
  have main: "redis_main newClient mc js config basic s = Inr (redis_info config, ?ms, ?st)"
    using assms(3) by (simp add: redis_main_def NewRedisMatchstore_def NewRedisStorage_def checkConnectivity_def Let_def)
  have len: "int (length (store_ops xs)) < 2 ^ 63" using length_store_ops [of xs] assms(8) by linarith
  have inv: "redis_inv mc ?cap (?vm ?run) (\<lambda>ep. matches_since_delete ep (store_ops xs))
      (mismatches_since_delete (store_ops xs)) (\<Union> (op_keys ` set (store_ops xs)) \<union> {})"
    unfolding store_ops_def matches_since_delete_def mismatches_since_delete_def
  proof (rule redis_inv_steps [OF laws(1,2) assms(5)])
    show "redis_inv mc ?cap (?vm s) (\<lambda>ep. []) [] {}" using redis_inv_empty assms(4) by simp
  qed (use assms(7,8) own_database_put [OF own(2)] in
      \<open>auto simp: apply_variant_def store_ops_def split: sum.splits\<close>)
  have "\<forall>op\<in>set (store_ops xs). op_in M MM op" using assms(7) by blast
  note bounds = since_delete_bounds [OF this]
  have "int (length (matches_since_delete ep (store_ops xs))) < 2 ^ 63"
    "int (length (mismatches_since_delete (store_ops xs))) < 2 ^ 63"
    using bounds(3) [of ep] bounds(4) len by linarith+
  note reads = redis_inv_reads(1,2) [OF laws(1,2) assms(5) inv assms(9) bounds(1,2) this]
  have "rs_Get (newClient ?ok) js a k ?run =
      (case last_write (writes xs) a k of Some v \<Rightarrow> Ok v | None \<Rightarrow> Err redis_nil)"
    using kv_run [OF laws(3) assms(6), of ?ms s xs a k] own_database_op [OF own(1)] assms(4)
      rs_Get_empty [OF laws(3), of s js a k] by (simp split: option.split)
  with reads main show ?thesis by (intro exI [of _ ?ms] exI [of _ ?st]) simp
qed

text \<open>A server with a key space for every data base number.\<close>

definition on_database ::
  "int \<Rightarrow> (key_space \<Rightarrow> key_space \<times> error option) \<Rightarrow> (int \<Rightarrow> key_space) \<Rightarrow> (int \<Rightarrow> key_space) \<times> error option" where
  "on_database d f s = (case f (s d) of (ks, e) \<Rightarrow> (s(d := ks), e))"

definition database_client :: "RedisOptions \<Rightarrow> (int \<Rightarrow> key_space) redis" where
  "database_client opts =
     (let d = roDB opts; db = key_space_redis in
      \<lparr>rRPush = (\<lambda>k v. on_database d (rRPush db k v)), rLLen = (\<lambda>k s. rLLen db k (s d)),
       rLPop = (\<lambda>k. on_database d (rLPop db k)), rLRange = (\<lambda>k s. rLRange db k (s d)),
       rDel = (\<lambda>k. on_database d (rDel db k)), rSet = (\<lambda>k v. on_database d (rSet db k v)),
       rIncr = (\<lambda>k. on_database d (rIncr db k)), rGet = (\<lambda>k s. rGet db k (s d)),
       rHSet = (\<lambda>k f v. on_database d (rHSet db k f v)), rHGet = (\<lambda>k f s. rHGet db k f (s d)),
       rHGetAll = (\<lambda>k s. rHGetAll db k (s d)), rPing = (\<lambda>s. None), rClose = (\<lambda>s. (s, None))\<rparr>)"

definition database_view :: "int \<Rightarrow> (int \<Rightarrow> key_space) \<Rightarrow> string \<rightharpoonup> redis_value" where
  "database_view d s = key_view (s d)"

lemma on_database_other: "d' \<noteq> d \<Longrightarrow> database_view d' (fst (on_database d f s)) = database_view d' s"
  by (simp add: on_database_def database_view_def case_prod_beta)

lemma on_database_own:
  "\<exists>ks'. f (s d) = (ks', None) \<and> key_view ks' = m \<Longrightarrow>
   \<exists>s'. on_database d f s = (s', None) \<and> key_view (s' d) = m"
  by (auto simp: on_database_def)

lemma database_client_laws: "database_laws database_client database_view"
proof -
  have "list_laws (database_client opts) (database_view (roDB opts))" for opts
    using key_space_list_laws unfolding list_laws_def
    by (auto simp: database_client_def Let_def database_view_def intro!: on_database_own)
  moreover have "string_laws (database_client opts) (database_view (roDB opts))" for opts
    using key_space_string_laws unfolding string_laws_def
    by (auto simp: database_client_def Let_def database_view_def intro!: on_database_own)
  moreover have "hash_laws (database_client opts) (database_view (roDB opts))" for opts
    using key_space_hash_laws unfolding hash_laws_def
    by (auto simp: database_client_def Let_def database_view_def intro!: on_database_own)
  moreover have "own_database (database_client opts) (database_view d)" if "d \<noteq> roDB opts" for opts d
    using that by (simp add: own_database_def database_client_def Let_def on_database_other)
  ultimately show ?thesis by (simp add: database_laws_def)
qed

definition default_redis :: RedisConfiguration where
  "default_redis =
     \<lparr>RedisAddress = ''localhost:6379'', RedisPassword = [], MatchstoreRedisDB = 0, KvstoreRedisDB = 1\<rparr>"

text \<open>An endpoint and a store of the same name.\<close>

definition same_name_ops :: "nat variant_op list" where
  "same_name_ops = [Inl (AddMatchOp ''e'' (match_at 1)), Inr ((''e'', ''k''), Some 7), Inl (AddMatchOp ''e'' (match_at 2))]"

theorem redis_variant_stores_apart_witness:
  "\<exists>ms st. redis_main database_client time_codec null_digits_codec default_redis default_configuration (\<lambda>_. Map.empty)
        = Inr (redis_info default_redis, ms, st)
    \<and> GetMatches ms ''e'' (fold (apply_variant ms st) same_name_ops (\<lambda>_. Map.empty)) = Ok [match_at 1, match_at 2]
    \<and> Get st ''e'' ''k'' (fold (apply_variant ms st) same_name_ops (\<lambda>_. Map.empty)) = Ok (Some 7)"
proof -
  have valid: "redis_initialization default_redis = None"
    by (simp add: redis_initialization_def validateRedis_def default_redis_def)
  have ping: "\<forall>opts. rPing (database_client opts) (\<lambda>_. Map.empty) = None"
    by (simp add: database_client_def Let_def)
  have empty: "\<forall>d. database_view d (\<lambda>_. Map.empty) = Map.empty" by (simp add: database_view_def)
  have clean: "clean_id ''e''" by code_simp
  have ops: "store_ops same_name_ops = [AddMatchOp ''e'' (match_at 1), AddMatchOp ''e'' (match_at 2)]"
    "writes same_name_ops = [((''e'', ''k''), Some 7)]" "length same_name_ops = 3"
    by (simp_all add: same_name_ops_def)
  have "\<forall>op\<in>set (store_ops same_name_ops). op_in (match_at ` {1, 2}) (mismatch_at ` {1, 2}) op \<and> op_clean op"
    using clean by (simp add: ops op_in_def op_clean_def)
  moreover have "unat (store_capacity default_configuration) = 1000"
    by (simp add: store_capacity_def default_configuration_def)
  moreover have "last_n 1000 [match_at 1, match_at 2] = [match_at 1, match_at 2]" by (simp add: last_n_def)
  ultimately show ?thesis
    using redis_variant_stores_apart [where newClient = database_client and view = database_view
        and s = "\<lambda>_. Map.empty" and xs = same_name_ops and ep = "''e''" and basic = default_configuration
        and a = "''e''" and k = "''k''",
        OF valid database_client_laws ping empty time_codec_on null_digits_faithful] clean
    by (auto simp: ops last_write_def matches_since_delete_def)
qed

end
