(* ===== verification/Boot.thy ===== *)
theory Boot
  imports Router Lifecycle GrpcVariant RedisVariant
begin

text \<open>
  From the environment of the process to its server: reading the configurations (\<open>init\<close> of
  \<open>mockgo/starter/starter.go\<close> and \<open>initialization\<close> of the \<open>main\<close> packages), the loggers
  (\<open>mockgo/util/log.go\<close>), the constructors of the three request handlers, the registration of the metrics, and
  \<open>SetupRouter\<close> up to its goroutines. Reading tagged fields from the environment (\<open>envconfig\<close>),
  parsing log levels and building loggers (\<open>zap\<close>) and the registry of \<open>prometheus\<close> are arguments. An error of
  the result type is what \<open>log.Fatal\<close> or \<open>logger.Fatal\<close> ends the process with.
\<close>

section \<open>Configurations in the environment\<close>

type_synonym environment = "string \<rightharpoonup> string"

definition Getenv :: "environment \<Rightarrow> string \<Rightarrow> string" where
  "Getenv env n = (case env n of None \<Rightarrow> [] | Some s \<Rightarrow> s)"

datatype env_kind = StringField | IntField | StringsField

datatype env_value = StringValue string | IntValue int | StringsValue "string list"

primrec string_of_value :: "env_value \<Rightarrow> string" where
  "string_of_value (StringValue s) = s"
| "string_of_value (IntValue i) = []"
| "string_of_value (StringsValue xs) = []"

primrec int_of_value :: "env_value \<Rightarrow> int" where
  "int_of_value (StringValue s) = 0"
| "int_of_value (IntValue i) = i"
| "int_of_value (StringsValue xs) = 0"

primrec strings_of_value :: "env_value \<Rightarrow> string list" where
  "strings_of_value (StringValue s) = []"
| "strings_of_value (IntValue i) = []"
| "strings_of_value (StringsValue xs) = xs"

text \<open>A field of a configuration: its name, the variable that \<open>split_words\<close> makes of it (the one the
  configuration texts name), the type and the default.\<close>

record env_field =
  efName :: string
  efVariable :: string
  efKind :: env_kind
  efDefault :: "string option"

definition env_field :: "string \<Rightarrow> string \<Rightarrow> env_kind \<Rightarrow> string option \<Rightarrow> env_field" where
  "env_field n v k d = \<lparr>efName = n, efVariable = v, efKind = k, efDefault = d\<rparr>"

type_synonym env_process = "env_field list \<Rightarrow> environment \<Rightarrow> error + (string \<Rightarrow> env_value)"

definition basic_fields :: "env_field list" where
  "basic_fields =
     [env_field ''LoglevelAPI'' ''LOGLEVEL_API'' StringField (Some ''INFO''),
      env_field ''LoglevelMock'' ''LOGLEVEL_MOCK'' StringField (Some ''INFO''),
      env_field ''MockPort'' ''MOCK_PORT'' IntField (Some ''8081''),
      env_field ''MockDir'' ''MOCK_DIR'' StringField (Some ''.''),
      env_field ''MockFilepattern'' ''MOCK_FILEPATTERN'' StringField (Some ''*-mock.*''),
      env_field ''MatchesCapacity'' ''MATCHES_CAPACITY'' IntField (Some ''1000''),
      env_field ''APIPathPrefix'' ''API_PATH_PREFIX'' StringField (Some ''/__''),
      env_field ''APIUsername'' ''API_USERNAME'' StringField (Some ''mockgo''),
      env_field ''APIPassword'' ''API_PASSWORD'' StringField (Some ''password'')]"

definition basic_configuration :: "(string \<Rightarrow> env_value) \<Rightarrow> BasicConfiguration" where
  "basic_configuration v =
     \<lparr>LoglevelAPI = string_of_value (v ''LoglevelAPI''), LoglevelMock = string_of_value (v ''LoglevelMock''),
      MockPort = int_of_value (v ''MockPort''), MockDir = string_of_value (v ''MockDir''),
      MockFilepattern = string_of_value (v ''MockFilepattern''),
      MatchesCapacity = int_of_value (v ''MatchesCapacity''),
      APIPathPrefix = string_of_value (v ''APIPathPrefix''), APIUsername = string_of_value (v ''APIUsername''),
      APIPassword = string_of_value (v ''APIPassword'')\<rparr>"

definition configuration_error :: error where
  "configuration_error = ''can'' @ [CHR 0x27] @ ''t create configuration''"

definition starter_init :: "env_process \<Rightarrow> environment \<Rightarrow> BasicConfiguration result" where
  "starter_init process env =
     (case process basic_fields env of
        Inl err \<Rightarrow> Err configuration_error
      | Inr v \<Rightarrow> Ok (basic_configuration v))"

definition grpc_fields :: "env_field list" where
  "grpc_fields =
     [env_field ''ClusterHostnames'' ''CLUSTER_HOSTNAMES'' StringsField None,
      env_field ''MatchstorePort'' ''MATCHSTORE_PORT'' IntField (Some ''50051''),
      env_field ''KvstorePort'' ''KVSTORE_PORT'' IntField (Some ''50151'')]"

definition grpc_configuration :: "(string \<Rightarrow> env_value) \<Rightarrow> GrpcConfiguration" where
  "grpc_configuration v =
     \<lparr>ClusterHostnames = strings_of_value (v ''ClusterHostnames''),
      MatchstorePort = int_of_value (v ''MatchstorePort''), KvstorePort = int_of_value (v ''KvstorePort'')\<rparr>"

definition grpc_initialization :: "env_process \<Rightarrow> environment \<Rightarrow> GrpcConfiguration result" where
  "grpc_initialization process env =
     (case process grpc_fields env of
        Inl err \<Rightarrow> Err (configuration_error @ '': '' @ err)
      | Inr v \<Rightarrow>
          (case validate (grpc_configuration v) of
             Inl err \<Rightarrow> Err (''wrong configuration: '' @ err)
           | Inr config \<Rightarrow> Ok config))"

definition redis_fields :: "env_field list" where
  "redis_fields =
     [env_field ''RedisAddress'' ''REDIS_ADDRESS'' StringField (Some ''localhost:6379''),
      env_field ''RedisPassword'' ''REDIS_PASSWORD'' StringField (Some []),
      env_field ''MatchstoreRedisDB'' ''MATCHSTORE_REDIS_DB'' IntField (Some ''0''),
      env_field ''KvstoreRedisDB'' ''KVSTORE_REDIS_DB'' IntField (Some ''1'')]"

definition redis_configuration :: "(string \<Rightarrow> env_value) \<Rightarrow> RedisConfiguration" where
  "redis_configuration v =
     \<lparr>RedisAddress = string_of_value (v ''RedisAddress''), RedisPassword = string_of_value (v ''RedisPassword''),
      MatchstoreRedisDB = int_of_value (v ''MatchstoreRedisDB''),
      KvstoreRedisDB = int_of_value (v ''KvstoreRedisDB'')\<rparr>"

definition redis_init :: "env_process \<Rightarrow> environment \<Rightarrow> RedisConfiguration result" where
  "redis_init process env =
     (case process redis_fields env of
        Inl err \<Rightarrow> Err (configuration_error @ '': '' @ err)
      | Inr v \<Rightarrow>
          (case redis_initialization (redis_configuration v) of
             Some err \<Rightarrow> Err err
           | None \<Rightarrow> Ok (redis_configuration v)))"

section \<open>Loggers, handlers and metrics\<close>

text \<open>What the process gets of the system and of libraries.\<close>

record 'l zap_config =
  zcProduction :: bool
  zcLevel :: 'l

record ('l, 'lg, 'g) platform =
  pfEnvironment :: environment
  pfProcess :: env_process
  pfParseLevel :: "string \<Rightarrow> error + 'l"
  pfBuild :: "'l zap_config \<Rightarrow> error + 'lg"
  pfRegister :: "string \<Rightarrow> 'g \<Rightarrow> 'g \<times> error option"

definition CreateLogger :: "('l, 'lg, 'g) platform \<Rightarrow> string \<Rightarrow> 'lg result" where
  "CreateLogger pf logLevelTxt =
     (let logType = Getenv (pfEnvironment pf) ''LOGTYPE'';
          production = logType = ''prod'' \<or> logType = ''production''
      in case pfParseLevel pf logLevelTxt of
           Inl err \<Rightarrow> Err err
         | Inr level \<Rightarrow>
             (case pfBuild pf \<lparr>zcProduction = production, zcLevel = level\<rparr> of
                Inl err \<Rightarrow> Err err
              | Inr logger \<Rightarrow> Ok logger))"

text \<open>The handlers as their constructors make them; the fields for credentials are never set.\<close>

record ('t, 's, 'm, 'k, 'v, 'lg) mockRequestHandler =
  mhPathPrefix :: string
  mhMockDir :: string
  mhMockFilepattern :: string
  mhLogger :: 'lg
  mhEpSearchNode :: "'t epSearchNode"
  mhMatchstore :: "('s, 'm) backend"
  mhFuncMap :: "(string \<times> ('k, 'v) template_func) list"

definition mock_NewRequestHandler ::
  "('l, 'lg, 'g) platform \<Rightarrow> string \<Rightarrow> string \<Rightarrow> string \<Rightarrow> ('s, 'm) backend
     \<Rightarrow> (string \<times> ('k, 'v) template_func) list \<Rightarrow> string \<Rightarrow> ('t, 's, 'm, 'k, 'v, 'lg) mockRequestHandler result" where
  "mock_NewRequestHandler pf pathPrefix mockDir mockFilepattern matchstore funcMap logLevel =
     bind_result (CreateLogger pf logLevel) (\<lambda>logger.
       Ok \<lparr>mhPathPrefix = pathPrefix, mhMockDir = mockDir, mhMockFilepattern = mockFilepattern,
           mhLogger = logger, mhEpSearchNode = empty_node, mhMatchstore = matchstore, mhFuncMap = funcMap\<rparr>)"

record ('s, 'm, 'lg) matchesRequestHandler =
  rhPathPrefix :: string
  rhMatchStore :: "('s, 'm) backend"
  rhLogger :: 'lg

definition matches_NewRequestHandler ::
  "('l, 'lg, 'g) platform \<Rightarrow> string \<Rightarrow> ('s, 'm) backend \<Rightarrow> string
     \<Rightarrow> ('s, 'm, 'lg) matchesRequestHandler result" where
  "matches_NewRequestHandler pf pathPrefix matchStore logLevel =
     bind_result (CreateLogger pf logLevel) (\<lambda>logger.
       Ok \<lparr>rhPathPrefix = pathPrefix, rhMatchStore = matchStore, rhLogger = logger\<rparr>)"

record ('k, 'v, 'lg) kvRequestHandler =
  khPathPrefix :: string
  khLogger :: 'lg
  khStorage :: "('k, 'v) Storage"

definition kv_NewRequestHandler ::
  "('l, 'lg, 'g) platform \<Rightarrow> string \<Rightarrow> ('k, 'v) Storage \<Rightarrow> string \<Rightarrow> ('k, 'v, 'lg) kvRequestHandler result" where
  "kv_NewRequestHandler pf pathPrefix storage logLevel =
     bind_result (CreateLogger pf logLevel) (\<lambda>logger.
       Ok \<lparr>khPathPrefix = pathPrefix, khLogger = logger, khStorage = storage\<rparr>)"

definition RegisterMetrics :: "('l, 'lg, 'g) platform \<Rightarrow> 'g \<Rightarrow> 'g \<times> error option" where
  "RegisterMetrics pf g =
     (case pfRegister pf ''matches'' g of
        (g1, Some err) \<Rightarrow> (g1, Some err)
      | (g1, None) \<Rightarrow> pfRegister pf ''mismatches'' g1)"

section \<open>SetupRouter up to the goroutines\<close>

text \<open>What is there when the goroutines start.\<close>

record ('t, 's, 'k, 'g) running =
  rnLifecycle :: "('s, 'k) lifecycle"
  rnRoutes :: "('t, 's, 'k) conn_state route list"
  rnServer :: "('t, 's, 'k) server_state"
  rnRegistry :: 'g

definition load_result :: "'t epSearchNode result \<Rightarrow> 't epSearchNode result" where
  "load_result loaded = (case loaded of Ok tree \<Rightarrow> Ok tree | Err e \<Rightarrow> Err mockfiles_error | Panic p \<Rightarrow> Panic p)"

text \<open>The error of \<open>RegisterMetrics\<close> is not looked at. The routes are added by the handlers that have been made.\<close>

definition setup_server ::
  "('l, 'lg, 'g) platform \<Rightarrow> ('t, 'j, 's, 'm, 'k, 'v) server_setup \<Rightarrow> string \<Rightarrow> 's \<Rightarrow> 'k \<Rightarrow> 'g
     \<Rightarrow> ('t, 's, 'k, 'g) running result" where
  "setup_server pf su configInfo store kv g =
     (let c = suConfig su; p = APIPathPrefix c in
      bind_result (CreateLogger pf (LoglevelAPI c)) (\<lambda>logger.
      bind_result (Info c) (\<lambda>info.
      bind_result (mock_NewRequestHandler pf p (MockDir c) (MockFilepattern c) (suMatchstore su)
          (NewKVStoreTemplateFuncMap (suStorage su)) (LoglevelMock c)
          :: ('t, 's, 'm, 'k, 'v, 'lg) mockRequestHandler result) (\<lambda>mockHandler.
      bind_result (load_result (LoadFiles (suLoader su) (mhMockDir mockHandler) (mhMockFilepattern mockHandler)))
        (\<lambda>tree.
      bind_result (matches_NewRequestHandler pf p (suMatchstore su) (LoglevelAPI c)) (\<lambda>matchHandler.
      bind_result (kv_NewRequestHandler pf p (suStorage su) (LoglevelAPI c)) (\<lambda>kvHandler.
        Ok \<lparr>rnLifecycle = first_state (info @ configInfo) store kv,
            rnRoutes = [PathRoute ''health'' (p @ ''/health'') (Some ''GET'') serve_health]
              @ mock_AddRoutes su
              @ api_routes (matches_AddRoutes (rhPathPrefix matchHandler)
                  (api_matchstore (rhMatchStore matchHandler)) (suMatchesJson su) (suMismatchesJson su))
              @ api_routes (kv_AddRoutes (khPathPrefix kvHandler) (api_storage (khStorage kvHandler)) (suCodec su))
              @ [PathRoute ''metrics'' (p @ ''/metrics'') None
                  (\<lambda>r w c. let h = svHandler (fst c)
                    in Ok (suMetrics su r (hsMatchesMetric h) (hsMismatchesMetric h) w, c))],
            rnServer = start_server tree store kv,
            rnRegistry = fst (RegisterMetrics pf g)\<rparr>)))))))"

section \<open>The main functions\<close>

text \<open>The standalone variant; the packages are initialised before \<open>main\<close> runs. The setup has everything but the
  configuration.\<close>

definition standalone_main ::
  "('l, 'lg, 'g) platform \<Rightarrow> ('t, 'j, (nat, Mismatch) InMemoryMatchstore, nat, 'v InmemoryStorage, 'v) server_setup
     \<Rightarrow> 'g \<Rightarrow> ('t, (nat, Mismatch) InMemoryMatchstore, 'v InmemoryStorage, 'g) running result" where
  "standalone_main pf su g =
     bind_result (starter_init (pfProcess pf) (pfEnvironment pf)) (\<lambda>c.
       setup_server pf (su\<lparr>suConfig := c, suMatchstore := inmemory_backend, suStorage := inmemory_storage\<rparr>) []
         (NewInMemoryMatchstore (store_capacity c)) NewInmemoryStorage g)"

text \<open>The grpc variant up to the call of \<open>SetupRouter\<close>: the basic configuration, its own, the two stores. The constructors
  make their logger first.\<close>

definition grpc_start ::
  "('l, 'lg, 'g) platform \<Rightarrow> (string \<Rightarrow> error + 'c) \<Rightarrow> (string \<Rightarrow> error + 'd) \<Rightarrow> string \<Rightarrow> string
     \<Rightarrow> (BasicConfiguration \<times> GrpcConfiguration \<times> 'c grpcMatchstore \<times> ('d, 'v) grpcStorage) result" where
  "grpc_start pf dial_matchstore dial_kvstore uuid1 uuid2 =
     bind_result (starter_init (pfProcess pf) (pfEnvironment pf)) (\<lambda>basic.
     bind_result (grpc_initialization (pfProcess pf) (pfEnvironment pf)) (\<lambda>config.
     let wiring = grpc_main config basic in
     bind_result (CreateLogger pf (LoglevelAPI basic)) (\<lambda>logger1.
     case NewGrpcMatchstore dial_matchstore uuid1 (matchstore_addresses wiring) (matchstore_capacity wiring) of
       Inl err \<Rightarrow> Err (''can'' @ [CHR 0x27] @ ''t initialize grpc matchstore: '' @ err)
     | Inr matchStore \<Rightarrow>
         bind_result (CreateLogger pf (LoglevelAPI basic)) (\<lambda>logger2.
         case NewGrpcStorage dial_kvstore uuid2 (kvstore_addresses wiring) of
           Inl err \<Rightarrow> Err (''can'' @ [CHR 0x27] @ ''t initialize grpc kvstore: '' @ err)
         | Inr storage \<Rightarrow> Ok (basic, config, matchStore, storage)))))"

text \<open>The redis variant up to the call of \<open>SetupRouter\<close>, with the text it passes.\<close>

definition redis_start ::
  "('l, 'lg, 'g) platform \<Rightarrow> (RedisOptions \<Rightarrow> 's redis) \<Rightarrow> match_codec \<Rightarrow> 'v json_codec \<Rightarrow> 's
     \<Rightarrow> (BasicConfiguration \<times> string \<times> ('s, Match, Mismatch) Matchstore \<times> ('s, 'v) Storage) result" where
  "redis_start pf newClient mc js s =
     bind_result (starter_init (pfProcess pf) (pfEnvironment pf)) (\<lambda>basic.
     bind_result (redis_init (pfProcess pf) (pfEnvironment pf)) (\<lambda>config.
     case redis_main newClient mc js config basic s of
       Inl err \<Rightarrow> Err err
     | Inr (text, matchStore, storage) \<Rightarrow> bind_result text (\<lambda>info. Ok (basic, info, matchStore, storage))))"

text \<open>The whole \<open>main\<close> of the redis variant. The two stores work on different data bases of one server, so the
  state is kept once for each (\<open>RedisVariant\<close> shows that neither disturbs the other).\<close>

definition redis_variant_main ::
  "('l, 'lg, 'g) platform \<Rightarrow> ('t, 'j, 's, Match, 's, 'v) server_setup \<Rightarrow> (RedisOptions \<Rightarrow> 's redis) \<Rightarrow> match_codec
     \<Rightarrow> 'v json_codec \<Rightarrow> 's \<Rightarrow> 'g \<Rightarrow> ('t, 's, 's, 'g) running result" where
  "redis_variant_main pf su newClient mc js s g =
     bind_result (redis_start pf newClient mc js s) (\<lambda>(basic, info, matchStore, storage).
       setup_server pf (su\<lparr>suConfig := basic, suMatchstore := copies matchStore, suStorage := storage\<rparr>) info s s g)"

end
