(* ===== verification/RouterProps.thy ===== *)
theory RouterProps
  imports Router
begin

text \<open>
  What a request may do to the server, depending on its path and credentials: access control over
  all routes, the frame of the API, and the routing of requests for mock endpoints.
\<close>

section \<open>Finding a route\<close>

lemma find_route_declined:
  assumes "\<forall>m h. MatcherRoute m h \<in> set rts \<longrightarrow> m now r s = Ok (False, r, s)"
  shows "find_route mx now rts wrong r s = (NoRoute, s) \<or> find_route mx now rts wrong r s = (MethodMismatch, s)
    \<or> (\<exists>name path m h vars. PathRoute name path m h \<in> set rts \<and> muxMatch mx path m r = Bound vars
        \<and> find_route mx now rts wrong r s = (Found h (r\<lparr>muxVars := vars\<rparr>), s))"
  using assms
proof (induction rts arbitrary: wrong)
  case (Cons rt rts)
  have prems: "\<forall>m h. MatcherRoute m h \<in> set rts \<longrightarrow> m now r s = Ok (False, r, s)"
    using Cons.prems by simp
  consider (found) name path m h vars where "rt = PathRoute name path m h" "muxMatch mx path m r = Bound vars"
    | (skipped) wrong' where "find_route mx now (rt # rts) wrong r s = find_route mx now rts wrong' r s"
  proof (cases rt)
    case (PathRoute name path m h)
    then show ?thesis using that by (cases "muxMatch mx path m r") simp_all
  next
    case (MatcherRoute m h)
    then show ?thesis using that(2) Cons.prems by simp
  qed
  then show ?case
  proof cases
    case found
    then have "PathRoute name path m h \<in> set (rt # rts)"
      "find_route mx now (rt # rts) wrong r s = (Found h (r\<lparr>muxVars := vars\<rparr>), s)" by simp_all
    with found(2) show ?thesis by blast
  next
    case skipped
    from Cons.IH [OF prems, of wrong'] show ?thesis
      unfolding skipped by (meson list.set_intros(2))
  qed
qed simp

lemma find_route_different:
  "\<forall>rt\<in>set rts. \<exists>name path m h. rt = PathRoute name path m h \<and> muxMatch mx path m r = Different \<Longrightarrow>
   find_route mx now rts wrong r s = (if wrong then MethodMismatch else NoRoute, s)"
proof (induction rts)
  case (Cons rt rts)
  from Cons.prems obtain name path m h where "rt = PathRoute name path m h" "muxMatch mx path m r = Different"
    by (meson list.set_intros(1))
  moreover have "find_route mx now rts wrong r s = (if wrong then MethodMismatch else NoRoute, s)"
    using Cons by (meson list.set_intros(2))
  ultimately show ?case by simp
qed simp

text \<open>The routes of the server: only one has a matcher function, and it takes no request under
  the prefix of the API.\<close>

lemmas setup_defs = SetupRouter_def mock_AddRoutes_def api_routes_def matches_AddRoutes_def kv_AddRoutes_def
  path_params Let_def

lemma setup_matcher_declines:
  assumes "has_prefix (urlPath r) (APIPathPrefix (suConfig su))" and "MatcherRoute m h \<in> set (SetupRouter su)"
  shows "m now r c = Ok (False, r, c)"
  using assms by (auto simp: setup_defs mock_matcher_prefix)

text \<open>A request under the prefix of the API is redirected or refused, or one of the path routes
  handles it behind the authentication, on the unchanged state.\<close>

lemma serve_http_api:
  assumes "has_prefix (urlPath r) (APIPathPrefix (suConfig su))"
  shows "serve_http mx su now r sv \<in> {(Moved (muxClean mx (urlPath r)), sv), (Served NotFound, sv), (MethodNotAllowed, sv)}
    \<or> (\<exists>name path m h vars. PathRoute name path m h \<in> set (SetupRouter su) \<and> muxMatch mx path m r = Bound vars
        \<and> serve_http mx su now r sv =
            reply_of (BasicAuthMiddleware (APIPathPrefix (suConfig su)) (APIUsername (suConfig su))
              (APIPassword (suConfig su)) h (r\<lparr>muxVars := vars\<rparr>) new_writer (sv, None)) sv)"
proof -
  have "\<forall>m h. MatcherRoute m h \<in> set (SetupRouter su) \<longrightarrow> m now r (sv, None) = Ok (False, r, sv, None)"
    using setup_matcher_declines [OF assms] by blast
  from find_route_declined [OF this, of mx False] show ?thesis
  proof (elim disjE exE conjE)
    fix name path m h vars
    assume found: "PathRoute name path m h \<in> set (SetupRouter su)" "muxMatch mx path m r = Bound vars"
      "find_route mx now (SetupRouter su) False r (sv, None) = (Found h (r\<lparr>muxVars := vars\<rparr>), sv, None)"
    then have "serve_http mx su now r sv = (Moved (muxClean mx (urlPath r)), sv)
      \<or> serve_http mx su now r sv = reply_of (BasicAuthMiddleware (APIPathPrefix (suConfig su)) (APIUsername (suConfig su))
          (APIPassword (suConfig su)) h (r\<lparr>muxVars := vars\<rparr>) new_writer (sv, None)) sv"
      by (simp add: serve_http_def)
    with found(1,2) show ?thesis by blast
  qed (simp_all add: serve_http_def)
qed

lemma request_BasicAuth_vars [simp]: "request_BasicAuth (r\<lparr>muxVars := vars\<rparr>) = request_BasicAuth r"
  by (simp add: request_BasicAuth_def)

section \<open>What a handler may change\<close>

definition reads_only :: "('t, 's, 'k) conn_state handler \<Rightarrow> bool" where
  "reads_only h \<longleftrightarrow> (\<forall>r w sv. \<exists>w' e. h r w (sv, None) = Ok (w', sv, e))"

text \<open>At most one of the tree, the match store and the key-value store differs.\<close>

definition one_part_changed :: "('t, 's, 'k) server_state \<Rightarrow> ('t, 's, 'k) server_state \<Rightarrow> bool" where
  "one_part_changed sv sv' \<longleftrightarrow>
     (\<exists>tree. sv' = sv\<lparr>svHandler := (svHandler sv)\<lparr>hsEpSearchNode := tree\<rparr>\<rparr>)
     \<or> (\<exists>store. sv' = sv\<lparr>svHandler := (svHandler sv)\<lparr>hsMatchstore := store\<rparr>\<rparr>)
     \<or> (\<exists>world. sv' = sv\<lparr>svWorld := world\<rparr>)"

definition changes_one_part :: "('t, 's, 'k) conn_state handler \<Rightarrow> bool" where
  "changes_one_part h \<longleftrightarrow> (\<forall>r w sv. \<exists>w' sv' e. h r w (sv, None) = Ok (w', sv', e) \<and> one_part_changed sv sv')"

lemma one_part_changed_refl [simp]: "one_part_changed sv sv"
  unfolding one_part_changed_def by (rule disjI2, rule disjI2, rule exI [where x = "svWorld sv"]) simp

lemma reads_only_changes: "reads_only h \<Longrightarrow> changes_one_part h"
  unfolding reads_only_def changes_one_part_def by (metis one_part_changed_refl)

text \<open>The plain handlers, before a panic is caught.\<close>

definition keeps :: "('t, 's, 'k) server_state handler \<Rightarrow> bool" where
  "keeps h \<longleftrightarrow> (\<forall>r w sv w' sv'. h r w sv = Ok (w', sv') \<longrightarrow> sv' = sv)"

definition changes :: "('t, 's, 'k) server_state handler \<Rightarrow> bool" where
  "changes h \<longleftrightarrow> (\<forall>r w sv w' sv'. h r w sv = Ok (w', sv') \<longrightarrow> one_part_changed sv sv')"

lemma catching_keeps: "keeps h \<Longrightarrow> reads_only (catching h)"
  unfolding keeps_def reads_only_def catching_def by (auto split: result.split)

lemma catching_changes: "changes h \<Longrightarrow> changes_one_part (catching h)"
  unfolding changes_def changes_one_part_def catching_def by (auto split: result.split)

lemma wrapped_keeps:
  "keeps h \<Longrightarrow> keeps (JSONAcceptRequest h)" "keeps h \<Longrightarrow> keeps (PathParamRequest ps h)"
  by (auto simp: keeps_def JSONAcceptRequest_def PathParamRequest_eq split: if_splits option.splits)

lemma wrapped_changes:
  "changes h \<Longrightarrow> changes (JSONContentTypeRequest h)" "changes h \<Longrightarrow> changes (PathParamRequest ps h)"
  by (auto simp: changes_def JSONContentTypeRequest_def PathParamRequest_eq split: if_splits option.splits)

lemma matches_handlers_keep:
  "keeps (handleGetMatches (api_matchstore ms) marshal)" "keeps (handleGetMatchesCount (api_matchstore ms))"
  "keeps (handleGetMismatches (api_matchstore ms) marshal')" "keeps (handleGetMismatchesCount (api_matchstore ms))"
  by (auto simp: keeps_def handleGetMatches_def handleGetMatchesCount_def handleGetMismatches_def
      handleGetMismatchesCount_def bind_result_Ok_iff)

lemma kv_handlers_keep:
  "keeps (handleGetKVStore (api_storage st) js)" "keeps (handleGetAllKVStore (api_storage st) js)"
  by (auto simp: keeps_def handleGetKVStore_def handleGetAllKVStore_def split: result.splits option.splits)

lemma store_operations_change:
  "DeleteMatches (api_matchstore ms) ep sv = (sv', e) \<Longrightarrow> one_part_changed sv sv'"
  "DeleteMismatches (api_matchstore ms) sv = (sv', e) \<Longrightarrow> one_part_changed sv sv'"
  "Put (api_storage st) a k v sv = (sv', e) \<Longrightarrow> one_part_changed sv sv'"
  unfolding one_part_changed_def api_matchstore_def api_storage_def by (auto simp: Let_def split: prod.splits)

lemma matches_handlers_change:
  "changes (handleDeleteMatches (api_matchstore ms))" "changes (handleDeleteMismatches (api_matchstore ms))"
  by (auto simp: changes_def handleDeleteMatches_def handleDeleteMismatches_def
      dest: store_operations_change split: prod.splits option.splits)

lemma kv_handlers_change:
  "changes (handlePutKVStore (api_storage st) js)" "changes (handleRemoveKVStore (api_storage st))"
  by (auto simp: changes_def handlePutKVStore_def handleRemoveKVStore_def
      dest: store_operations_change split: sum.splits prod.splits option.splits)

lemma reload_changes: "changes (handleReload loader dir pattern :: ('t, 's, 'k) server_state handler)"
proof -
  have "one_part_changed sv (sv\<lparr>svHandler := (svHandler sv)\<lparr>hsEpSearchNode := tree\<rparr>\<rparr>)"
    for sv :: "('t, 's, 'k) server_state" and tree
    unfolding one_part_changed_def by blast
  then show ?thesis by (auto simp: changes_def handleReload_def split: result.splits)
qed

lemma setup_read_routes:
  assumes "PathRoute name path m h \<in> set (SetupRouter su)" and "m = Some ''GET'' \<or> m = None"
  shows "reads_only h"
proof -
  have "reads_only serve_health" by (simp add: reads_only_def serve_health_def)
  moreover have "reads_only (\<lambda>r w c. let h = svHandler (fst c)
      in Ok (suMetrics su r (hsMatchesMetric h) (hsMismatchesMetric h) w, c))"
    by (simp add: reads_only_def Let_def)
  ultimately show ?thesis
    using assms
    by (auto simp: setup_defs intro!: catching_keeps wrapped_keeps matches_handlers_keep kv_handlers_keep)
qed

lemma setup_routes_change:
  assumes "PathRoute name path m h \<in> set (SetupRouter su)"
  shows "changes_one_part h"
proof (cases "m = Some ''GET'' \<or> m = None")
  case True
  with setup_read_routes [OF assms] show ?thesis by (simp add: reads_only_changes)
next
  case False
  with assms show ?thesis
    by (auto simp: setup_defs intro!: catching_changes wrapped_changes matches_handlers_change
        kv_handlers_change reload_changes)
qed

section \<open>Properties\<close>

text \<open>C36: Access control over the whole server: a request whose path lies under the prefix of the API
  and does not end in \<open>/health\<close>, without the configured credentials, changes nothing, whatever its
  method and whichever route it means, and it is answered with a redirect, 401, 404 or 405.\<close>

theorem unauthorized_request_changes_nothing:
  assumes "has_prefix (urlPath r) (APIPathPrefix (suConfig su))" and "\<not> has_suffix (urlPath r) ''/health''"
    and "request_BasicAuth r \<noteq> Some (APIUsername (suConfig su), APIPassword (suConfig su))"
  shows "snd (serve_http mx su now r sv) = sv
    \<and> (case fst (serve_http mx su now r sv) of
         Moved path \<Rightarrow> path \<noteq> urlPath r
       | MethodNotAllowed \<Rightarrow> True
       | Served ans \<Rightarrow> ans = NotFound \<or> (\<exists>w. ans = Answered w \<and> rwStatus w = Some 401))"
proof (cases "muxClean mx (urlPath r) = urlPath r")
  case True
  have denied: "\<exists>w. BasicAuthMiddleware (APIPathPrefix (suConfig su)) (APIUsername (suConfig su))
      (APIPassword (suConfig su)) h (r\<lparr>muxVars := vars\<rparr>) new_writer c = Ok (w, c) \<and> rwStatus w = Some 401"
    for h :: "('a, 'c, 'e) conn_state handler" and vars c
  proof -
    have "rwStatus new_writer = None" by (simp add: new_writer_def)
    from auth_guard [OF this, of "r\<lparr>muxVars := vars\<rparr>" "APIPathPrefix (suConfig su)"
        "APIUsername (suConfig su)" "APIPassword (suConfig su)" h c] assms
    show ?thesis by simp
  qed
  have "serve_http mx su now r sv \<noteq> (Moved (muxClean mx (urlPath r)), sv)"
    using True by (auto simp: serve_http_def reply_of_def split: prod.splits routing.splits result.splits option.splits)
  with serve_http_api [OF assms(1), of mx now sv] show ?thesis
  proof (elim disjE exE conjE)
    fix h vars
    assume s: "serve_http mx su now r sv = reply_of (BasicAuthMiddleware (APIPathPrefix (suConfig su))
        (APIUsername (suConfig su)) (APIPassword (suConfig su)) h (r\<lparr>muxVars := vars\<rparr>) new_writer (sv, None)) sv"
    from denied [of h vars "(sv, None)"] show ?thesis unfolding s by (auto simp: reply_of_def)
  qed auto
next
  case False
  then show ?thesis by (simp add: serve_http_def)
qed

text \<open>C37: What the API may change: a request under its prefix changes at most one of the search tree, the match
  store and the key-value store, and neither the recorded matches, the counters of the metrics nor the variables
  the mock routes share; a \<open>GET\<close> request under the prefix changes nothing at all.\<close>

theorem api_request_frame:
  assumes "has_prefix (urlPath r) (APIPathPrefix (suConfig su))"
    and "\<And>path m vars. muxMatch mx path (Some m) r = Bound vars \<Longrightarrow> reqMethod r = m"
  shows "one_part_changed sv (snd (serve_http mx su now r sv))
    \<and> (reqMethod r = ''GET'' \<longrightarrow> snd (serve_http mx su now r sv) = sv)"
  using serve_http_api [OF assms(1), of mx now sv]
proof (elim disjE exE conjE)
  fix name path m vars and h :: "('a, 'c, 'e) conn_state handler"
  assume rt: "PathRoute name path m h \<in> set (SetupRouter su)" "muxMatch mx path m r = Bound vars"
    and s: "serve_http mx su now r sv = reply_of (BasicAuthMiddleware (APIPathPrefix (suConfig su))
        (APIUsername (suConfig su)) (APIPassword (suConfig su)) h (r\<lparr>muxVars := vars\<rparr>) new_writer (sv, None)) sv"
  let ?res = "BasicAuthMiddleware (APIPathPrefix (suConfig su)) (APIUsername (suConfig su))
    (APIPassword (suConfig su)) h (r\<lparr>muxVars := vars\<rparr>) new_writer (sv, None)"
  have cases: "(\<exists>w. ?res = Ok (w, sv, None)) \<or> ?res = h (r\<lparr>muxVars := vars\<rparr>) new_writer (sv, None)"
    by (auto simp: BasicAuthMiddleware_def split: option.split)
  obtain w sv' e where h: "h (r\<lparr>muxVars := vars\<rparr>) new_writer (sv, None) = Ok (w, sv', e)" "one_part_changed sv sv'"
    using setup_routes_change [OF rt(1)] unfolding changes_one_part_def by blast
  have "sv' = sv" if "reqMethod r = ''GET''"
  proof -
    have "m = Some ''GET'' \<or> m = None" using rt(2) assms(2) that by (cases m) auto
    from setup_read_routes [OF rt(1) this] obtain w' e' where
      "h (r\<lparr>muxVars := vars\<rparr>) new_writer (sv, None) = Ok (w', sv, e')" unfolding reads_only_def by blast
    with h(1) show ?thesis by simp
  qed
  moreover have "snd (serve_http mx su now r sv) = sv \<or> snd (serve_http mx su now r sv) = sv'"
    using cases h(1) unfolding s by (auto simp: reply_of_def split: option.split)
  ultimately show ?thesis using h(2) by auto
qed auto

end
