(* ===== verification/RouterTemplates.thy ===== *)
theory RouterTemplates
  imports RouterProps
begin

text \<open>
  Path templates. The router is documented to match a template segment by segment, a
  segment \<open>{name}\<close> against any segment that is not empty, and to bind the name. \<open>template_match\<close>
  says so as a function; \<open>template_law\<close> states that the router of the library agrees with it on
  templates without regular expressions, which are all the server has when the prefix of its API has
  no braces. Under this law the server is, for the paths that are not the API's, the server of mock endpoints,
  and its API reports what that server has done.
\<close>

section \<open>Matching a template\<close>

fun match_parts :: "string list \<Rightarrow> string list \<Rightarrow> (string \<rightharpoonup> string) option" where
  "match_parts [] [] = Some Map.empty"
| "match_parts (t # ts) (s # ss) =
     (if is_path_param t
      then (if s = [] then None else map_option (\<lambda>vars. vars(segment_param t \<mapsto> s)) (match_parts ts ss))
      else if t = s then match_parts ts ss else None)"
| "match_parts _ _ = None"

definition template_match :: "string \<Rightarrow> string option \<Rightarrow> request \<Rightarrow> route_match" where
  "template_match t m r =
     (case match_parts (split_on (CHR ''/'') t) (split_on (CHR ''/'') (urlPath r)) of
        None \<Rightarrow> Different
      | Some vars \<Rightarrow> if m = None \<or> m = Some (reqMethod r) then Bound vars else WrongMethod)"

definition plain_text :: "string \<Rightarrow> bool" where
  "plain_text s \<longleftrightarrow> CHR ''{'' \<notin> set s \<and> CHR ''}'' \<notin> set s"

text \<open>A segment of a template is plain text or one variable without a regular expression.\<close>

definition plain_part :: "string \<Rightarrow> bool" where
  "plain_part t \<longleftrightarrow> plain_text t
     \<or> (is_path_param t \<and> segment_param t \<noteq> [] \<and> plain_text (segment_param t) \<and> CHR '':'' \<notin> set (segment_param t))"

definition plain_template :: "string \<Rightarrow> bool" where
  "plain_template t \<longleftrightarrow> list_all plain_part (split_on (CHR ''/'') t)"

definition template_law :: "mux_env \<Rightarrow> bool" where
  "template_law mx \<longleftrightarrow> (\<forall>t m r. plain_template t \<longrightarrow> muxMatch mx t m r = template_match t m r)"

lemma split_append: "split_on c (p @ c # s) = split_on c p @ split_on c s"
proof (induction p)
  case (Cons x p)
  then show ?case by (cases "split_on c p") auto
qed simp

lemma split_chars: "q \<in> set (split_on c s) \<Longrightarrow> set q \<subseteq> set s"
proof (induction s arbitrary: q)
  case (Cons x xs)
  then show ?case by (cases "split_on c xs") (fastforce split: if_splits)+
qed simp

lemma plain_text_parts: "plain_text p \<Longrightarrow> list_all plain_text (split_on c p)"
  unfolding plain_text_def list_all_iff using split_chars by blast

lemma plain_text_no_param: "plain_text s \<Longrightarrow> \<not> is_path_param s"
  by (auto simp: plain_text_def is_path_param_def has_prefix_iff)

lemma plain_template_api:
  "plain_text p \<Longrightarrow> plain_template t \<Longrightarrow> plain_template (p @ CHR ''/'' # t)"
  using plain_text_parts [of p "CHR ''/''"]
  by (auto simp: plain_template_def split_append plain_part_def list_all_iff)

lemma match_parts_prefix:
  "list_all plain_text ts \<Longrightarrow> match_parts (ts @ ts') (ts @ ss) = match_parts ts' ss"
  by (induction ts) (simp_all add: plain_text_no_param)

lemma match_parts_prefixD:
  "list_all plain_text ts \<Longrightarrow> match_parts (ts @ ts') ss = Some vars \<Longrightarrow> \<exists>ss'. ss = ts @ ss'"
proof (induction ts arbitrary: ss vars)
  case (Cons t ts)
  then show ?case by (cases ss) (auto simp: plain_text_no_param split: if_splits)
qed simp

text \<open>Below the prefix only the rest of the template and of the path count, and a path that does not have the
  prefix fits no template that has it.\<close>

lemma template_match_api:
  assumes "plain_text p" and "urlPath r = p @ CHR ''/'' # u"
  shows "template_match (p @ CHR ''/'' # t) m r =
    (case match_parts (split_on (CHR ''/'') t) (split_on (CHR ''/'') u) of
       None \<Rightarrow> Different
     | Some vars \<Rightarrow> if m = None \<or> m = Some (reqMethod r) then Bound vars else WrongMethod)"
  using assms(2) by (simp add: template_match_def split_append match_parts_prefix [OF plain_text_parts [OF assms(1)]])

lemma join_append: "xs \<noteq> [] \<Longrightarrow> \<exists>t. join_with sep (xs @ ys) = join_with sep xs @ t"
proof (induction sep xs rule: join_with.induct)
  case (2 sep x)
  then show ?case by (cases ys) auto
qed auto

lemma template_match_other:
  assumes "plain_text p" and "\<not> has_prefix (urlPath r) p"
  shows "template_match (p @ CHR ''/'' # t) m r = Different"
proof -
  have "match_parts (split_on (CHR ''/'') (p @ CHR ''/'' # t)) (split_on (CHR ''/'') (urlPath r)) = None"
  proof (rule ccontr)
    assume "\<not> ?thesis"
    then obtain ss where ss: "split_on (CHR ''/'') (urlPath r) = split_on (CHR ''/'') p @ ss"
      using match_parts_prefixD [OF plain_text_parts [OF assms(1)]] unfolding split_append by blast
    obtain t' where "join_with [CHR ''/''] (split_on (CHR ''/'') (urlPath r)) = p @ t'"
      using join_append [of "split_on (CHR ''/'') p" "[CHR ''/'']" ss] join_split [of "CHR ''/''" p]
      unfolding ss by auto
    then have "urlPath r = p @ t'" by (simp add: join_split)
    with assms(2) show False by (auto simp: has_prefix_iff)
  qed
  then show ?thesis by (simp add: template_match_def)
qed

text \<open>The templates of the server.\<close>

definition api_tails :: "string list" where
  "api_tails = [''health'', ''reload'', ''matches/{endpointId}'', ''matchesCount/{endpointId}'', ''mismatches'',
     ''mismatchesCount'', ''kvstore/{store}/{key}'', ''kvstore/{store}'', ''metrics'']"

lemma api_tails_plain: "t \<in> set api_tails \<Longrightarrow> plain_template t"
proof -
  have "list_all plain_template api_tails" by code_simp
  then show "t \<in> set api_tails \<Longrightarrow> plain_template t" by (simp add: list_all_iff)
qed

lemma setup_templates:
  "PathRoute name path m h \<in> set (SetupRouter su) \<Longrightarrow>
   \<exists>t\<in>set api_tails. path = APIPathPrefix (suConfig su) @ CHR ''/'' # t"
  by (auto simp: setup_defs api_tails_def)

lemma mux_setup:
  assumes "template_law mx" and "plain_text (APIPathPrefix (suConfig su))"
    and "PathRoute name path m h \<in> set (SetupRouter su)"
  shows "muxMatch mx path m r = template_match path m r"
proof -
  from setup_templates [OF assms(3)] obtain t where t: "t \<in> set api_tails"
    "path = APIPathPrefix (suConfig su) @ CHR ''/'' # t" ..
  with plain_template_api [OF assms(2) api_tails_plain] have "plain_template path" by simp
  with assms(1) show ?thesis by (simp add: template_law_def)
qed

section \<open>Requests for mock endpoints\<close>

lemma setup_shape:
  "\<exists>rest. SetupRouter su = PathRoute ''health'' (APIPathPrefix (suConfig su) @ ''/health'') (Some ''GET'') serve_health
      # hd (mock_AddRoutes su) # rest \<and> (\<forall>rt\<in>set rest. \<exists>name path m h. rt = PathRoute name path m h)"
  by (auto simp: setup_defs)

lemma find_mock_route:
  assumes "template_law mx" and "plain_text (APIPathPrefix (suConfig su))"
    and "\<not> has_prefix (urlPath r) (APIPathPrefix (suConfig su))"
  shows "\<exists>found b sv'. mock_matcher (suMatchstore su) (APIPathPrefix (suConfig su)) now r sv = Ok (found, r\<lparr>reqBody := b\<rparr>, sv')
    \<and> find_route mx now (SetupRouter su) False r (sv, None) =
      (if found then Found (\<lambda>r w c. case mock_handler (suTemplates su) r (fst c) of (st, sv') \<Rightarrow> Ok (rdWriter st, sv', rdPanic st))
         (r\<lparr>reqBody := b\<rparr>) else NoRoute, sv', None)"
proof -
  let ?p = "APIPathPrefix (suConfig su)"
  obtain rest where rest: "SetupRouter su = PathRoute ''health'' (?p @ ''/health'') (Some ''GET'') serve_health
      # hd (mock_AddRoutes su) # rest" "\<forall>rt\<in>set rest. \<exists>name path m h. rt = PathRoute name path m h"
    using setup_shape by blast
  have different: "muxMatch mx path m r' = Different"
    if "PathRoute name path m h \<in> set (SetupRouter su)" "urlPath r' = urlPath r" for name path m h r'
  proof -
    from setup_templates [OF that(1)] obtain t where "path = ?p @ CHR ''/'' # t" by blast
    then show ?thesis
      using mux_setup [OF assms(1,2) that(1)] template_match_other [OF assms(2)] assms(3) that(2) by simp
  qed
  obtain found b sv' where m: "mock_matcher (suMatchstore su) ?p now r sv = Ok (found, r\<lparr>reqBody := b\<rparr>, sv')"
    using mock_matcher_outcome [OF assms(3), of "suMatchstore su" now sv] by blast
  have health: "muxMatch mx (?p @ ''/health'') (Some ''GET'') r = Different"
    using different [of "''health''" _ "Some ''GET''" serve_health r] by (simp add: rest)
  have none: "find_route mx now rest False (r\<lparr>reqBody := b\<rparr>) c = (NoRoute, c)" for c
  proof -
    have "\<forall>rt\<in>set rest. \<exists>name path m h. rt = PathRoute name path m h \<and> muxMatch mx path m (r\<lparr>reqBody := b\<rparr>) = Different"
    proof
      fix rt assume "rt \<in> set rest"
      with rest(2) obtain name path m h where rt: "rt = PathRoute name path m h" by blast
      with \<open>rt \<in> set rest\<close> have "PathRoute name path m h \<in> set (SetupRouter su)" by (simp add: rest(1))
      from different [OF this] rt show "\<exists>name path m h. rt = PathRoute name path m h
          \<and> muxMatch mx path m (r\<lparr>reqBody := b\<rparr>) = Different" by simp
    qed
    from find_route_different [OF this] show ?thesis by simp
  qed
  show ?thesis
    using m health none by (auto simp: rest(1) mock_AddRoutes_def Let_def)
qed

lemma mock_requests_dispatched:
  assumes "template_law mx" and "plain_text (APIPathPrefix (suConfig su))"
    and "\<not> has_prefix (urlPath r) (APIPathPrefix (suConfig su))" and "muxClean mx (urlPath r) = urlPath r"
  shows "serve_http mx su now r sv =
    (case serve (suMatchstore su) (suTemplates su) (APIPathPrefix (suConfig su)) now r sv of (ans, sv') \<Rightarrow> (Served ans, sv'))"
proof -
  obtain found b sv' where "mock_matcher (suMatchstore su) (APIPathPrefix (suConfig su)) now r sv = Ok (found, r\<lparr>reqBody := b\<rparr>, sv')"
    "find_route mx now (SetupRouter su) False r (sv, None) =
      (if found then Found (\<lambda>r w c. case mock_handler (suTemplates su) r (fst c) of (st, sv') \<Rightarrow> Ok (rdWriter st, sv', rdPanic st))
         (r\<lparr>reqBody := b\<rparr>) else NoRoute, sv', None)"
    using find_mock_route [OF assms(1-3), of now sv] by blast
  then show ?thesis
    using assms(3,4)
    by (cases found) (simp_all add: serve_http_def serve_def BasicAuthMiddleware_def reply_of_def answer_of_def
        split: prod.split option.split)
qed

text \<open>C23: Composition: for a router that keeps the law of templates and a prefix of the API without braces, the
  server answers every request whose path is clean and not under the prefix as the mock endpoints alone do, whatever
  other routes there are, and is left in the same state.\<close>

theorem mock_requests_served:
  assumes "template_law mx" and "plain_text (APIPathPrefix (suConfig su))"
    and "\<not> has_prefix (urlPath r) (APIPathPrefix (suConfig su))" and "muxClean mx (urlPath r) = urlPath r"
  shows "serve_http mx su now r sv =
    (case serve (suMatchstore su) (suTemplates su) (APIPathPrefix (suConfig su)) now r sv of (ans, sv') \<Rightarrow> (Served ans, sv'))"
  by (rule mock_requests_dispatched [OF assms])

section \<open>Requests to the API\<close>

text \<open>A client of the API asks for JSON at a clean path under the prefix, with the configured credentials.\<close>

definition api_query :: "mux_env \<Rightarrow> ('t, 'j, 's, 'm, 'k, 'v) server_setup \<Rightarrow> string \<Rightarrow> request \<Rightarrow> bool" where
  "api_query mx su tail r \<longleftrightarrow> reqMethod r = ''GET'' \<and> urlPath r = APIPathPrefix (suConfig su) @ CHR ''/'' # tail
     \<and> muxClean mx (urlPath r) = urlPath r \<and> header_get (reqHeader r) ''Accept'' = ''application/json''
     \<and> request_BasicAuth r = Some (APIUsername (suConfig su), APIPassword (suConfig su))"

text \<open>Below the prefix a route is found by the segments after it.\<close>

lemma mux_tail:
  assumes "template_law mx" and "plain_text p" and "urlPath r = p @ CHR ''/'' # u" and "t \<in> set api_tails"
  shows "muxMatch mx (p @ CHR ''/'' # t) m r =
    (case match_parts (split_on (CHR ''/'') t) (split_on (CHR ''/'') u) of
       None \<Rightarrow> Different
     | Some vars \<Rightarrow> if m = None \<or> m = Some (reqMethod r) then Bound vars else WrongMethod)"
  using assms(1) plain_template_api [OF assms(2) api_tails_plain [OF assms(4)]] template_match_api [OF assms(2,3)]
  by (simp add: template_law_def)

lemma mock_matcher_tail: "urlPath r = p @ CHR ''/'' # u \<Longrightarrow> mock_matcher ms p now r sv = Ok (False, r, sv)"
  by (rule mock_matcher_prefix) (simp add: has_prefix_def)

lemmas tail_eval = api_tails_def is_path_param_def segment_param_def has_prefix_def has_suffix_def

lemma matches_route:
  assumes "template_law mx" and "plain_text (APIPathPrefix (suConfig su))"
    and "urlPath r = APIPathPrefix (suConfig su) @ CHR ''/'' # ''matches/'' @ ep" and "reqMethod r = ''GET''"
    and "ep \<noteq> []" and "CHR ''/'' \<notin> set ep"
  shows "find_route mx now (SetupRouter su) False r c =
    (Found (catching (JSONAcceptRequest (PathParamRequest [''endpointId'']
       (handleGetMatches (api_matchstore (suMatchstore su)) (suMatchesJson su))))) (r\<lparr>muxVars := [''endpointId'' \<mapsto> ep]\<rparr>), c)"
  using assms(4,5)
  by (simp add: setup_defs tail_eval mock_matcher_tail [OF assms(3)] mux_tail [OF assms(1-3)] split_no_sep [OF assms(6)])

lemma mismatches_route:
  assumes "template_law mx" and "plain_text (APIPathPrefix (suConfig su))"
    and "urlPath r = APIPathPrefix (suConfig su) @ CHR ''/'' # ''mismatches''" and "reqMethod r = ''GET''"
  shows "find_route mx now (SetupRouter su) False r c =
    (Found (catching (JSONAcceptRequest (handleGetMismatches (api_matchstore (suMatchstore su)) (suMismatchesJson su))))
       (r\<lparr>muxVars := Map.empty\<rparr>), c)"
  using assms(4)
  by (simp add: setup_defs tail_eval mock_matcher_tail [OF assms(3)] mux_tail [OF assms(1-3)])

lemma kv_routes:
  assumes "template_law mx" and "plain_text (APIPathPrefix (suConfig su))"
    and "urlPath r = APIPathPrefix (suConfig su) @ CHR ''/'' # ''kvstore/'' @ a @ CHR ''/'' # k"
    and "a \<noteq> []" and "CHR ''/'' \<notin> set a" and "k \<noteq> []" and "CHR ''/'' \<notin> set k"
  shows "reqMethod r = ''PUT'' \<Longrightarrow> find_route mx now (SetupRouter su) False r c =
      (Found (catching (JSONContentTypeRequest (PathParamRequest [''store'', ''key'']
         (handlePutKVStore (api_storage (suStorage su)) (suCodec su)))))
         (r\<lparr>muxVars := [''key'' \<mapsto> k, ''store'' \<mapsto> a]\<rparr>), c)"
    and "reqMethod r = ''GET'' \<Longrightarrow> find_route mx now (SetupRouter su) False r c =
      (Found (catching (JSONAcceptRequest (PathParamRequest [''store'', ''key'']
         (handleGetKVStore (api_storage (suStorage su)) (suCodec su)))))
         (r\<lparr>muxVars := [''key'' \<mapsto> k, ''store'' \<mapsto> a]\<rparr>), c)"
  using assms(4,6)
  by (simp_all add: setup_defs tail_eval mock_matcher_tail [OF assms(3)] mux_tail [OF assms(1-3)]
      split_append_sep [OF assms(5)] split_no_sep [OF assms(7)])

section \<open>What a client of the API sees\<close>

lemma serve_http_query:
  assumes "muxClean mx (urlPath r) = urlPath r"
    and "request_BasicAuth r = Some (APIUsername (suConfig su), APIPassword (suConfig su))"
    and "find_route mx now (SetupRouter su) False r (sv, None) = (Found h (r\<lparr>muxVars := vars\<rparr>), sv, None)"
  shows "serve_http mx su now r sv = reply_of (h (r\<lparr>muxVars := vars\<rparr>) new_writer (sv, None)) sv"
  using assms by (simp add: serve_http_def BasicAuthMiddleware_def)

lemma matches_over_http:
  assumes "template_law mx" and "plain_text (APIPathPrefix (suConfig su))"
    and "api_query mx su (''matches/'' @ ep) r" and "ep \<noteq> []" and "CHR ''/'' \<notin> set ep"
    and "GetMatches (beStore (suMatchstore su) (hsMatches (svHandler sv))) ep (hsMatchstore (svHandler sv)) = Ok ids"
  shows "serve_http mx su now r sv =
    (Served (Answered (WriteEntity (\<lambda>_. None) (suMatchesJson su) (map (beShown (suMatchstore su) (hsMatches (svHandler sv))) ids) new_writer)), sv)"
proof -
  note q = assms(3) [unfolded api_query_def]
  have clean: "muxClean mx (urlPath r) = urlPath r"
    and auth: "request_BasicAuth r = Some (APIUsername (suConfig su), APIPassword (suConfig su))"
    using q by blast+
  have path: "urlPath r = APIPathPrefix (suConfig su) @ CHR ''/'' # ''matches/'' @ ep" using q by blast
  from matches_route [OF assms(1,2) path _ assms(4,5)] q
  have "find_route mx now (SetupRouter su) False r (sv, None) =
    (Found (catching (JSONAcceptRequest (PathParamRequest [''endpointId'']
       (handleGetMatches (api_matchstore (suMatchstore su)) (suMatchesJson su))))) (r\<lparr>muxVars := [''endpointId'' \<mapsto> ep]\<rparr>), sv, None)"
    by blast
  from serve_http_query [OF clean auth this] q assms(4,6) show ?thesis
    by (simp add: reply_of_def catching_def JSONAcceptRequest_def path_var_def handleGetMatches_def
        api_matchstore_def write_result_def Let_def)
qed

lemma inmemory_matches_over_http:
  fixes su :: "('t, 'j, (nat, Mismatch) InMemoryMatchstore, nat, 'k, 'v) server_setup"
  assumes "template_law mx" and "plain_text (APIPathPrefix (suConfig su))" and "suMatchstore su = inmemory_backend"
    and "api_query mx su (''matches/'' @ ep) r" and "ep \<noteq> []" and "CHR ''/'' \<notin> set ep"
  shows "serve_http mx su now r sv =
    (Served (Answered (WriteEntity (\<lambda>_. None) (suMatchesJson su)
      (map ((!) (hsMatches (svHandler sv))) (im_GetMatches ep (hsMatchstore (svHandler sv)))) new_writer)), sv)"
  using matches_over_http [OF assms(1,2,4-6), of sv "im_GetMatches ep (hsMatchstore (svHandler sv))" now]
  by (simp add: assms(3))

lemma mismatches_over_http:
  assumes "template_law mx" and "plain_text (APIPathPrefix (suConfig su))"
    and "api_query mx su ''mismatches'' r" and "GetMismatches (beStore (suMatchstore su) (hsMatches (svHandler sv))) (hsMatchstore (svHandler sv)) = Ok mms"
  shows "serve_http mx su now r sv =
    (Served (Answered (WriteEntity (\<lambda>_. None) (suMismatchesJson su) mms new_writer)), sv)"
proof -
  note q = assms(3) [unfolded api_query_def]
  have clean: "muxClean mx (urlPath r) = urlPath r"
    and auth: "request_BasicAuth r = Some (APIUsername (suConfig su), APIPassword (suConfig su))"
    using q by blast+
  have path: "urlPath r = APIPathPrefix (suConfig su) @ CHR ''/'' # ''mismatches''" using q by blast
  from mismatches_route [OF assms(1,2) path] q
  have "find_route mx now (SetupRouter su) False r (sv, None) =
    (Found (catching (JSONAcceptRequest (handleGetMismatches (api_matchstore (suMatchstore su)) (suMismatchesJson su))))
       (r\<lparr>muxVars := Map.empty\<rparr>), sv, None)"
    by blast
  from serve_http_query [OF clean auth this] q assms(4) show ?thesis
    by (simp add: reply_of_def catching_def JSONAcceptRequest_def handleGetMismatches_def
        api_matchstore_def write_result_def Let_def)
qed

end
