(* ===== verification/ServerProps.thy ===== *)
theory ServerProps
  imports RouterTemplates
begin

text \<open>
  Properties of the server as its clients see it, over HTTP: what the API reports about answered
  requests and what it does with values, and the setup on which the properties are witnessed.
\<close>

text \<open>C22: Every request is reported as it was answered: when a server with an in-memory store of non-zero
  capacity has answered a request for a mock endpoint, then either no endpoint was chosen, the answer was 404, and
  \<open>GET /mismatches\<close> lists last the time and the data of the request; or \<open>GET /matches/{id}\<close> for the chosen
  endpoint lists last the match with the time and the data of the request and the response status that was
  sent (no response exactly when a template failed and the client got 500, or no answer at all). Both
  queries change nothing. (The id of an endpoint must be one segment of a path.)\<close>

theorem answered_request_is_reported:
  fixes su :: "('t, 'j, (nat, Mismatch) InMemoryMatchstore, nat, 'k, 'v) server_setup"
  assumes "template_law mx" and "plain_text (APIPathPrefix (suConfig su))"
    and "suMatchstore su = inmemory_backend" and "imsSize (hsMatchstore (svHandler sv)) \<noteq> 0"
    and "\<not> has_prefix (urlPath r) (APIPathPrefix (suConfig su))" and "muxClean mx (urlPath r) = urlPath r"
    and "serve_http mx su now r sv = (reply, sv')"
  shows "(svEndPoint sv' = None \<and> reply = Served NotFound
      \<and> (\<exists>mms. mms \<noteq> [] \<and> mmTimestamp (last mms) = now \<and> mmActualRequest (last mms) = actual_request r
          \<and> (\<forall>q now'. api_query mx su ''mismatches'' q \<longrightarrow> serve_http mx su now' q sv' =
                (Served (Answered (WriteEntity (\<lambda>_. None) (suMismatchesJson su) mms new_writer)), sv'))))
    \<or> (\<exists>ep ans ms resp. svEndPoint sv' = Some ep \<and> reply = Served ans \<and> answer_agrees ans resp
        \<and> ms \<noteq> [] \<and> last ms =
            \<lparr>mEndpointID = epID ep, mTimestamp = now, mActualRequest = actual_request r, mActualResponse = resp\<rparr>
        \<and> (epID ep \<noteq> [] \<and> CHR ''/'' \<notin> set (epID ep) \<longrightarrow>
            (\<forall>q now'. api_query mx su (''matches/'' @ epID ep) q \<longrightarrow> serve_http mx su now' q sv' =
                (Served (Answered (WriteEntity (\<lambda>_. None) (suMatchesJson su) ms new_writer)), sv'))))"
proof -
  let ?store = "hsMatchstore (svHandler sv')" and ?heap = "hsMatches (svHandler sv')"
  obtain ans where ans: "serve inmemory_backend (suTemplates su) (APIPathPrefix (suConfig su)) now r sv = (ans, sv')"
    "reply = Served ans"
    using mock_requests_dispatched [OF assms(1,2,5,6), of now sv] assms(3,7) by (auto split: prod.splits)
  from answered_request_is_recorded [OF assms(5,4) ans(1)] show ?thesis
  proof (elim disjE exE conjE)
    assume "ans = NotFound" "svEndPoint sv' = None" "im_GetMismatches ?store \<noteq> []"
      "mmTimestamp (last (im_GetMismatches ?store)) = now"
      "mmActualRequest (last (im_GetMismatches ?store)) = actual_request r"
    moreover have "serve_http mx su now' q sv' =
        (Served (Answered (WriteEntity (\<lambda>_. None) (suMismatchesJson su) (im_GetMismatches ?store) new_writer)), sv')"
      if "api_query mx su ''mismatches'' q" for q now'
      using mismatches_over_http [OF assms(1,2) that, of sv' "im_GetMismatches ?store" now'] by (simp add: assms(3))
    ultimately show ?thesis using ans(2) by blast
  next
    fix ep :: "'t Endpoint" and resp
    let ?ids = "im_GetMatches (epID ep) ?store"
    assume m: "svEndPoint sv' = Some ep" "?ids \<noteq> []" "?heap ! last ?ids =
        \<lparr>mEndpointID = epID ep, mTimestamp = now, mActualRequest = actual_request r, mActualResponse = resp\<rparr>"
      "answer_agrees ans resp"
    have "map ((!) ?heap) ?ids \<noteq> []" using m(2) by simp
    moreover have "last (map ((!) ?heap) ?ids) =
        \<lparr>mEndpointID = epID ep, mTimestamp = now, mActualRequest = actual_request r, mActualResponse = resp\<rparr>"
      using m(2,3) by (simp add: last_map)
    moreover have "serve_http mx su now' q sv' =
        (Served (Answered (WriteEntity (\<lambda>_. None) (suMatchesJson su) (map ((!) ?heap) ?ids) new_writer)), sv')"
      if "api_query mx su (''matches/'' @ epID ep) q" "epID ep \<noteq> []" "CHR ''/'' \<notin> set (epID ep)" for q now'
      using matches_over_http [OF assms(1,2) that, of sv' ?ids now'] by (simp add: assms(3))
    ultimately show ?thesis using m(1,4) ans(2) by blast
  qed
qed

lemma kv_get_over_http:
  assumes "template_law mx" and "plain_text (APIPathPrefix (suConfig su))" and "suStorage su = inmemory_storage"
    and "api_query mx su (''kvstore/'' @ a @ CHR ''/'' # k) r"
    and "a \<noteq> []" and "CHR ''/'' \<notin> set a" and "k \<noteq> []" and "CHR ''/'' \<notin> set k"
  shows "serve_http mx su now r sv = (Served (Answered (case inm_Get a k (svWorld sv) of
      None \<Rightarrow> put_status 404 new_writer
    | Some x \<Rightarrow> WriteEntity (jString (suCodec su)) (jMarshal (suCodec su)) x new_writer)), sv)"
proof -
  note q = assms(4) [unfolded api_query_def]
  have clean: "muxClean mx (urlPath r) = urlPath r"
    and auth: "request_BasicAuth r = Some (APIUsername (suConfig su), APIPassword (suConfig su))"
    and path: "urlPath r = APIPathPrefix (suConfig su) @ CHR ''/'' # ''kvstore/'' @ a @ CHR ''/'' # k"
    and get: "reqMethod r = ''GET''" and accept: "header_get (reqHeader r) ''Accept'' = ''application/json''"
    using q by blast+
  from serve_http_query [OF clean auth kv_routes(2) [OF assms(1,2) path assms(5-8) get]] accept assms(3,5,7)
  show ?thesis
    by (simp add: reply_of_def catching_def JSONAcceptRequest_def path_var_def handleGetKVStore_def api_storage_def
        path_params split: option.split)
qed

text \<open>C40: A value over HTTP: a \<open>PUT\<close> of a JSON body with the configured credentials is answered with 204,
  changes nothing but the key-value store, makes the template function \<open>kvStoreGet\<close> of the mock endpoints
  return that value, and makes \<open>GET\<close> of the key answer with it, or with 404 when it was \<open>null\<close>.\<close>

theorem value_over_http:
  fixes su :: "('t, 'j, 's, 'm, 'v InmemoryStorage, 'v) server_setup"
  assumes "template_law mx" and "plain_text (APIPathPrefix (suConfig su))" and "suStorage su = inmemory_storage"
    and "a \<noteq> []" and "CHR ''/'' \<notin> set a" and "k \<noteq> []" and "CHR ''/'' \<notin> set k"
    and "reqMethod r = ''PUT''" and "urlPath r = APIPathPrefix (suConfig su) @ CHR ''/'' # ''kvstore/'' @ a @ CHR ''/'' # k"
    and "muxClean mx (urlPath r) = urlPath r" and "header_get (reqHeader r) ''Content-Type'' = ''application/json''"
    and "request_BasicAuth r = Some (APIUsername (suConfig su), APIPassword (suConfig su))"
    and "reqBody r = Unread b" and "jUnmarshal (suCodec su) b = Inr v"
  shows "\<exists>w sv'. serve_http mx su now r sv = (Served (Answered w), sv') \<and> rwStatus w = Some 204
    \<and> svHandler sv' = svHandler sv \<and> kvStoreGet (suStorage su) a k (svWorld sv') = Ok (AnyValue v)
    \<and> (\<forall>q now'. api_query mx su (''kvstore/'' @ a @ CHR ''/'' # k) q \<longrightarrow>
        serve_http mx su now' q sv' = (Served (Answered (case v of
            None \<Rightarrow> put_status 404 new_writer
          | Some x \<Rightarrow> WriteEntity (jString (suCodec su)) (jMarshal (suCodec su)) x new_writer)), sv'))"
proof -
  let ?sv = "sv\<lparr>svWorld := inm_Put a k v (svWorld sv)\<rparr>"
  from serve_http_query [OF assms(10,12) kv_routes(1) [OF assms(1,2,9,4-8)]] assms(3,4,6,11,13,14)
  have "serve_http mx su now r sv = (Served (Answered (put_status 204 new_writer)), ?sv)"
    by (simp add: reply_of_def catching_def JSONContentTypeRequest_def path_var_def handlePutKVStore_def api_storage_def
        path_params)
  moreover have "rwStatus (put_status 204 new_writer) = Some 204" by (simp add: put_status_def new_writer_def)
  moreover have "kvStoreGet (suStorage su) a k (svWorld ?sv) = Ok (AnyValue v)"
    by (simp add: assms(3) kvStoreGet_def inm_Get_Put)
  moreover have "serve_http mx su now' q ?sv = (Served (Answered (case v of
            None \<Rightarrow> put_status 404 new_writer
          | Some x \<Rightarrow> WriteEntity (jString (suCodec su)) (jMarshal (suCodec su)) x new_writer)), ?sv)"
    if "api_query mx su (''kvstore/'' @ a @ CHR ''/'' # k) q" for q now'
    using kv_get_over_http [OF assms(1-3) that assms(4-7), of now' ?sv] by (simp add: inm_Get_Put)
  ultimately show ?thesis
    by (intro exI [where x = "put_status 204 new_writer"] exI [where x = ?sv]) simp
qed

section \<open>Witnesses\<close>

text \<open>A router that matches templates as the law says, and a server with in-memory stores and two endpoints.\<close>

definition example_mux :: mux_env where
  "example_mux = \<lparr>muxMatch = template_match, muxClean = (\<lambda>path. path)\<rparr>"

definition store_env :: "(verbatim, unit, nat InmemoryStorage) template_env" where
  "store_env =
     \<lparr>ExecuteTemplate = (\<lambda>t name data k.
        (case map_of t name of None \<Rightarrow> Inl ''template not defined'' | Some s \<Rightarrow> Inr s, k)),
      unmarshal_object = (\<lambda>s. if s = ''{}'' then Inr () else Inl ''no object''),
      unmarshal_headers = (\<lambda>s. if s = [] then Inr [] else Inr [(''x-note'', s)])\<rparr>"

definition example_setup ::
  "(verbatim, unit, (nat, Mismatch) InMemoryMatchstore, nat, nat InmemoryStorage, nat) server_setup" where
  "example_setup =
     \<lparr>suConfig = default_configuration, suMatchstore = inmemory_backend, suStorage = inmemory_storage,
      suTemplates = store_env, suLoader = example_loader [],
      suMatchesJson = (\<lambda>ms. Inr (nat_digits (length ms))), suMismatchesJson = (\<lambda>mms. Inr (nat_digits (length mms))),
      suCodec = digits_codec, suMetrics = (\<lambda>r matches mismatches w. w)\<rparr>"

definition example_server ::
  "(verbatim, (nat, Mismatch) InMemoryMatchstore, nat InmemoryStorage) server_state" where
  "example_server = start_server
     (fold registerEndpoint [verbatim_ep ''a'' ''/a'' ''200'' ''A'', verbatim_ep ''b'' ''/b'' ''200'' ''B''] empty_node)
     (NewInMemoryMatchstore 10) NewInmemoryStorage"

definition client_request :: "string \<Rightarrow> string \<Rightarrow> string \<Rightarrow> request" where
  "client_request method path b =
     (example_request method path)
       \<lparr>reqHeader := [(''Accept'', ''application/json''), (''Content-Type'', ''application/json''),
          (''Authorization'', BasicAuth ''mockgo'' ''password'')], reqBody := Unread b\<rparr>"

lemma example_setup_sel [simp]:
  "suConfig example_setup = default_configuration" "suMatchstore example_setup = inmemory_backend"
  "suStorage example_setup = inmemory_storage" "suTemplates example_setup = store_env"
  "suCodec example_setup = digits_codec"
  "muxClean example_mux path = path" "muxMatch example_mux = template_match"
  "APIPathPrefix default_configuration = ''/__''" "APIUsername default_configuration = ''mockgo''"
  "APIPassword default_configuration = ''password''"
  by (simp_all add: example_setup_def example_mux_def default_configuration_def)

lemma example_laws: "template_law example_mux" "plain_text ''/__''"
  by (simp_all add: template_law_def plain_text_def)

lemma client_request_sel [simp]:
  "reqMethod (client_request m path b) = m" "urlPath (client_request m path b) = path"
  "reqBody (client_request m path b) = Unread b"
  "header_get (reqHeader (client_request m path b)) ''Accept'' = ''application/json''"
  "header_get (reqHeader (client_request m path b)) ''Content-Type'' = ''application/json''"
  "request_BasicAuth (client_request m path b) = Some (''mockgo'', ''password'')"
proof -
  have keys: "canonical_key ''Accept'' = ''Accept''" "canonical_key ''Content-Type'' = ''Content-Type''"
    "canonical_key ''Authorization'' = ''Authorization''" by code_simp+
  show "header_get (reqHeader (client_request m path b)) ''Accept'' = ''application/json''"
    "header_get (reqHeader (client_request m path b)) ''Content-Type'' = ''application/json''"
    by (simp_all add: client_request_def header_get_def keys)
  have "BasicAuth ''mockgo'' ''password'' \<noteq> []" by code_simp
  then show "request_BasicAuth (client_request m path b) = Some (''mockgo'', ''password'')"
    by (simp add: request_BasicAuth_def client_request_def header_get_def keys Let_def parseBasicAuth_BasicAuth)
qed (simp_all add: client_request_def example_request_def)

lemma example_query:
  "api_query example_mux example_setup tail (client_request ''GET'' (''/__/'' @ tail) b)"
  by (simp add: api_query_def)

theorem unauthorized_request_changes_nothing_witness:
  "snd (serve_http example_mux example_setup 1 (example_request ''DELETE'' ''/__/matches/a'') example_server) = example_server"
proof -
  let ?r = "example_request ''DELETE'' ''/__/matches/a''"
  have "has_prefix (urlPath ?r) (APIPathPrefix (suConfig example_setup))" "\<not> has_suffix (urlPath ?r) ''/health''"
    by (simp_all add: example_request_def has_prefix_def has_suffix_def)
  moreover have "request_BasicAuth ?r \<noteq> Some (APIUsername (suConfig example_setup), APIPassword (suConfig example_setup))"
    by (simp add: request_BasicAuth_def example_request_def header_get_def)
  ultimately show ?thesis by (rule conjunct1 [OF unauthorized_request_changes_nothing])
qed

theorem api_request_frame_witness:
  "snd (serve_http example_mux example_setup 1 (client_request ''GET'' ''/__/matches/a'' []) example_server) = example_server"
proof -
  let ?r = "client_request ''GET'' ''/__/matches/a'' []"
  have p: "has_prefix (urlPath ?r) (APIPathPrefix (suConfig example_setup))" by (simp add: has_prefix_def)
  have "reqMethod ?r = m" if "muxMatch example_mux path (Some m) ?r = Bound vars" for path m vars
    using that by (auto simp: template_match_def split: option.splits if_splits)
  from api_request_frame [where mx = example_mux, OF p this, where sv = example_server and now = 1]
  show ?thesis by simp
qed

theorem mock_requests_served_witness:
  "serve_http example_mux example_setup 1 (get_request ''/a'' []) example_server =
    (case serve inmemory_backend store_env ''/__'' 1 (get_request ''/a'' []) example_server of (ans, sv) \<Rightarrow> (Served ans, sv))
   \<and> fst (serve inmemory_backend store_env ''/__'' 1 (get_request ''/a'' []) example_server) \<noteq> NotFound"
proof
  have "\<not> has_prefix (urlPath (get_request ''/a'' [])) (APIPathPrefix (suConfig example_setup))"
    by (simp add: get_request_def has_prefix_def)
  from mock_requests_served [OF example_laws(1) _ this, where now = 1 and sv = example_server]
  show "serve_http example_mux example_setup 1 (get_request ''/a'' []) example_server =
    (case serve inmemory_backend store_env ''/__'' 1 (get_request ''/a'' []) example_server of (ans, sv) \<Rightarrow> (Served ans, sv))"
    by (simp add: example_laws(2))
  have "case fst (serve inmemory_backend store_env ''/__'' 1 (get_request ''/a'' []) example_server) of
      NotFound \<Rightarrow> False | _ \<Rightarrow> True" by code_simp
  then show "fst (serve inmemory_backend store_env ''/__'' 1 (get_request ''/a'' []) example_server) \<noteq> NotFound"
    by (auto split: answer.splits)
qed

text \<open>The request \<open>GET /a\<close> at the example server is answered, and then reported to a client of the API.\<close>

theorem answered_request_is_reported_witness:
  "\<exists>sv ep ans ms resp. serve_http example_mux example_setup 1 (get_request ''/a'' []) example_server = (Served ans, sv)
    \<and> svEndPoint sv = Some ep \<and> answer_agrees ans resp \<and> ms \<noteq> []
    \<and> last ms = \<lparr>mEndpointID = epID ep, mTimestamp = 1, mActualRequest = actual_request (get_request ''/a'' []),
        mActualResponse = resp\<rparr>
    \<and> serve_http example_mux example_setup 2 (client_request ''GET'' (''/__/matches/'' @ epID ep) []) sv =
        (Served (Answered (WriteEntity (\<lambda>_. None) (suMatchesJson example_setup) ms new_writer)), sv)"
proof -
  let ?r = "get_request ''/a'' []"
  have "case serve_http example_mux example_setup 1 ?r example_server of
      (reply, sv) \<Rightarrow> (case svEndPoint sv of Some ep \<Rightarrow> epID ep = ''a'' | None \<Rightarrow> False)" by code_simp
  then obtain reply sv ep where s: "serve_http example_mux example_setup 1 ?r example_server = (reply, sv)"
    "svEndPoint sv = Some ep" "epID ep = ''a''" by (auto split: prod.splits option.splits)
  have r: "plain_text (APIPathPrefix (suConfig example_setup))" "suMatchstore example_setup = inmemory_backend"
    "imsSize (hsMatchstore (svHandler example_server)) \<noteq> 0"
    "\<not> has_prefix (urlPath ?r) (APIPathPrefix (suConfig example_setup))" "muxClean example_mux (urlPath ?r) = urlPath ?r"
    by (simp_all add: example_laws(2) example_server_def start_server_def NewInMemoryMatchstore_def get_request_def has_prefix_def)
  from answered_request_is_reported [OF example_laws(1) r s(1)] s(2,3)
  obtain ans ms resp where m: "reply = Served ans" "answer_agrees ans resp" "ms \<noteq> []"
    "last ms = \<lparr>mEndpointID = epID ep, mTimestamp = 1, mActualRequest = actual_request ?r, mActualResponse = resp\<rparr>"
    "\<forall>q now'. api_query example_mux example_setup (''matches/'' @ epID ep) q \<longrightarrow>
      serve_http example_mux example_setup now' q sv =
        (Served (Answered (WriteEntity (\<lambda>_. None) (suMatchesJson example_setup) ms new_writer)), sv)"
    by auto
  have "api_query example_mux example_setup (''matches/'' @ epID ep) (client_request ''GET'' (''/__/matches/'' @ epID ep) [])"
    using example_query [of "''matches/'' @ epID ep" "[]"] by simp
  with m(5) have "serve_http example_mux example_setup 2 (client_request ''GET'' (''/__/matches/'' @ epID ep) []) sv =
      (Served (Answered (WriteEntity (\<lambda>_. None) (suMatchesJson example_setup) ms new_writer)), sv)" by blast
  with s(1,2) m(1-4) show ?thesis by blast
qed

theorem value_over_http_witness:
  "\<exists>w sv. serve_http example_mux example_setup 1 (client_request ''PUT'' ''/__/kvstore/s/k'' ''42'') example_server =
      (Served (Answered w), sv) \<and> rwStatus w = Some 204
    \<and> kvStoreGet inmemory_storage ''s'' ''k'' (svWorld sv) = Ok (AnyValue (Some 42))
    \<and> serve_http example_mux example_setup 2 (client_request ''GET'' ''/__/kvstore/s/k'' []) sv =
        (Served (Answered (WriteEntity (\<lambda>_. None) (\<lambda>n. Inr (nat_digits n)) 42 new_writer)), sv)"
proof -
  let ?r = "client_request ''PUT'' ''/__/kvstore/s/k'' ''42''"
  have u: "jUnmarshal (suCodec example_setup) ''42'' = Inr (Some 42)" unfolding example_setup_sel by code_simp
  have "plain_text (APIPathPrefix (suConfig example_setup))" "suStorage example_setup = inmemory_storage"
    "''s'' \<noteq> []" "CHR ''/'' \<notin> set ''s''" "''k'' \<noteq> []" "CHR ''/'' \<notin> set ''k''" "reqMethod ?r = ''PUT''"
    "urlPath ?r = APIPathPrefix (suConfig example_setup) @ CHR ''/'' # ''kvstore/'' @ ''s'' @ CHR ''/'' # ''k''"
    "muxClean example_mux (urlPath ?r) = urlPath ?r" "header_get (reqHeader ?r) ''Content-Type'' = ''application/json''"
    "request_BasicAuth ?r = Some (APIUsername (suConfig example_setup), APIPassword (suConfig example_setup))"
    "reqBody ?r = Unread ''42''"
    by (simp_all add: example_laws(2))
  from value_over_http [OF example_laws(1) this u, of 1 example_server]
  obtain w sv where s: "serve_http example_mux example_setup 1 ?r example_server = (Served (Answered w), sv)"
    "rwStatus w = Some 204" "kvStoreGet inmemory_storage ''s'' ''k'' (svWorld sv) = Ok (AnyValue (Some 42))"
    "\<forall>q now'. api_query example_mux example_setup (''kvstore/'' @ ''s'' @ CHR ''/'' # ''k'') q \<longrightarrow>
      serve_http example_mux example_setup now' q sv =
        (Served (Answered (WriteEntity (jString digits_codec) (jMarshal digits_codec) 42 new_writer)), sv)"
    by auto
  have "api_query example_mux example_setup (''kvstore/'' @ ''s'' @ CHR ''/'' # ''k'') (client_request ''GET'' ''/__/kvstore/s/k'' [])"
    using example_query [of "''kvstore/s/k''" "[]"] by simp
  with s(4) have "serve_http example_mux example_setup 2 (client_request ''GET'' ''/__/kvstore/s/k'' []) sv =
      (Served (Answered (WriteEntity (\<lambda>_. None) (\<lambda>n. Inr (nat_digits n)) 42 new_writer)), sv)"
    by (simp add: digits_codec_def)
  with s(1-3) show ?thesis by blast
qed

end
