(* ===== verification/HttpSteps.thy ===== *)
theory HttpSteps
  imports ServerProps TreeTypes
begin

text \<open>
  The server over HTTP with any number of requests at once. A request arrives, the router
  finds its handler (which for a mock endpoint is the step that chooses it and records the request),
  and the handler answers; each request runs in a goroutine of its own, so these steps of different
  requests interleave, those of the API included. \<open>server_invariant\<close> collects what a statement on
  the handler's state has to be kept by, to hold in every state the server can reach.
\<close>

section \<open>The steps\<close>

datatype ('t, 's, 'k) http_phase =
  Arrived
| Dispatched "('t, 's, 'k) conn_state handler" request
| Finished http_reply

text \<open>A configuration has the state and the requests so far, each with the time it is looked at.\<close>

type_synonym ('t, 's, 'k) http_config =
  "('t, 's, 'k) server_state \<times> ((int \<times> request) \<times> ('t, 's, 'k) http_phase) list"

primrec refusal :: "'s routing \<Rightarrow> http_reply" where
  "refusal NoRoute = Served NotFound"
| "refusal MethodMismatch = MethodNotAllowed"
| "refusal (MatcherPanic e) = Served (Failed e)"
| "refusal (Found h r) = Served NotFound"

definition run_handler ::
  "('t, 'j, 's, 'm, 'k, 'v) server_setup \<Rightarrow> ('t, 's, 'k) conn_state handler \<Rightarrow> request
     \<Rightarrow> ('t, 's, 'k) server_state \<Rightarrow> http_reply \<times> ('t, 's, 'k) server_state" where
  "run_handler su h r sv =
     reply_of (BasicAuthMiddleware (APIPathPrefix (suConfig su)) (APIUsername (suConfig su))
       (APIPassword (suConfig su)) h r new_writer (sv, None)) sv"

inductive http_step ::
  "mux_env \<Rightarrow> ('t, 'j, 's, 'm, 'k, 'v) server_setup \<Rightarrow> ('t, 's, 'k) http_config \<Rightarrow> ('t, 's, 'k) http_config \<Rightarrow> bool"
  for mx su where
  Arrive: "http_step mx su (sv, ps) (sv, ps @ [((now, r), Arrived)])"
| Redirect: "i < length ps \<Longrightarrow> ps ! i = ((now, r), Arrived) \<Longrightarrow> muxClean mx (urlPath r) \<noteq> urlPath r
    \<Longrightarrow> http_step mx su (sv, ps) (sv, ps[i := ((now, r), Finished (Moved (muxClean mx (urlPath r))))])"
| Route: "i < length ps \<Longrightarrow> ps ! i = ((now, r), Arrived) \<Longrightarrow> muxClean mx (urlPath r) = urlPath r
    \<Longrightarrow> find_route mx now (SetupRouter su) False r (sv, None) = (Found h r', (sv', e))
    \<Longrightarrow> http_step mx su (sv, ps) (sv', ps[i := ((now, r), Dispatched h r')])"
| Refuse: "i < length ps \<Longrightarrow> ps ! i = ((now, r), Arrived) \<Longrightarrow> muxClean mx (urlPath r) = urlPath r
    \<Longrightarrow> find_route mx now (SetupRouter su) False r (sv, None) = (res, (sv', e))
    \<Longrightarrow> (\<And>h r'. res \<noteq> Found h r')
    \<Longrightarrow> http_step mx su (sv, ps) (sv', ps[i := ((now, r), Finished (refusal res))])"
| Handle: "i < length ps \<Longrightarrow> ps ! i = (q, Dispatched h r') \<Longrightarrow> run_handler su h r' sv = (reply, sv')
    \<Longrightarrow> http_step mx su (sv, ps) (sv', ps[i := (q, Finished reply)])"

inductive_cases http_stepE: "http_step mx su (sv, ps) (sv', ps')"

section \<open>What a step does to the state\<close>

definition server_handler :: "('t, 'j, 's, 'm, 'k, 'v) server_setup \<Rightarrow> ('t, 's, 'k) conn_state handler \<Rightarrow> bool" where
  "server_handler su h \<longleftrightarrow> (\<exists>name path m. PathRoute name path m h \<in> set (SetupRouter su))
     \<or> (\<exists>m. MatcherRoute m h \<in> set (SetupRouter su))"

text \<open>Finding a route leaves the state alone or is the matcher of the mock endpoints at work.\<close>

lemma setup_route:
  fixes su :: "('t, 'j, 's, 'm, 'k, 'v) server_setup"
  assumes "find_route mx now (SetupRouter su) False r (sv, None) = (res, sv', e)"
  shows "e = None \<and> (sv' = sv \<or> \<not> has_prefix (urlPath r) (APIPathPrefix (suConfig su))
      \<and> (\<exists>found r1. mock_matcher (suMatchstore su) (APIPathPrefix (suConfig su)) now r sv = Ok (found, r1, sv')))
    \<and> (\<forall>h r'. res = Found h r' \<longrightarrow> server_handler su h)"
proof (cases "has_prefix (urlPath r) (APIPathPrefix (suConfig su))")
  case True
  have "\<forall>m h. MatcherRoute m h \<in> set (SetupRouter su) \<longrightarrow> m now r (sv, None) = Ok (False, r, sv, None)"
    using setup_matcher_declines [OF True] by blast
  from find_route_declined [OF this, of mx False] assms show ?thesis
    unfolding server_handler_def by fastforce
next
  case False
  obtain rest where rest: "SetupRouter su = PathRoute ''health'' (APIPathPrefix (suConfig su) @ ''/health'') (Some ''GET'') serve_health
      # hd (mock_AddRoutes su) # rest" "\<forall>rt\<in>set rest. \<exists>name path m h. rt = PathRoute name path m h"
    using setup_shape by blast
  obtain matcher H where H: "hd (mock_AddRoutes su) = MatcherRoute matcher H"
    and matcher: "matcher = (\<lambda>now r c. map_result (\<lambda>(found, r', sv'). (found, r', sv', snd c))
      (mock_matcher (suMatchstore su) (APIPathPrefix (suConfig su)) now r (fst c)))"
    by (simp add: mock_AddRoutes_def Let_def)
  obtain found b sv1 where m: "mock_matcher (suMatchstore su) (APIPathPrefix (suConfig su)) now r sv = Ok (found, r\<lparr>reqBody := b\<rparr>, sv1)"
    using mock_matcher_outcome [OF False, of "suMatchstore su" now sv] by blast
  have handlers: "server_handler su serve_health" "server_handler su H"
    "\<And>name path m h. PathRoute name path m h \<in> set rest \<Longrightarrow> server_handler su h"
    unfolding server_handler_def rest(1) H by auto
  have none: "\<forall>m h. MatcherRoute m h \<in> set rest \<longrightarrow> m now (r\<lparr>reqBody := b\<rparr>) (sv1, None) = Ok (False, r\<lparr>reqBody := b\<rparr>, sv1, None)"
    using rest(2) by blast
  have tail: "e2 = None \<and> sv2 = sv1 \<and> (\<forall>h r'. res' = Found h r' \<longrightarrow> server_handler su h)"
    if "find_route mx now rest wrong (r\<lparr>reqBody := b\<rparr>) (sv1, None) = (res', sv2, e2)" for wrong res' sv2 e2
    using find_route_declined [OF none, of mx wrong] handlers(3) that by fastforce
  have matched: "\<exists>found r1. mock_matcher (suMatchstore su) (APIPathPrefix (suConfig su)) now r sv = Ok (found, r1, sv1)"
    using m by blast
  have found: "find_route mx now (hd (mock_AddRoutes su) # rest) wrong r (sv, None) =
      (if found then (Found H (r\<lparr>reqBody := b\<rparr>), sv1, None) else find_route mx now rest wrong (r\<lparr>reqBody := b\<rparr>) (sv1, None))"
    for wrong by (simp add: H matcher m)
  have second: "e2 = None \<and> sv2 = sv1 \<and> (\<forall>h r'. res' = Found h r' \<longrightarrow> server_handler su h)"
    if "find_route mx now (hd (mock_AddRoutes su) # rest) wrong r (sv, None) = (res', sv2, e2)" for wrong res' sv2 e2
    using that handlers(2) tail unfolding found by (auto split: if_splits)
  show ?thesis
  proof (cases "muxMatch mx (APIPathPrefix (suConfig su) @ ''/health'') (Some ''GET'') r")
    case (Bound vars)
    with assms handlers(1) show ?thesis unfolding rest(1) by auto
  next
    case WrongMethod
    with assms second [of True] False matched show ?thesis unfolding rest(1) by fastforce
  next
    case Different
    with assms second [of False] False matched show ?thesis unfolding rest(1) by fastforce
  qed
qed

text \<open>What identifies a record: everything but the response, which is set later.\<close>

definition record_key :: "Match \<Rightarrow> string \<times> int \<times> ActualRequest" where
  "record_key m = (mEndpointID m, mTimestamp m, mActualRequest m)"

lemma record_key_response [simp]: "record_key (m\<lparr>mActualResponse := resp\<rparr>) = record_key m"
  by (simp add: record_key_def)

lemma keys_set_response [simp]: "map record_key (heap[a := (heap ! a)\<lparr>mActualResponse := resp\<rparr>]) = map record_key heap"
  by (cases "a < length heap") (simp_all add: map_update list_update_same_conv list_update_beyond)

lemma keys_send: "map record_key (rdMatches (send_response status body m st)) = map record_key (rdMatches st)"
  by (auto simp: send_response_def set_panic_def set_actual_response_def split: result.split option.split)

lemma keys_exec:
  "(\<And>out st'. map record_key (rdMatches (cont out st')) = map record_key (rdMatches st')) \<Longrightarrow>
   map record_key (rdMatches (exec_template env ep name what data st cont)) = map record_key (rdMatches st)"
  by (auto simp: exec_template_def set_panic_def split: option.split prod.split sum.split)

lemma keys_render:
  "map record_key (rdMatches (renderResponse env r ep m pp qp st)) = map record_key (rdMatches st)"
  by (auto simp: renderResponse_def Let_def set_panic_def keys_send keys_exec split: option.split sum.split)

text \<open>A handler leaves the handler's state alone, replaces the tree by a loaded one, sets a response, or deletes
  from the match store.\<close>

definition handler_change ::
  "('s, 'm) backend \<Rightarrow> ('t epSearchNode \<Rightarrow> bool) \<Rightarrow> ('t, 's) handler_state \<Rightarrow> ('t, 's) handler_state \<Rightarrow> bool" where
  "handler_change ms loads h h' \<longleftrightarrow> h' = h
     \<or> (\<exists>tree. loads tree \<and> h' = h\<lparr>hsEpSearchNode := tree\<rparr>)
     \<or> (\<exists>heap. map record_key heap = map record_key (hsMatches h) \<and> h' = h\<lparr>hsMatches := heap\<rparr>)
     \<or> (\<exists>ep. h' = h\<lparr>hsMatchstore := fst (DeleteMatches (beStore ms (hsMatches h)) ep (hsMatchstore h))\<rparr>)
     \<or> h' = h\<lparr>hsMatchstore := fst (DeleteMismatches (beStore ms (hsMatches h)) (hsMatchstore h))\<rparr>"

lemma handler_change_refl [simp]: "handler_change ms loads h h"
  by (simp add: handler_change_def)

lemma handler_changes:
  "loads tree \<Longrightarrow> handler_change ms loads h (h\<lparr>hsEpSearchNode := tree\<rparr>)"
  "map record_key heap = map record_key (hsMatches h) \<Longrightarrow> handler_change ms loads h (h\<lparr>hsMatches := heap\<rparr>)"
  "handler_change ms loads h (h\<lparr>hsMatchstore := fst (DeleteMatches (beStore ms (hsMatches h)) ep (hsMatchstore h))\<rparr>)"
  "handler_change ms loads h (h\<lparr>hsMatchstore := fst (DeleteMismatches (beStore ms (hsMatches h)) (hsMatchstore h))\<rparr>)"
  unfolding handler_change_def by blast+

definition loads_files :: "('t, 'j, 's, 'm, 'k, 'v) server_setup \<Rightarrow> 't epSearchNode \<Rightarrow> bool" where
  "loads_files su tree \<longleftrightarrow>
     LoadFiles (suLoader su) (MockDir (suConfig su)) (MockFilepattern (suConfig su)) = Ok tree"

definition acts :: "('t, 'j, 's, 'm, 'k, 'v) server_setup \<Rightarrow> ('t, 's, 'k) server_state handler \<Rightarrow> bool" where
  "acts su h \<longleftrightarrow> (\<forall>r w sv w' sv'. h r w sv = Ok (w', sv') \<longrightarrow>
     handler_change (suMatchstore su) (loads_files su) (svHandler sv) (svHandler sv'))"

lemma keeps_acts: "keeps h \<Longrightarrow> acts su h"
  unfolding keeps_def acts_def by (metis handler_change_refl)

lemma acts_put: "acts su (handlePutKVStore (api_storage st) js)" "acts su (handleRemoveKVStore (api_storage st))"
  by (auto simp: acts_def handlePutKVStore_def handleRemoveKVStore_def api_storage_def
      split: sum.splits prod.splits option.splits)

lemma acts_delete:
  "acts su (handleDeleteMatches (api_matchstore (suMatchstore su)))"
  "acts su (handleDeleteMismatches (api_matchstore (suMatchstore su)))"
  by (auto simp: acts_def handleDeleteMatches_def handleDeleteMismatches_def api_matchstore_def Let_def case_prod_beta
      split: prod.splits option.splits intro: handler_changes)

lemma acts_reload:
  "acts su (handleReload (suLoader su) (MockDir (suConfig su)) (MockFilepattern (suConfig su)))"
  by (auto simp: acts_def handleReload_def loads_files_def split: result.splits intro!: handler_changes)

lemma acts_wrapped:
  "acts su h \<Longrightarrow> acts su (JSONContentTypeRequest h)" "acts su h \<Longrightarrow> acts su (JSONAcceptRequest h)"
  "acts su h \<Longrightarrow> acts su (PathParamRequest ps h)"
  by (auto simp: acts_def JSONContentTypeRequest_def JSONAcceptRequest_def PathParamRequest_eq
      split: if_splits option.splits)

text \<open>The same for the handlers of the routes, which catch panics and always end.\<close>

definition conn_acts :: "('t, 'j, 's, 'm, 'k, 'v) server_setup \<Rightarrow> ('t, 's, 'k) conn_state handler \<Rightarrow> bool" where
  "conn_acts su h \<longleftrightarrow> (\<forall>r w sv. \<exists>w' sv' e. h r w (sv, None) = Ok (w', sv', e)
     \<and> handler_change (suMatchstore su) (loads_files su) (svHandler sv) (svHandler sv'))"

lemma catching_acts: "acts su h \<Longrightarrow> conn_acts su (catching h)"
  unfolding acts_def conn_acts_def catching_def by (auto split: result.split)

lemma reads_only_conn_acts: "reads_only h \<Longrightarrow> conn_acts su h"
  unfolding reads_only_def conn_acts_def by (metis handler_change_refl)

lemma server_handler_acts:
  assumes "server_handler su h"
  shows "conn_acts su h"
proof -
  have mock_acts: "conn_acts su (\<lambda>r w c. case mock_handler (suTemplates su) r (fst c) of (st, sv') \<Rightarrow> Ok (rdWriter st, sv', rdPanic st))"
    by (simp add: conn_acts_def mock_handler_def Let_def handler_changes(2) keys_render fresh_render_def)
  from assms consider (get) name path m where "PathRoute name path m h \<in> set (SetupRouter su)" "m = Some ''GET'' \<or> m = None"
    | (other) name path m where "PathRoute name path m h \<in> set (SetupRouter su)" "m \<noteq> Some ''GET''" "m \<noteq> None"
    | (mock) m where "MatcherRoute m h \<in> set (SetupRouter su)"
    unfolding server_handler_def by blast
  then show ?thesis
  proof cases
    case get
    then show ?thesis using setup_read_routes reads_only_conn_acts by blast
  next
    case other
    then show ?thesis
      by (auto simp: setup_defs intro!: catching_acts acts_wrapped acts_put [unfolded path_params] acts_put acts_delete acts_reload)
  next
    case mock
    then have "h = (\<lambda>r w c. case mock_handler (suTemplates su) r (fst c) of (st, sv') \<Rightarrow> Ok (rdWriter st, sv', rdPanic st))"
      by (auto simp: setup_defs)
    then show ?thesis using mock_acts by simp
  qed
qed

lemma run_handler_change:
  assumes "run_handler su h r sv = (reply, sv')" and "server_handler su h"
  shows "handler_change (suMatchstore su) (loads_files su) (svHandler sv) (svHandler sv')"
proof -
  obtain w sv1 e where h: "h r new_writer (sv, None) = Ok (w, sv1, e)"
    "handler_change (suMatchstore su) (loads_files su) (svHandler sv) (svHandler sv1)"
    using server_handler_acts [OF assms(2)] unfolding conn_acts_def by blast
  have "sv' = sv \<or> sv' = sv1"
    using assms(1) h(1)
    by (auto simp: run_handler_def BasicAuthMiddleware_def reply_of_def split: option.splits prod.splits if_splits)
  with h(2) show ?thesis by auto
qed

section \<open>Invariants of the reachable states\<close>

text \<open>The requests for mock endpoints that have arrived, and the handlers found for them.\<close>

definition arrivals ::
  "('t, 'j, 's, 'm, 'k, 'v) server_setup \<Rightarrow> ((int \<times> request) \<times> ('t, 's, 'k) http_phase) list \<Rightarrow> (int \<times> request) set" where
  "arrivals su ps = {q \<in> fst ` set ps. \<not> has_prefix (urlPath (snd q)) (APIPathPrefix (suConfig su))}"

definition wired ::
  "('t, 'j, 's, 'm, 'k, 'v) server_setup \<Rightarrow> ((int \<times> request) \<times> ('t, 's, 'k) http_phase) list \<Rightarrow> bool" where
  "wired su ps \<longleftrightarrow> (\<forall>q h r. (q, Dispatched h r) \<in> set ps \<longrightarrow> server_handler su h)"

lemma arrivals_update:
  assumes "i < length ps" and "ps ! i = (q, ph)"
  shows "arrivals su (ps[i := (q, ph')]) = arrivals su ps"
proof -
  have "fst (ps ! i) = q" using assms(2) by simp
  then have "map fst (ps[i := (q, ph')]) = map fst ps"
    using assms(1) by (metis fst_conv list_update_id map_update)
  then have "fst ` set (ps[i := (q, ph')]) = fst ` set ps" by (metis list.set_map)
  then show ?thesis by (simp add: arrivals_def)
qed

lemma arrivals_Nil [simp]: "arrivals su [] = {}"
  by (simp add: arrivals_def)

lemma arrivals_append: "arrivals su ps \<subseteq> arrivals su (ps @ qs)"
  by (auto simp: arrivals_def)

lemma wired_Nil [simp]: "wired su []"
  by (simp add: wired_def)

lemma wired_update:
  "wired su ps \<Longrightarrow> wired su (ps[i := (q, Finished reply)])"
  "wired su ps \<Longrightarrow> server_handler su h \<Longrightarrow> wired su (ps[i := (q, Dispatched h r)])"
  unfolding wired_def using set_update_subset_insert by fastforce+

locale server_invariant =
  fixes ms :: "('s, 'm) backend"
    and loads :: "'t epSearchNode \<Rightarrow> bool"
    and P :: "(int \<times> request) set \<Rightarrow> ('t, 's) handler_state \<Rightarrow> bool"
  assumes more_arrivals: "P A h \<Longrightarrow> A \<subseteq> B \<Longrightarrow> P B h"
    and keeps_reload: "P A h \<Longrightarrow> loads tree \<Longrightarrow> P A (h\<lparr>hsEpSearchNode := tree\<rparr>)"
    and keeps_response: "P A h \<Longrightarrow> map record_key heap = map record_key (hsMatches h) \<Longrightarrow> P A (h\<lparr>hsMatches := heap\<rparr>)"
    and keeps_delete: "P A h \<Longrightarrow> P A (h\<lparr>hsMatchstore := fst (DeleteMatches (beStore ms (hsMatches h)) i (hsMatchstore h))\<rparr>)"
    and keeps_delete_mismatches: "P A h \<Longrightarrow> P A (h\<lparr>hsMatchstore := fst (DeleteMismatches (beStore ms (hsMatches h)) (hsMatchstore h))\<rparr>)"
    and keeps_match: "P A h \<Longrightarrow> (now, r) \<in> A \<Longrightarrow> P A (match_recorded ms now ep r h)"
    and keeps_mismatch: "P A h \<Longrightarrow> (now, r) \<in> A \<Longrightarrow> P A (mismatch_recorded ms now d r h)"
begin

lemma keeps_change: "handler_change ms loads h h' \<Longrightarrow> P A h \<Longrightarrow> P A h'"
  unfolding handler_change_def
  using keeps_reload keeps_response keeps_delete keeps_delete_mismatches by blast

lemma keeps_outcome: "P A h \<Longrightarrow> (now, r) \<in> A \<Longrightarrow> P A (snd (outcome ms now r h))"
  using outcome_recorded [of ms now r h] keeps_match keeps_mismatch by fastforce

lemma keeps_routing:
  assumes "find_route mx now (SetupRouter su) False r (sv, None) = (res, sv', e)"
    and "suMatchstore su = ms" and "P (arrivals su ps) (svHandler sv)" and "i < length ps" and "ps ! i = ((now, r), Arrived)"
  shows "P (arrivals su ps) (svHandler sv')"
proof -
  from setup_route [OF assms(1)] consider "sv' = sv"
    | found r1 where "\<not> has_prefix (urlPath r) (APIPathPrefix (suConfig su))"
      "mock_matcher ms (APIPathPrefix (suConfig su)) now r sv = Ok (found, r1, sv')"
    unfolding assms(2) by blast
  then show ?thesis
  proof cases
    case 2
    have "(now, r) \<in> fst ` set ps" using nth_mem [OF assms(4)] assms(5) by force
    with 2(1) have "(now, r) \<in> arrivals su ps" by (simp add: arrivals_def)
    moreover have "svHandler sv' = snd (outcome ms now r (svHandler sv))"
      using mock_matcher_outcome [OF 2(1), of ms now sv] 2(2) by auto
    ultimately show ?thesis using keeps_outcome [OF assms(3)] by simp
  qed (use assms(3) in simp)
qed

lemma keeps_handler:
  assumes "run_handler su h r sv = (reply, sv')" and "server_handler su h" and "suMatchstore su = ms"
    and "\<And>tree. loads_files su tree \<Longrightarrow> loads tree" and "P A (svHandler sv)"
  shows "P A (svHandler sv')"
proof -
  have "handler_change ms loads (svHandler sv) (svHandler sv')"
    using run_handler_change [OF assms(1,2)] assms(3,4) unfolding handler_change_def by blast
  then show ?thesis using keeps_change assms(5) by blast
qed

lemma keeps_step:
  assumes "http_step mx su (sv, ps) (sv', ps')" and "suMatchstore su = ms"
    and "\<And>tree. loads_files su tree \<Longrightarrow> loads tree"
    and "wired su ps" and "P (arrivals su ps) (svHandler sv)"
  shows "wired su ps' \<and> P (arrivals su ps') (svHandler sv')"
proof (rule http_stepE [OF assms(1)])
  fix now r
  assume "sv = sv'" "ps' = ps @ [((now, r), Arrived)]"
  then show ?thesis
    using assms(4) more_arrivals [OF assms(5) arrivals_append] by (auto simp: wired_def)
next
  fix i now r
  assume "sv' = sv" "ps' = ps[i := ((now, r), Finished (Moved (muxClean mx (urlPath r))))]" "i < length ps"
    "ps ! i = ((now, r), Arrived)"
  then show ?thesis using assms(4,5) by (simp add: arrivals_update wired_update)
next
  fix i now r h r' e
  assume ps: "ps' = ps[i := ((now, r), Dispatched h r')]" "i < length ps" "ps ! i = ((now, r), Arrived)"
    and route: "find_route mx now (SetupRouter su) False r (sv, None) = (Found h r', sv', e)"
  have "server_handler su h" using setup_route [OF route] by blast
  then show ?thesis
    using ps keeps_routing [OF route assms(2,5) ps(2,3)] assms(4) by (simp add: arrivals_update wired_update)
next
  fix i now r res e
  assume ps: "ps' = ps[i := ((now, r), Finished (refusal res))]" "i < length ps" "ps ! i = ((now, r), Arrived)"
    and route: "find_route mx now (SetupRouter su) False r (sv, None) = (res, sv', e)"
  then show ?thesis
    using keeps_routing [OF route assms(2,5) ps(2,3)] assms(4) by (simp add: arrivals_update wired_update)
next
  fix i q h r' reply
  assume ps: "ps' = ps[i := (q, Finished reply)]" "i < length ps" "ps ! i = (q, Dispatched h r')"
    and run: "run_handler su h r' sv = (reply, sv')"
  have "server_handler su h" using assms(4) nth_mem [OF ps(2)] ps(3) unfolding wired_def by metis
  then show ?thesis
    using keeps_handler [OF run _ assms(2,3,5)] ps assms(4) by (simp add: arrivals_update wired_update)
qed

theorem keeps_reachable:
  assumes "(http_step mx su)\<^sup>*\<^sup>* (sv, []) (sv', ps)" and "suMatchstore su = ms"
    and "\<And>tree. loads_files su tree \<Longrightarrow> loads tree" and "P {} (svHandler sv)"
  shows "P (arrivals su ps) (svHandler sv')"
proof -
  have "wired su (snd c) \<and> P (arrivals su (snd c)) (svHandler (fst c))"
    if "(http_step mx su)\<^sup>*\<^sup>* (sv, []) c" for c
    using that
  proof (induction rule: rtranclp_induct)
    case (step c c')
    then show ?case
      using keeps_step [of mx su "fst c" "snd c" "fst c'" "snd c'"] assms(2,3) by simp
  qed (use assms(4) in simp)
  from this [OF assms(1)] show ?thesis by simp
qed

end

end
