(* ===== verification/HttpStepsProps.thy ===== *)
theory HttpStepsProps
  imports HttpSteps InMemoryProps
begin

text \<open>
  What holds in every state the server reaches over HTTP, however requests interleave: its records
  are a history of recordings and deletions, its tree is well formed, every request is recorded once
  and gets a reply.
\<close>

section \<open>The records as a history\<close>

text \<open>The additions of a history: matches with their endpoint and address, and mismatches.\<close>

fun adds :: "(nat, Mismatch) store_op list \<Rightarrow> (string \<times> nat) list" where
  "adds [] = []"
| "adds (AddMatchOp ep a # ops) = (ep, a) # adds ops"
| "adds (_ # ops) = adds ops"

fun misses :: "(nat, Mismatch) store_op list \<Rightarrow> Mismatch list" where
  "misses [] = []"
| "misses (AddMismatchOp mm # ops) = mm # misses ops"
| "misses (_ # ops) = misses ops"

lemma adds_append [simp]: "adds (ops @ ops') = adds ops @ adds ops'"
  by (induction ops rule: adds.induct) simp_all

lemma misses_append [simp]: "misses (ops @ ops') = misses ops @ misses ops'"
  by (induction ops rule: misses.induct) simp_all

lemma run_inmemory_snoc: "run_inmemory cap (ops @ [op]) = apply_op inmemory_store op (run_inmemory cap ops)"
  by (simp add: run_inmemory_def)

text \<open>A history explains the state of a handler: it leads to the store, its matches are the allocated ones in
  order, the metrics count its additions, and what it adds are records of requests that have arrived.\<close>

definition explains ::
  "16 word \<Rightarrow> (int \<times> request) set \<Rightarrow> ('t, (nat, Mismatch) InMemoryMatchstore) handler_state
     \<Rightarrow> (nat, Mismatch) store_op list \<Rightarrow> bool" where
  "explains cap A h ops \<longleftrightarrow> hsMatchstore h = run_inmemory cap ops
     \<and> adds ops = zip (map mEndpointID (hsMatches h)) [0..<length (hsMatches h)]
     \<and> (\<forall>ep. hsMatchesMetric h ep = length (filter (\<lambda>p. fst p = ep) (adds ops)))
     \<and> hsMismatchesMetric h = length (misses ops)
     \<and> set (map (\<lambda>m. (mTimestamp m, mActualRequest m)) (hsMatches h)) \<subseteq> apsnd actual_request ` A
     \<and> set (map (\<lambda>mm. (mmTimestamp mm, mmActualRequest mm)) (misses ops)) \<subseteq> apsnd actual_request ` A"

lemma explains_step:
  assumes "explains cap A h ops" and "hsMatchstore h' = apply_op inmemory_store op (hsMatchstore h)"
    and "adds [op] = []" and "misses [op] = []" and "hsMatches h' = hsMatches h"
    and "hsMatchesMetric h' = hsMatchesMetric h" and "hsMismatchesMetric h' = hsMismatchesMetric h"
  shows "explains cap A h' (ops @ [op])"
  using assms by (simp add: explains_def run_inmemory_snoc)

lemma arrived_record: "(now, r) \<in> A \<Longrightarrow> (now, actual_request r) \<in> apsnd actual_request ` A"
  using imageI [of "(now, r)" A "apsnd actual_request"] by simp

lemma explains_more: "explains cap A h ops \<Longrightarrow> A \<subseteq> B \<Longrightarrow> explains cap B h ops"
  unfolding explains_def by (elim conjE) (intro conjI; (assumption | meson image_mono subset_trans))

lemma explains_match:
  assumes "explains cap A h ops" and "(now, r) \<in> A"
  shows "explains cap A (match_recorded inmemory_backend now ep r h) (ops @ [AddMatchOp (epID ep) (length (hsMatches h))])"
  using assms arrived_record [OF assms(2)] by (simp add: explains_def run_inmemory_snoc match_recorded_def)

lemma explains_mismatch:
  assumes "explains cap A h ops" and "(now, r) \<in> A"
  shows "explains cap A (mismatch_recorded inmemory_backend now d r h)
    (ops @ [AddMismatchOp \<lparr>mmDetails = d, mmTimestamp = now, mmActualRequest = actual_request r\<rparr>])"
  using assms arrived_record [OF assms(2)] by (simp add: explains_def run_inmemory_snoc mismatch_recorded_def)

lemma keys_ids: "map record_key heap = map record_key heap' \<Longrightarrow> map mEndpointID heap = map mEndpointID heap'"
  and keys_requests: "map record_key heap = map record_key heap' \<Longrightarrow>
    map (\<lambda>m. (mTimestamp m, mActualRequest m)) heap = map (\<lambda>m. (mTimestamp m, mActualRequest m)) heap'"
proof -
  assume k: "map record_key heap = map record_key heap'"
  have "map mEndpointID hp = map fst (map record_key hp)" for hp by (simp add: record_key_def)
  with k show "map mEndpointID heap = map mEndpointID heap'" by metis
  have "map (\<lambda>m. (mTimestamp m, mActualRequest m)) hp = map snd (map record_key hp)" for hp by (simp add: record_key_def)
  with k show "map (\<lambda>m. (mTimestamp m, mActualRequest m)) heap = map (\<lambda>m. (mTimestamp m, mActualRequest m)) heap'" by metis
qed

lemma explains_response:
  assumes "explains cap A h ops" and "map record_key heap = map record_key (hsMatches h)"
  shows "explains cap A (h\<lparr>hsMatches := heap\<rparr>) ops"
  using assms keys_ids [OF assms(2)] keys_requests [OF assms(2)] map_eq_imp_length_eq [OF assms(2)]
  by (simp add: explains_def del: set_map)

interpretation history: server_invariant inmemory_backend "\<lambda>_. True" "\<lambda>A h. \<exists>ops. explains cap A h ops" for cap
proof
  fix A B :: "(int \<times> request) set" and h :: "('t, (nat, Mismatch) InMemoryMatchstore) handler_state"
  assume "\<exists>ops. explains cap A h ops" and "A \<subseteq> B"
  then show "\<exists>ops. explains cap B h ops" using explains_more by blast
next
  fix A and h :: "('t, (nat, Mismatch) InMemoryMatchstore) handler_state" and tree
  show "\<exists>ops. explains cap A h ops \<Longrightarrow> \<exists>ops. explains cap A (h\<lparr>hsEpSearchNode := tree\<rparr>) ops"
    by (simp add: explains_def)
next
  fix A and h :: "('t, (nat, Mismatch) InMemoryMatchstore) handler_state" and i
  show "\<exists>ops. explains cap A h ops \<Longrightarrow>
    \<exists>ops. explains cap A (h\<lparr>hsMatchstore := fst (DeleteMatches (beStore inmemory_backend (hsMatches h)) i (hsMatchstore h))\<rparr>) ops"
  proof (elim exE)
    fix ops assume "explains cap A h ops"
    then show ?thesis
      by (intro exI [where x = "ops @ [DeleteMatchesOp i]"] explains_step) simp_all
  qed
next
  fix A and h :: "('t, (nat, Mismatch) InMemoryMatchstore) handler_state"
  show "\<exists>ops. explains cap A h ops \<Longrightarrow>
    \<exists>ops. explains cap A (h\<lparr>hsMatchstore := fst (DeleteMismatches (beStore inmemory_backend (hsMatches h)) (hsMatchstore h))\<rparr>) ops"
  proof (elim exE)
    fix ops assume "explains cap A h ops"
    then show ?thesis
      by (intro exI [where x = "ops @ [DeleteMismatchesOp]"] explains_step) simp_all
  qed
qed (blast intro: explains_match explains_mismatch explains_response)+

text \<open>A request on its own is a run of the steps.\<close>

lemma serve_http_run:
  "(http_step mx su)\<^sup>*\<^sup>* (sv, ps)
     (snd (serve_http mx su now r sv), ps @ [((now, r), Finished (fst (serve_http mx su now r sv)))])"
proof -
  let ?n = "length ps" and ?ps = "ps @ [((now, r), Arrived)]"
  have last: "?n < length ?ps" "?ps ! ?n = ((now, r), Arrived)" by simp_all
  have update: "?ps[?n := x] = ps @ [x]" for x by simp
  have arrive: "http_step mx su (sv, ps) (sv, ?ps)" by (rule Arrive)
  have "(http_step mx su)\<^sup>*\<^sup>* (sv, ?ps)
     (snd (serve_http mx su now r sv), ps @ [((now, r), Finished (fst (serve_http mx su now r sv)))])"
  proof (cases "muxClean mx (urlPath r) = urlPath r")
    case False
    then show ?thesis using Redirect [OF last False, of su sv] by (simp add: serve_http_def)
  next
    case True
    obtain res sv1 e where route: "find_route mx now (SetupRouter su) False r (sv, None) = (res, sv1, e)"
      using prod_cases3 by blast
    have e: "e = None" using setup_route [OF route] by blast
    show ?thesis
    proof (cases "\<exists>h r'. res = Found h r'")
      case False
      then have "serve_http mx su now r sv = (refusal res, sv1)"
        using True route by (cases res) (auto simp: serve_http_def)
      then show ?thesis
        using Refuse [OF last True route] False by (simp add: update)
    next
      case found: True
      then obtain h r' where h: "res = Found h r'" by blast
      obtain reply sv2 where run: "run_handler su h r' sv1 = (reply, sv2)" by force
      then have "serve_http mx su now r sv = (reply, sv2)"
        using True route by (simp add: serve_http_def h run_handler_def e)
      moreover have "http_step mx su (sv, ?ps) (sv1, ps @ [((now, r), Dispatched h r')])"
        using Route [OF last True route [unfolded h]] by (simp add: update)
      moreover have "http_step mx su (sv1, ps @ [((now, r), Dispatched h r')]) (sv2, ps @ [((now, r), Finished reply)])"
        using Handle [of ?n "ps @ [((now, r), Dispatched h r')]" "(now, r)" h r' su sv1 reply sv2 mx] run by simp
      ultimately show ?thesis by (simp add: rtranclp.rtrancl_into_rtrancl converse_rtranclp_into_rtranclp)
    qed
  qed
  with arrive show ?thesis by (rule converse_rtranclp_into_rtranclp)
qed

lemma history_reachable:
  assumes "(http_step mx su)\<^sup>*\<^sup>* (start_server tree (NewInMemoryMatchstore cap) world, []) (sv, ps)"
    and "suMatchstore su = inmemory_backend"
  shows "\<exists>ops. explains cap (arrivals su ps) (svHandler sv) ops"
proof -
  have "\<exists>ops. explains cap {} (svHandler (start_server tree (NewInMemoryMatchstore cap) world)) ops"
    by (intro exI [where x = "[]"]) (simp add: explains_def start_server_def run_inmemory_def)
  from history.keeps_reachable [OF assms _ this] show ?thesis by blast
qed

section \<open>Properties\<close>



section \<open>The search tree\<close>

interpretation trees: server_invariant ms "well_formed []" "\<lambda>A h. well_formed [] (hsEpSearchNode h)" for ms
  by unfold_locales (simp_all add: match_recorded_def mismatch_recorded_def)

text \<open>C30: The search tree is well formed after every successful load of the mock files and in every state the
  server then reaches over HTTP, whatever is requested and reloaded meanwhile: each list of endpoints is
  non-empty and holds endpoints with a method registered for exactly the path and key it is stored
  under, only wildcard nodes bind a parameter, and every node below the root has children or
  endpoints.\<close>

theorem tree_well_formed_over_http:
  assumes "loads_files su tree"
    and "(http_step mx su)\<^sup>*\<^sup>* (start_server tree store world, []) (sv, ps)"
    and "node_at (hsEpSearchNode (svHandler sv)) ks = Some n"
  shows "node_typed ks n \<and> (ks \<noteq> [] \<longrightarrow> node_used n)"
proof -
  have loads: "well_formed [] t" if "loads_files su t" for t
    using that well_formed_loaded unfolding loads_files_def by blast
  have "well_formed [] (hsEpSearchNode (svHandler (start_server tree store world)))"
    using loads [OF assms(1)] by (simp add: start_server_def)
  from trees.keeps_reachable [OF assms(2) refl loads this]
  show ?thesis using assms(3) by (auto simp: well_formed_def)
qed

definition files_setup ::
  "(verbatim, unit, (nat, Mismatch) InMemoryMatchstore, nat, nat InmemoryStorage, nat) server_setup" where
  "files_setup = example_setup\<lparr>suLoader := example_loader example_files\<rparr>"

theorem tree_well_formed_over_http_witness:
  "\<exists>tree n. loads_files files_setup tree \<and> node_at tree [''a''] = Some n \<and> node_typed [''a''] n \<and> node_used n"
proof -
  obtain tree where tree: "LoadFiles (example_loader example_files) ''.'' ''*-mock.*'' = Ok tree"
    "map epID (eps_at tree [''a''] ''GET'') = [''1'']"
    using example_files_loaded by (auto split: result.splits)
  from tree(2) obtain n where n: "node_at tree [''a''] = Some n"
    by (cases "node_at tree [''a'']") (simp_all add: eps_at_def)
  let ?sv = "start_server tree (NewInMemoryMatchstore 5) NewInmemoryStorage"
  have loads: "loads_files files_setup tree"
    using tree(1) by (simp add: loads_files_def files_setup_def example_setup_def default_configuration_def)
  have "(http_step example_mux files_setup)\<^sup>*\<^sup>* (?sv, []) (?sv, [] @ [((1, get_request ''/a'' []), Arrived)])"
    by (rule r_into_rtranclp) (rule Arrive)
  moreover have "node_at (hsEpSearchNode (svHandler ?sv)) [''a''] = Some n"
    using n by (simp only: start_server_def server_state.simps handler_state.simps)
  ultimately have "node_typed [''a''] n \<and> node_used n"
    using tree_well_formed_over_http [OF loads, of example_mux _ _ ?sv _ "[''a'']" n] by blast
  with loads n show ?thesis by blast
qed

section \<open>Every request is recorded once\<close>

text \<open>A request for a mock endpoint has a clean path outside the API; it has been looked at when it is past its arrival.\<close>

definition mock_request :: "mux_env \<Rightarrow> ('t, 'j, 's, 'm, 'k, 'v) server_setup \<Rightarrow> request \<Rightarrow> bool" where
  "mock_request mx su r \<longleftrightarrow> \<not> has_prefix (urlPath r) (APIPathPrefix (suConfig su)) \<and> muxClean mx (urlPath r) = urlPath r"

definition looked_at ::
  "mux_env \<Rightarrow> ('t, 'j, 's, 'm, 'k, 'v) server_setup \<Rightarrow> (int \<times> request) \<times> ('t, 's, 'k) http_phase \<Rightarrow> bool" where
  "looked_at mx su e \<longleftrightarrow> mock_request mx su (snd (fst e)) \<and> (case snd e of Arrived \<Rightarrow> False | _ \<Rightarrow> True)"

lemma looked_at_simps [simp]:
  "\<not> looked_at mx su (q, Arrived)"
  "looked_at mx su (q, Dispatched h r') \<longleftrightarrow> mock_request mx su (snd q)"
  "looked_at mx su (q, Finished reply) \<longleftrightarrow> mock_request mx su (snd q)"
  by (simp_all add: looked_at_def)

text \<open>Without a prefix in the path only the matcher is asked.\<close>

lemma mock_route:
  assumes "template_law mx" and "plain_text (APIPathPrefix (suConfig su))" and "mock_request mx su r"
    and "find_route mx now (SetupRouter su) False r (sv, None) = (res, sv', e)"
  shows "recorded sv' = Suc (recorded sv)"
proof -
  have p: "\<not> has_prefix (urlPath r) (APIPathPrefix (suConfig su))" "muxClean mx (urlPath r) = urlPath r"
    using assms(3) by (simp_all add: mock_request_def)
  from find_mock_route [OF assms(1,2) p(1), of now sv]
  obtain found b sv1 where m: "mock_matcher (suMatchstore su) (APIPathPrefix (suConfig su)) now r sv = Ok (found, r\<lparr>reqBody := b\<rparr>, sv1)"
    "snd (find_route mx now (SetupRouter su) False r (sv, None)) = (sv1, None)" by force
  then have "sv' = sv1" using assms(4) by simp
  with recorded_matcher [OF p(1) m(1)] show ?thesis by simp
qed

lemma recorded_change: "handler_change ms loads (svHandler sv) (svHandler sv') \<Longrightarrow> recorded sv' = recorded sv"
  by (auto simp: handler_change_def recorded_def dest: map_eq_imp_length_eq)

definition counting_inv :: "mux_env \<Rightarrow> ('t, 'j, 's, 'm, 'k, 'v) server_setup \<Rightarrow> ('t, 's, 'k) http_config \<Rightarrow> bool" where
  "counting_inv mx su c \<longleftrightarrow> wired su (snd c) \<and> recorded (fst c) = length (filter (looked_at mx su) (snd c))"

lemma counting_routing:
  assumes "template_law mx" and "plain_text (APIPathPrefix (suConfig su))"
    and "find_route mx now (SetupRouter su) False r (sv, None) = (res, sv', e)" and "muxClean mx (urlPath r) = urlPath r"
  shows "recorded sv' = (if mock_request mx su r then Suc (recorded sv) else recorded sv)"
proof (cases "mock_request mx su r")
  case True
  then show ?thesis using mock_route [OF assms(1,2) _ assms(3)] by simp
next
  case False
  with assms(4) setup_route [OF assms(3)] have "sv' = sv" by (auto simp: mock_request_def)
  with False show ?thesis by simp
qed

lemma counting_step:
  assumes "template_law mx" and "plain_text (APIPathPrefix (suConfig su))"
    and "http_step mx su (sv, ps) (sv', ps')" and "counting_inv mx su (sv, ps)"
  shows "counting_inv mx su (sv', ps')"
proof -
  have inv: "wired su ps" "recorded sv = length (filter (looked_at mx su) ps)"
    using assms(4) by (simp_all add: counting_inv_def)
  have counted: "length (filter (looked_at mx su) (ps[i := (q, ph')])) =
      length (filter (looked_at mx su) ps) + of_bool (looked_at mx su (q, ph'))"
    if "i < length ps" "ps ! i = (q, Arrived)" for i q ph'
    using length_filter_update [OF that(1), of "looked_at mx su" "(q, ph')"] that(2) by simp
  show ?thesis
  proof (rule http_stepE [OF assms(3)])
    fix now r assume "sv = sv'" "ps' = ps @ [((now, r), Arrived)]"
    then show ?thesis using inv by (auto simp: counting_inv_def wired_def)
  next
    fix i now r
    assume "sv' = sv" "ps' = ps[i := ((now, r), Finished (Moved (muxClean mx (urlPath r))))]" "i < length ps"
      "ps ! i = ((now, r), Arrived)" "muxClean mx (urlPath r) \<noteq> urlPath r"
    then show ?thesis using inv counted by (simp add: counting_inv_def wired_update mock_request_def)
  next
    fix i now r h r' e
    assume ps: "ps' = ps[i := ((now, r), Dispatched h r')]" "i < length ps" "ps ! i = ((now, r), Arrived)"
      and clean: "muxClean mx (urlPath r) = urlPath r"
      and route: "find_route mx now (SetupRouter su) False r (sv, None) = (Found h r', sv', e)"
    have "server_handler su h" using setup_route [OF route] by blast
    then show ?thesis
      using inv counted [OF ps(2,3)] counting_routing [OF assms(1,2) route clean] ps(1)
      by (simp add: counting_inv_def wired_update(2))
  next
    fix i now r res e
    assume "ps' = ps[i := ((now, r), Finished (refusal res))]" "i < length ps" "ps ! i = ((now, r), Arrived)"
      "muxClean mx (urlPath r) = urlPath r" "find_route mx now (SetupRouter su) False r (sv, None) = (res, sv', e)"
    then show ?thesis
      using inv counted counting_routing [OF assms(1,2)] by (simp add: counting_inv_def wired_update)
  next
    fix i q h r' reply
    assume ps: "ps' = ps[i := (q, Finished reply)]" "i < length ps" "ps ! i = (q, Dispatched h r')"
      and run: "run_handler su h r' sv = (reply, sv')"
    have "server_handler su h" using inv(1) nth_mem [OF ps(2)] ps(3) unfolding wired_def by metis
    from run_handler_change [OF run this] have "recorded sv' = recorded sv" by (rule recorded_change)
    then show ?thesis
      using inv ps length_filter_update [OF ps(2), of "looked_at mx su" "(q, Finished reply)"]
      by (simp add: counting_inv_def wired_update split: if_splits)
  qed
qed



section \<open>Every request gets a reply\<close>

text \<open>The steps that work on the requests that are there, and what is left to do for them.\<close>

definition handling_step ::
  "mux_env \<Rightarrow> ('t, 'j, 's, 'm, 'k, 'v) server_setup \<Rightarrow> ('t, 's, 'k) http_config \<Rightarrow> ('t, 's, 'k) http_config \<Rightarrow> bool" where
  "handling_step mx su c c' \<longleftrightarrow> http_step mx su c c' \<and> length (snd c') = length (snd c)"

primrec steps_left :: "('t, 's, 'k) http_phase \<Rightarrow> nat" where
  "steps_left Arrived = 2"
| "steps_left (Dispatched h r) = 1"
| "steps_left (Finished reply) = 0"

definition work_left :: "('t, 's, 'k) http_config \<Rightarrow> nat" where
  "work_left c = sum_list (map (\<lambda>e. steps_left (snd e)) (snd c))"

lemma work_left_update:
  "i < length ps \<Longrightarrow> steps_left ph < steps_left (snd (ps ! i)) \<Longrightarrow> work_left (sv', ps[i := (q, ph)]) < work_left (sv, ps)"
proof (induction ps arbitrary: i)
  case (Cons e ps)
  then show ?case by (cases i) (auto simp: work_left_def)
qed simp

lemma handling_step_works:
  assumes "handling_step mx su c c'"
  shows "work_left c' < work_left c"
proof -
  obtain sv ps sv' ps' where c: "c = (sv, ps)" "c' = (sv', ps')" by fastforce
  have len: "length ps' = length ps" and step: "http_step mx su (sv, ps) (sv', ps')"
    using assms by (simp_all add: handling_step_def c)
  show ?thesis
    unfolding c by (rule http_stepE [OF step]) (use len in \<open>auto intro!: work_left_update\<close>)
qed

lemma unfinished_steps:
  assumes "e \<in> set ps" and "steps_left (snd e) \<noteq> 0"
  shows "\<exists>c'. handling_step mx su (sv, ps) c'"
proof -
  obtain i where i: "i < length ps" "ps ! i = e" using assms(1) by (metis in_set_conv_nth)
  obtain now r ph where e: "e = ((now, r), ph)" by (metis surj_pair)
  show ?thesis
  proof (cases ph)
    case Arrived
    with i e have at: "i < length ps" "ps ! i = ((now, r), Arrived)" by simp_all
    obtain res sv' e' where route: "find_route mx now (SetupRouter su) False r (sv, None) = (res, sv', e')"
      by (metis surj_pair)
    show ?thesis
    proof (cases "muxClean mx (urlPath r) = urlPath r")
      case True
      show ?thesis
      proof (cases "\<exists>h r'. res = Found h r'")
        case True': True
        then obtain h r' where "res = Found h r'" by blast
        then show ?thesis using Route [OF at True] route by (fastforce simp: handling_step_def)
      next
        case False
        then show ?thesis using Refuse [OF at True route] by (fastforce simp: handling_step_def)
      qed
    next
      case False
      then show ?thesis using Redirect [OF at] by (fastforce simp: handling_step_def)
    qed
  next
    case (Dispatched h r')
    obtain reply sv' where "run_handler su h r' sv = (reply, sv')" by fastforce
    with i e Dispatched show ?thesis
      using Handle [of i ps "(now, r)" h r' su sv reply sv' mx] by (fastforce simp: handling_step_def)
  qed (use assms(2) e in simp)
qed

lemma handling_step_same:
  assumes "handling_step mx su c c'"
  shows "map fst (snd c') = map fst (snd c)"
proof -
  obtain sv ps sv' ps' where c: "c = (sv, ps)" "c' = (sv', ps')" by fastforce
  have len: "length ps' = length ps" and step: "http_step mx su (sv, ps) (sv', ps')"
    using assms by (simp_all add: handling_step_def c)
  have same: "map fst (ps[i := (q, ph')]) = map fst ps" if "ps ! i = (q, ph)" "i < length ps" for i q ph ph'
  proof -
    have "map fst ps ! i = q" using that by simp
    then show ?thesis by (metis fst_conv list_update_id map_update)
  qed
  show ?thesis
    unfolding c snd_conv by (rule http_stepE [OF step]) (use len in \<open>simp_all add: same\<close>)
qed

lemma finished_iff: "steps_left ph = 0 \<longleftrightarrow> (\<exists>reply. ph = Finished reply)"
  by (cases ph) simp_all

lemma finished_replies:
  "\<forall>e\<in>set ps. \<exists>reply. e = (fst e, Finished reply) \<Longrightarrow>
   \<exists>replies. ps = map2 (\<lambda>e reply. (fst e, Finished reply)) ps replies \<and> length replies = length ps"
proof (induction ps)
  case (Cons e ps)
  then obtain replies reply where "ps = map2 (\<lambda>e reply. (fst e, Finished reply)) ps replies"
    "length replies = length ps" "e = (fst e, Finished reply)" by auto
  then show ?case by (intro exI [of _ "reply # replies"]) simp
qed simp

lemma map2_fst:
  "map fst ps = map fst ps' \<Longrightarrow> map2 (\<lambda>e reply. (fst e, f reply)) ps rs = map2 (\<lambda>e reply. (fst e, f reply)) ps' rs"
proof (induction ps arbitrary: ps' rs)
  case (Cons e ps)
  then show ?case by (cases ps'; cases rs) auto
qed simp


end
