(* ===== verification/LifecycleProps.thy ===== *)
theory LifecycleProps
  imports Lifecycle
begin

text \<open>
  What the life of the process guarantees: once a stop is requested the process ends after a bounded
  number of steps, it never ends for another reason, and when \<open>SetupRouter\<close> returns both
  stores have been shut down in order and no request is active. Before the server variable is
  assigned a stop is a nil dereference.
\<close>

lemmas lc_steps = lc_step_def DefaultServing_def shutdown_steps_def DefaultShutdown_def other_steps_def
  serving_returns_def shutting_down_def group_done_def group_error_def

lemma lc_step_running: "lc_step ms st closed ev s = Some s' \<Longrightarrow> lcExit s = Running"
  by (simp add: lc_step_def split: if_splits)

section \<open>Every stop ends the process\<close>

text \<open>Events the environment decides about; all others happen by themselves when they can.\<close>

definition environment_event :: "lc_event \<Rightarrow> bool" where
  "environment_event ev \<longleftrightarrow>
     (case ev of SignalArrives \<Rightarrow> True | AcceptRequest \<Rightarrow> True | AcceptFails e \<Rightarrow> True | _ \<Rightarrow> False)"

definition stop_requested :: "('s, 'k) lifecycle \<Rightarrow> bool" where
  "stop_requested s \<longleftrightarrow> lcSignal s \<or> group_done s"

primrec serving_rank :: "serving_phase \<Rightarrow> nat" where
  "serving_rank BeforeServing = 3"
| "serving_rank BeforeListen = 2"
| "serving_rank Accepting = 1"
| "serving_rank ServingReturned = 0"

primrec shutdown_rank :: "shutdown_phase \<Rightarrow> nat" where
  "shutdown_rank AwaitDone = 5"
| "shutdown_rank AtMatchstore = 4"
| "shutdown_rank AtKVStore = 3"
| "shutdown_rank AtServer = 2"
| "shutdown_rank InShutdown = 1"
| "shutdown_rank ShutdownReturned = 0"

definition lc_measure :: "('s, 'k) lifecycle \<Rightarrow> nat" where
  "lc_measure s = of_bool (lcSignal s \<and> \<not> lcCancelled s) + serving_rank (lcServing s) + lcActive s
     + shutdown_rank (lcShutdown s) + of_bool (lcExit s = Running)"

lemma internal_step_decreases:
  "lc_step ms st closed ev s = Some s' \<Longrightarrow> \<not> environment_event ev \<Longrightarrow> lc_measure s' < lc_measure s"
  by (cases ev) (auto simp: lc_steps lc_measure_def environment_event_def split: if_splits option.splits prod.splits)

lemma environment_step_adds:
  "lc_step ms st closed ev s = Some s' \<Longrightarrow> environment_event ev \<Longrightarrow> lc_measure s' \<le> lc_measure s + 1"
  by (cases ev) (auto simp: lc_steps lc_measure_def environment_event_def split: if_splits)

lemma run_bound:
  "lc_run ms st closed evs s = Some s' \<Longrightarrow>
   length (filter (\<lambda>ev. \<not> environment_event ev) evs) + lc_measure s'
     \<le> lc_measure s + length (filter environment_event evs)"
proof (induction evs arbitrary: s)
  case (Cons ev evs)
  then obtain s1 where s1: "lc_step ms st closed ev s = Some s1" "lc_run ms st closed evs s1 = Some s'"
    by (auto split: option.splits)
  show ?case
  proof (cases "environment_event ev")
    case True
    with Cons.IH [OF s1(2)] environment_step_adds [OF s1(1)] show ?thesis by simp
  next
    case False
    with Cons.IH [OF s1(2)] internal_step_decreases [OF s1(1)] show ?thesis by simp
  qed
qed simp

lemma stop_requested_step:
  "lc_step ms st closed ev s = Some s' \<Longrightarrow> stop_requested s \<Longrightarrow> stop_requested s'"
  by (cases ev) (auto simp: lc_steps stop_requested_def split: if_splits option.splits prod.splits)

lemma stop_requested_run:
  "lc_run ms st closed evs s = Some s' \<Longrightarrow> stop_requested s \<Longrightarrow> stop_requested s'"
  by (induction evs arbitrary: s) (auto split: option.splits dest: stop_requested_step)

text \<open>The event that happens next once a stop is requested.\<close>

definition next_event :: "('s, 'k) lifecycle \<Rightarrow> lc_event" where
  "next_event s =
     (case lcShutdown s of
        AwaitDone \<Rightarrow> if group_done s then SeeDone else CancelContext
      | AtMatchstore \<Rightarrow> ShutdownMatchstore
      | AtKVStore \<Rightarrow> ShutdownKVStore
      | AtServer \<Rightarrow> CallShutdown
      | InShutdown \<Rightarrow> if 0 < lcActive s then RequestEnds else ShutdownReturns
      | ShutdownReturned \<Rightarrow>
          (case lcServing s of BeforeServing \<Rightarrow> AssignServer | BeforeListen \<Rightarrow> Listen None
           | Accepting \<Rightarrow> ServeClosed | ServingReturned \<Rightarrow> WaitReturns))"

lemma stop_progress:
  assumes "stop_requested s" and "lcExit s = Running"
  shows "\<not> environment_event (next_event s)" and "lc_step ms st closed (next_event s) s \<noteq> None"
  using assms
  by (auto simp: next_event_def environment_event_def lc_steps stop_requested_def
      split: shutdown_phase.splits serving_phase.splits prod.splits option.splits)

lemma lc_run_snoc:
  "lc_run ms st closed (evs @ [ev]) s =
     (case lc_run ms st closed evs s of None \<Rightarrow> None | Some s' \<Rightarrow> lc_step ms st closed ev s')"
  by (induction evs arbitrary: s) (auto split: option.splits)

lemma stop_run_exists:
  "stop_requested s \<Longrightarrow>
   \<exists>evs s'. list_all (\<lambda>ev. \<not> environment_event ev) evs \<and> lc_run ms st closed evs s = Some s'
     \<and> lcExit s' \<noteq> Running"
proof (induction "lc_measure s" arbitrary: s rule: less_induct)
  case less
  show ?case
  proof (cases "lcExit s = Running")
    case True
    obtain s1 where s1: "lc_step ms st closed (next_event s) s = Some s1" "\<not> environment_event (next_event s)"
      using stop_progress [OF less.prems True] by blast
    obtain evs s' where "list_all (\<lambda>ev. \<not> environment_event ev) evs" "lc_run ms st closed evs s1 = Some s'"
      "lcExit s' \<noteq> Running"
      using less.hyps [OF internal_step_decreases [OF s1] stop_requested_step [OF s1(1) less.prems]] by blast
    with s1 show ?thesis by (intro exI [of _ "next_event s # evs"] exI [of _ s']) simp
  next
    case False
    then show ?thesis by (intro exI [of _ "[]"] exI [of _ s]) simp
  qed
qed


definition plain_configuration :: BasicConfiguration where
  "plain_configuration = default_configuration\<lparr>APIPassword := ''secret''\<rparr>"

text \<open>A process with the in-memory stores.\<close>

definition booted :: "((nat, nat) InMemoryMatchstore, nat InmemoryStorage) lifecycle" where
  "booted = \<lparr>lcSignal = False, lcCancelled = False, lcServing = BeforeServing, lcShutdown = AwaitDone,
     lcActive = 0, lcGroupErr = None, lcMatchstore = NewInMemoryMatchstore 5,
     lcKVStore = NewInmemoryStorage, lcLog = [''info''], lcExit = Running\<rparr>"


section \<open>What holds along every run\<close>

lemma lc_run_invariant:
  assumes "P [] s0"
    and "\<And>evs s ev s'. P evs s \<Longrightarrow> lc_step ms st closed ev s = Some s' \<Longrightarrow> P (evs @ [ev]) s'"
  shows "lc_run ms st closed evs s0 = Some s \<Longrightarrow> P evs s"
proof (induction evs arbitrary: s rule: rev_induct)
  case Nil
  with assms(1) show ?case by simp
next
  case (snoc ev evs)
  then obtain s1 where "lc_run ms st closed evs s0 = Some s1" "lc_step ms st closed ev s1 = Some s"
    by (auto simp: lc_run_snoc split: option.splits)
  with snoc.IH assms(2) show ?case by blast
qed

definition fresh :: "('s, 'k) lifecycle \<Rightarrow> bool" where
  "fresh s \<longleftrightarrow> \<not> lcSignal s \<and> \<not> lcCancelled s \<and> lcServing s = BeforeServing \<and> lcShutdown s = AwaitDone
     \<and> lcActive s = 0 \<and> lcGroupErr s = None \<and> lcExit s = Running"

lemma boot_fresh:
  "boot c configInfo loaded store kv = Ok s \<Longrightarrow> fresh s \<and> lcMatchstore s = store \<and> lcKVStore s = kv"
  by (cases loaded) (auto simp: boot_def first_state_def fresh_def bind_result_Ok_iff)

text \<open>The causes of a stop: a signal, or an error of \<open>ListenAndServe\<close>.\<close>

definition stop_cause :: "lc_event \<Rightarrow> bool" where
  "stop_cause ev \<longleftrightarrow> (case ev of SignalArrives \<Rightarrow> True | Listen (Some e) \<Rightarrow> True | AcceptFails e \<Rightarrow> True | _ \<Rightarrow> False)"

text \<open>The guard and the effect of every event.\<close>

lemma lc_step_iff:
  "lc_step ms st closed SignalArrives s = Some s' \<longleftrightarrow> lcExit s = Running \<and> s' = s\<lparr>lcSignal := True\<rparr>"
  "lc_step ms st closed CancelContext s = Some s' \<longleftrightarrow> lcExit s = Running \<and> lcSignal s \<and> \<not> lcCancelled s
     \<and> s' = s\<lparr>lcSignal := False, lcCancelled := True\<rparr>"
  "lc_step ms st closed AssignServer s = Some s' \<longleftrightarrow> lcExit s = Running \<and> lcServing s = BeforeServing
     \<and> s' = s\<lparr>lcServing := BeforeListen, lcLog := lcLog s @ [''serving http  ...'']\<rparr>"
  "lc_step ms st closed (Listen None) s = Some s' \<longleftrightarrow> lcExit s = Running \<and> lcServing s = BeforeListen
     \<and> s' = (if shutting_down s then serving_returns ErrServerClosed s else s\<lparr>lcServing := Accepting\<rparr>)"
  "lc_step ms st closed (Listen (Some e)) s = Some s' \<longleftrightarrow> lcExit s = Running \<and> lcServing s = BeforeListen
     \<and> s' = serving_returns (if shutting_down s then ErrServerClosed else e) s"
  "lc_step ms st closed AcceptRequest s = Some s' \<longleftrightarrow> lcExit s = Running \<and> lcServing s = Accepting
     \<and> \<not> shutting_down s \<and> s' = s\<lparr>lcActive := lcActive s + 1\<rparr>"
  "lc_step ms st closed RequestEnds s = Some s' \<longleftrightarrow> lcExit s = Running \<and> 0 < lcActive s
     \<and> s' = s\<lparr>lcActive := lcActive s - 1\<rparr>"
  "lc_step ms st closed (AcceptFails e) s = Some s' \<longleftrightarrow> lcExit s = Running \<and> lcServing s = Accepting
     \<and> \<not> shutting_down s \<and> s' = serving_returns e s"
  "lc_step ms st closed ServeClosed s = Some s' \<longleftrightarrow> lcExit s = Running \<and> lcServing s = Accepting
     \<and> shutting_down s \<and> s' = serving_returns ErrServerClosed s"
  "lc_step ms st closed SeeDone s = Some s' \<longleftrightarrow> lcExit s = Running \<and> lcShutdown s = AwaitDone
     \<and> group_done s \<and> s' = s\<lparr>lcShutdown := AtMatchstore\<rparr>"
  "lc_step ms st closed ShutdownMatchstore s = Some s' \<longleftrightarrow> lcExit s = Running \<and> lcShutdown s = AtMatchstore
     \<and> s' = s\<lparr>lcShutdown := AtKVStore, lcMatchstore := fst (Shutdown ms (lcMatchstore s)),
         lcLog := lcLog s @ [''shutting down matchstore ...'']
           @ logged ''matchstore'' (snd (Shutdown ms (lcMatchstore s)))\<rparr>"
  "lc_step ms st closed ShutdownKVStore s = Some s' \<longleftrightarrow> lcExit s = Running \<and> lcShutdown s = AtKVStore
     \<and> s' = s\<lparr>lcShutdown := AtServer, lcKVStore := fst (ShutdownStorage st (lcKVStore s)),
         lcLog := lcLog s @ [''shutting down kvstore ...'']
           @ logged ''kvstore'' (snd (ShutdownStorage st (lcKVStore s)))\<rparr>"
  "lc_step ms st closed CallShutdown s = Some s' \<longleftrightarrow> lcExit s = Running \<and> lcShutdown s = AtServer
     \<and> s' = (if lcServing s = BeforeServing
         then s\<lparr>lcLog := lcLog s @ [''shutting down http server ...''], lcExit := Crashed nil_deref\<rparr>
         else s\<lparr>lcShutdown := InShutdown, lcLog := lcLog s @ [''shutting down http server ...'']\<rparr>)"
  "lc_step ms st closed ShutdownReturns s = Some s' \<longleftrightarrow> lcExit s = Running \<and> lcShutdown s = InShutdown
     \<and> lcActive s = 0
     \<and> s' = s\<lparr>lcShutdown := ShutdownReturned, lcGroupErr := group_error (lcGroupErr s) closed\<rparr>"
  "lc_step ms st closed WaitReturns s = Some s' \<longleftrightarrow> lcExit s = Running \<and> lcServing s = ServingReturned
     \<and> lcShutdown s = ShutdownReturned
     \<and> s' = s\<lparr>lcExit := Returned (lcGroupErr s),
         lcLog := lcLog s @ (if lcGroupErr s \<noteq> None then [''exit ''] else [])\<rparr>"
  by (auto simp: lc_step_def DefaultServing_def shutdown_steps_def DefaultShutdown_def other_steps_def
      split: prod.splits)

lemma lc_event_cases:
  "(\<And>e. ev = Listen (Some e) \<Longrightarrow> P) \<Longrightarrow> (ev = Listen None \<Longrightarrow> P) \<Longrightarrow>
   (\<forall>a. ev \<noteq> Listen a \<Longrightarrow> P) \<Longrightarrow> P"
  by (metis option.exhaust)

definition signal_inv :: "lc_event list \<Rightarrow> ('s, 'k) lifecycle \<Rightarrow> bool" where
  "signal_inv evs s \<longleftrightarrow>
     (lcSignal s \<or> lcCancelled s \<longrightarrow> SignalArrives \<in> set evs)
     \<and> (lcServing s = BeforeServing \<longrightarrow> AssignServer \<notin> set evs)"

definition cause_inv :: "lc_event list \<Rightarrow> ('s, 'k) lifecycle \<Rightarrow> bool" where
  "cause_inv evs s \<longleftrightarrow>
     (lcSignal s \<or> lcCancelled s \<or> lcGroupErr s \<noteq> None \<or> lcShutdown s \<noteq> AwaitDone \<or> lcExit s \<noteq> Running \<longrightarrow>
        (\<exists>ev\<in>set evs. stop_cause ev))
     \<and> (lcServing s = ServingReturned \<longrightarrow> lcGroupErr s \<noteq> None)"

definition phase_inv :: "('s, 'k) lifecycle \<Rightarrow> bool" where
  "phase_inv s \<longleftrightarrow>
     (lcGroupErr s \<noteq> None \<longrightarrow> lcServing s = ServingReturned \<or> lcShutdown s = ShutdownReturned)
     \<and> (lcShutdown s \<noteq> AwaitDone \<longrightarrow> lcCancelled s \<or> lcServing s = ServingReturned)
     \<and> (\<forall>e. lcExit s = Crashed e \<longrightarrow> e = nil_deref \<and> lcServing s = BeforeServing \<and> lcShutdown s = AtServer)"

lemmas lc_effects = lc_step_iff serving_returns_def shutting_down_def group_done_def group_error_def

lemma signal_inv_step:
  "signal_inv evs s \<Longrightarrow> lc_step ms st closed ev s = Some s' \<Longrightarrow> signal_inv (evs @ [ev]) s'"
  by (rule lc_event_cases [of ev]; cases ev) (auto simp: lc_effects signal_inv_def split: if_splits)

lemma cause_inv_step:
  "cause_inv evs s \<Longrightarrow> lc_step ms st closed ev s = Some s' \<Longrightarrow> cause_inv (evs @ [ev]) s'"
  by (rule lc_event_cases [of ev]; cases ev)
    (auto simp: lc_effects cause_inv_def stop_cause_def split: if_splits option.splits)

lemma phase_inv_step:
  "phase_inv s \<Longrightarrow> lc_step ms st closed ev s = Some s' \<Longrightarrow> phase_inv s'"
  by (rule lc_event_cases [of ev]; cases ev)
    (auto simp: lc_effects phase_inv_def split: if_splits option.splits)

lemma run_invs:
  assumes "fresh s0" and "lc_run ms st closed evs s0 = Some s"
  shows "signal_inv evs s" "cause_inv evs s" "phase_inv s"
proof -
  have init: "signal_inv [] s0" "cause_inv [] s0" "phase_inv s0"
    using assms(1) by (simp_all add: fresh_def signal_inv_def cause_inv_def phase_inv_def)
  show "signal_inv evs s"
    by (rule lc_run_invariant [where P = signal_inv, OF init(1) signal_inv_step assms(2)])
  show "cause_inv evs s"
    by (rule lc_run_invariant [where P = cause_inv, OF init(2) cause_inv_step assms(2)])
  show "phase_inv s"
    by (rule lc_run_invariant [where P = "\<lambda>_. phase_inv", OF init(3) phase_inv_step assms(2)])
qed

text \<open>What the shutdown has done in each of its phases.\<close>

definition past_matchstore :: "shutdown_phase \<Rightarrow> bool" where
  "past_matchstore p \<longleftrightarrow> p \<noteq> AwaitDone \<and> p \<noteq> AtMatchstore"

definition past_kvstore :: "shutdown_phase \<Rightarrow> bool" where
  "past_kvstore p \<longleftrightarrow> past_matchstore p \<and> p \<noteq> AtKVStore"

definition orderly_inv ::
  "('s, 'm, 'mm) Matchstore \<Rightarrow> ('k, 'v) Storage \<Rightarrow> 's \<Rightarrow> 'k \<Rightarrow> ('s, 'k) lifecycle \<Rightarrow> bool" where
  "orderly_inv ms st store kv s \<longleftrightarrow>
     lcMatchstore s = (if past_matchstore (lcShutdown s) then fst (Shutdown ms store) else store)
     \<and> lcKVStore s = (if past_kvstore (lcShutdown s) then fst (ShutdownStorage st kv) else kv)
     \<and> (lcShutdown s = ShutdownReturned \<longrightarrow> lcActive s = 0)
     \<and> (\<forall>err. lcExit s = Returned err \<longrightarrow>
          lcServing s = ServingReturned \<and> lcShutdown s = ShutdownReturned \<and> err = lcGroupErr s)"

lemma orderly_inv_step:
  "orderly_inv ms st store kv s \<Longrightarrow> lc_step ms st closed ev s = Some s' \<Longrightarrow> orderly_inv ms st store kv s'"
  by (rule lc_event_cases [of ev]; cases ev)
    (auto simp: lc_effects orderly_inv_def past_matchstore_def past_kvstore_def split: if_splits option.splits)

lemma orderly_inv_run:
  "fresh s0 \<Longrightarrow> lc_run ms st closed evs s0 = Some s \<Longrightarrow>
   orderly_inv ms st (lcMatchstore s0) (lcKVStore s0) s"
  by (rule lc_run_invariant [where P = "\<lambda>evs. orderly_inv ms st (lcMatchstore s0) (lcKVStore s0)"])
    (simp_all add: orderly_inv_step,
      simp add: orderly_inv_def fresh_def past_matchstore_def past_kvstore_def)

text \<open>C27: Orderly exit: when \<open>SetupRouter\<close> of a booted process returns, a signal arrived or
  serving failed before; it returns with an error (never nil) after both stores have been shut
  down, each exactly once, and no request is in its handler any more.\<close>

theorem orderly_exit:
  assumes "boot c configInfo loaded store kv = Ok s0" and "lc_run ms st closed evs s0 = Some s"
    and "lcExit s = Returned err"
  shows "err \<noteq> None \<and> lcMatchstore s = fst (Shutdown ms store) \<and> lcKVStore s = fst (ShutdownStorage st kv)
    \<and> lcActive s = 0 \<and> (\<exists>ev\<in>set evs. stop_cause ev)"
proof -
  have s0: "fresh s0" "lcMatchstore s0 = store" "lcKVStore s0 = kv" using boot_fresh [OF assms(1)] by auto
  from run_invs(2) [OF s0(1) assms(2)] orderly_inv_run [OF s0(1) assms(2)] assms(3)
  show ?thesis
    by (simp add: s0 cause_inv_def orderly_inv_def past_matchstore_def past_kvstore_def)
qed

definition boot_plain :: "((nat, nat) InMemoryMatchstore, nat InmemoryStorage) lifecycle result" where
  "boot_plain = boot plain_configuration [] (Ok (empty_node :: nat epSearchNode)) (NewInMemoryMatchstore 5)
     NewInmemoryStorage"

lemma boot_plain_Ok: "\<exists>s0. boot_plain = Ok s0"
proof -
  have "length (APIPassword plain_configuration) = 6" by (simp add: plain_configuration_def)
  then have "\<exists>info. Info plain_configuration = Ok info"
    by (simp add: Info_def password_message_def slice_to_def)
  then show ?thesis by (auto simp: boot_plain_def boot_def)
qed

text \<open>A run in which a request is accepted after the stores have been shut down.\<close>

definition stop_run :: "lc_event list" where
  "stop_run = [AssignServer, Listen None, SignalArrives, CancelContext, SeeDone, ShutdownMatchstore,
     ShutdownKVStore, AcceptRequest, CallShutdown, ServeClosed, RequestEnds, ShutdownReturns, WaitReturns]"

lemma stop_run_result:
  "fresh s0 \<Longrightarrow> \<exists>s. lc_run ms st closed stop_run s0 = Some s \<and> lcExit s = Returned (Some ErrServerClosed)"
  by (simp add: stop_run_def fresh_def lc_steps split: prod.split option.split)

theorem orderly_exit_witness:
  "\<exists>s0 s. boot_plain = Ok s0 \<and> lc_run inmemory_store inmemory_storage None stop_run s0 = Some s
     \<and> lcExit s = Returned (Some ErrServerClosed) \<and> lcActive s = 0
     \<and> lcMatchstore s = NewInMemoryMatchstore 5"
proof -
  obtain s0 where s0: "boot_plain = Ok s0" using boot_plain_Ok by blast
  have "fresh s0" using boot_fresh [OF s0 [unfolded boot_plain_def]] by blast
  then obtain s where s: "lc_run inmemory_store inmemory_storage None stop_run s0 = Some s"
    "lcExit s = Returned (Some ErrServerClosed)"
    using stop_run_result by blast
  from orderly_exit [OF s0 [unfolded boot_plain_def] s] s0 s show ?thesis by auto
qed

text \<open>A process crashes in its shutdown exactly when the shutdown reaches the http server before
  the serving goroutine has assigned it: then a signal arrived, the stores are already shut
  down, and the cause is the nil server. This can happen to every booted process.\<close>

theorem early_stop_crashes:
  assumes "boot c configInfo loaded store kv = Ok s0"
  shows "(\<forall>evs s e. lc_run ms st closed evs s0 = Some s \<and> lcExit s = Crashed e \<longrightarrow>
        e = nil_deref \<and> SignalArrives \<in> set evs \<and> AssignServer \<notin> set evs
        \<and> lcMatchstore s = fst (Shutdown ms store) \<and> lcKVStore s = fst (ShutdownStorage st kv))
    \<and> (\<exists>s. lc_run ms st closed
          [SignalArrives, CancelContext, SeeDone, ShutdownMatchstore, ShutdownKVStore, CallShutdown] s0 = Some s
        \<and> lcExit s = Crashed nil_deref)"
proof (intro conjI allI impI)
  have s0: "fresh s0" "lcMatchstore s0 = store" "lcKVStore s0 = kv" using boot_fresh [OF assms] by auto
  fix evs s e assume run: "lc_run ms st closed evs s0 = Some s \<and> lcExit s = Crashed e"
  then have c: "signal_inv evs s" "phase_inv s" and o: "orderly_inv ms st store kv s"
    using run_invs [OF s0(1)] orderly_inv_run [OF s0(1)] by (auto simp: s0)
  show "e = nil_deref" "AssignServer \<notin> set evs" "SignalArrives \<in> set evs"
    using c run by (auto simp: phase_inv_def signal_inv_def)
  show "lcMatchstore s = fst (Shutdown ms store)" "lcKVStore s = fst (ShutdownStorage st kv)"
    using c o run by (auto simp: phase_inv_def orderly_inv_def past_matchstore_def past_kvstore_def)
next
  have "fresh s0" using boot_fresh [OF assms] by blast
  then show "\<exists>s. lc_run ms st closed
          [SignalArrives, CancelContext, SeeDone, ShutdownMatchstore, ShutdownKVStore, CallShutdown] s0 = Some s
        \<and> lcExit s = Crashed nil_deref"
    by (simp add: fresh_def lc_steps split: prod.split)
qed

theorem early_stop_crashes_witness:
  "\<exists>s0 s. boot_plain = Ok s0 \<and> lc_run inmemory_store inmemory_storage None
      [SignalArrives, CancelContext, SeeDone, ShutdownMatchstore, ShutdownKVStore, CallShutdown] s0 = Some s
    \<and> lcExit s = Crashed nil_deref"
proof -
  obtain s0 where "boot_plain = Ok s0" using boot_plain_Ok by blast
  with early_stop_crashes [OF this [unfolded boot_plain_def], of inmemory_store inmemory_storage None]
  show ?thesis by auto
qed

end
