(* ===== verification/BootProps.thy ===== *)
theory BootProps
  imports Boot HttpStepsProps LifecycleProps
begin

text \<open>
  What the environment of the process makes of the server: a configuration is read back from the
  variables that describe it, the standalone variant starts exactly when its loggers, its password and its mock
  files allow it, and then has the state, the routes and the life that the other theories speak of.
\<close>

section \<open>Reading the environment\<close>

text \<open>The text of a field: the variable when it is set, otherwise the default.\<close>

definition field_text :: "environment \<Rightarrow> env_field \<Rightarrow> string option" where
  "field_text env f = (case env (efVariable f) of Some s \<Rightarrow> Some s | None \<Rightarrow> efDefault f)"

definition int_range :: "int \<Rightarrow> bool" where
  "int_range i \<longleftrightarrow> - (2 ^ 63) \<le> i \<and> i < 2 ^ 63"

text \<open>What is documented of \<open>envconfig\<close>: it succeeds when every text can be read, a string is taken as it is, an
  integer is parsed, a list is split at its commas (unless it is blank).\<close>

primrec env_readable :: "env_kind \<Rightarrow> string \<Rightarrow> bool" where
  "env_readable StringField s \<longleftrightarrow> True"
| "env_readable IntField s \<longleftrightarrow> (\<exists>i. int_range i \<and> s = itoa i)"
| "env_readable StringsField s \<longleftrightarrow> True"

primrec env_reads :: "env_kind \<Rightarrow> string \<Rightarrow> env_value \<Rightarrow> bool" where
  "env_reads StringField s v \<longleftrightarrow> v = StringValue s"
| "env_reads IntField s v \<longleftrightarrow> (\<forall>i. int_range i \<and> s = itoa i \<longrightarrow> v = IntValue i)"
| "env_reads StringsField s v \<longleftrightarrow> ((\<exists>c\<in>set s. 32 < (of_char c :: nat) \<and> (of_char c :: nat) < 127) \<longrightarrow> v = StringsValue (split_on (CHR '','') s))"

definition envconfig_law :: "env_process \<Rightarrow> bool" where
  "envconfig_law process \<longleftrightarrow>
     (\<forall>fs env. distinct (map efName fs)
        \<and> (\<forall>f s. f \<in> set fs \<and> field_text env f = Some s \<longrightarrow> env_readable (efKind f) s) \<longrightarrow>
        (\<exists>v. process fs env = Inr v
           \<and> (\<forall>f s. f \<in> set fs \<and> field_text env f = Some s \<longrightarrow> env_reads (efKind f) s (v (efName f)))))"

lemma envconfig_lawD:
  assumes "envconfig_law process" and "distinct (map efName fs)"
    and "\<And>f s. f \<in> set fs \<Longrightarrow> field_text env f = Some s \<Longrightarrow> env_readable (efKind f) s"
  obtains v where "process fs env = Inr v"
    "\<And>f s. f \<in> set fs \<Longrightarrow> field_text env f = Some s \<Longrightarrow> env_reads (efKind f) s (v (efName f))"
  using assms unfolding envconfig_law_def by meson

text \<open>The texts that describe a configuration, each with the variable the configuration text names for it.\<close>

definition basic_variables :: "BasicConfiguration \<Rightarrow> (string \<times> string) list" where
  "basic_variables c =
     [(''LOGLEVEL_API'', LoglevelAPI c), (''LOGLEVEL_MOCK'', LoglevelMock c), (''MOCK_PORT'', itoa (MockPort c)),
      (''MOCK_DIR'', MockDir c), (''MOCK_FILEPATTERN'', MockFilepattern c),
      (''MATCHES_CAPACITY'', itoa (MatchesCapacity c)), (''API_PATH_PREFIX'', APIPathPrefix c),
      (''API_USERNAME'', APIUsername c), (''API_PASSWORD'', APIPassword c)]"

definition describes :: "environment \<Rightarrow> env_field list \<Rightarrow> (string \<times> string) list \<Rightarrow> bool" where
  "describes env fs texts \<longleftrightarrow>
     map efVariable fs = map fst texts \<and> map (field_text env) fs = map (\<lambda>p. Some (snd p)) texts"

lemma basic_field_texts:
  "describes env basic_fields (basic_variables c) \<Longrightarrow> f \<in> set basic_fields \<Longrightarrow> field_text env f = Some s \<Longrightarrow>
   int_range (MockPort c) \<Longrightarrow> int_range (MatchesCapacity c) \<Longrightarrow> env_readable (efKind f) s"
  by (auto simp: describes_def basic_fields_def basic_variables_def env_field_def)

lemma basic_configuration_read:
  assumes "describes env basic_fields (basic_variables c)" and "int_range (MockPort c)" and "int_range (MatchesCapacity c)"
    and "\<And>f s. f \<in> set basic_fields \<Longrightarrow> field_text env f = Some s \<Longrightarrow> env_reads (efKind f) s (v (efName f))"
  shows "basic_configuration v = c"
proof -
  have readable: "field_text env (env_field n x k d) = Some s \<Longrightarrow> env_field n x k d \<in> set basic_fields \<Longrightarrow> env_reads k s (v n)"
    for n x k d s using assms(4) [of "env_field n x k d" s] by (simp add: env_field_def)
  have "v ''LoglevelAPI'' = StringValue (LoglevelAPI c)" "v ''LoglevelMock'' = StringValue (LoglevelMock c)"
    "v ''MockPort'' = IntValue (MockPort c)" "v ''MockDir'' = StringValue (MockDir c)"
    "v ''MockFilepattern'' = StringValue (MockFilepattern c)" "v ''MatchesCapacity'' = IntValue (MatchesCapacity c)"
    "v ''APIPathPrefix'' = StringValue (APIPathPrefix c)" "v ''APIUsername'' = StringValue (APIUsername c)"
    "v ''APIPassword'' = StringValue (APIPassword c)"
    using assms(1-3)
      readable [of "''LoglevelAPI''" "''LOGLEVEL_API''" StringField "Some ''INFO''"]
      readable [of "''LoglevelMock''" "''LOGLEVEL_MOCK''" StringField "Some ''INFO''"]
      readable [of "''MockPort''" "''MOCK_PORT''" IntField "Some ''8081''"]
      readable [of "''MockDir''" "''MOCK_DIR''" StringField "Some ''.''"]
      readable [of "''MockFilepattern''" "''MOCK_FILEPATTERN''" StringField "Some ''*-mock.*''"]
      readable [of "''MatchesCapacity''" "''MATCHES_CAPACITY''" IntField "Some ''1000''"]
      readable [of "''APIPathPrefix''" "''API_PATH_PREFIX''" StringField "Some ''/__''"]
      readable [of "''APIUsername''" "''API_USERNAME''" StringField "Some ''mockgo''"]
      readable [of "''APIPassword''" "''API_PASSWORD''" StringField "Some ''password''"]
    by (simp_all add: describes_def basic_fields_def basic_variables_def)
  then show ?thesis by (simp add: basic_configuration_def)
qed

lemma starter_init_read:
  assumes "envconfig_law process" and "describes env basic_fields (basic_variables c)"
    and "int_range (MockPort c)" and "int_range (MatchesCapacity c)"
  shows "starter_init process env = Ok c"
proof -
  have "distinct (map efName basic_fields)" by (simp add: basic_fields_def env_field_def)
  from envconfig_lawD [OF assms(1) this basic_field_texts [OF assms(2) _ _ assms(3,4)]]
  obtain v where v: "process basic_fields env = Inr v"
    "\<And>f s. f \<in> set basic_fields \<Longrightarrow> field_text env f = Some s \<Longrightarrow> env_reads (efKind f) s (v (efName f))"
    by blast
  from basic_configuration_read [OF assms(2-4) v(2)] show ?thesis by (simp add: starter_init_def v(1))
qed

text \<open>A configuration is read back from an environment that describes it: when every variable that the
  configuration text names is set to the value of its field, or is not set and the value is the default, then
  \<open>init\<close> makes that configuration. In particular an empty environment gives the defaults.\<close>

theorem configuration_from_environment:
  assumes "envconfig_law process" and "describes env basic_fields (basic_variables c)"
    and "int_range (MockPort c)" and "int_range (MatchesCapacity c)"
  shows "starter_init process env = Ok c"
  by (rule starter_init_read [OF assms])

text \<open>A reader that keeps the law.\<close>

primrec example_value :: "env_kind \<Rightarrow> string \<Rightarrow> error + env_value" where
  "example_value StringField s = Inr (StringValue s)"
| "example_value IntField s = (case atoi s of Inl err \<Rightarrow> Inl err | Inr i \<Rightarrow> Inr (IntValue i))"
| "example_value StringsField s = Inr (StringsValue (if s = [] then [] else split_on (CHR '','') s))"

primrec example_process :: env_process where
  "example_process [] env = Inr (\<lambda>_. StringValue [])"
| "example_process (f # fs) env =
     (case example_process fs env of
        Inl err \<Rightarrow> Inl err
      | Inr v \<Rightarrow>
          (case field_text env f of
             None \<Rightarrow> Inr v
           | Some s \<Rightarrow>
               (case example_value (efKind f) s of Inl err \<Rightarrow> Inl err | Inr x \<Rightarrow> Inr (v(efName f := x)))))"

lemma itoa_inject: "int_range i \<Longrightarrow> int_range j \<Longrightarrow> itoa i = itoa j \<longleftrightarrow> i = j"
  unfolding int_range_def by (metis atoi_itoa sum.inject(2))

lemma example_value_reads:
  "env_readable k s \<Longrightarrow> \<exists>x. example_value k s = Inr x \<and> env_reads k s x"
  by (cases k) (auto simp: itoa_inject atoi_itoa int_range_def)

lemma example_process_reads:
  "distinct (map efName fs) \<Longrightarrow> (\<And>f s. f \<in> set fs \<Longrightarrow> field_text env f = Some s \<Longrightarrow> env_readable (efKind f) s) \<Longrightarrow>
   \<exists>v. example_process fs env = Inr v
     \<and> (\<forall>f s. f \<in> set fs \<and> field_text env f = Some s \<longrightarrow> env_reads (efKind f) s (v (efName f)))"
proof (induction fs)
  case (Cons f fs)
  then obtain v where v: "example_process fs env = Inr v"
    "\<forall>f s. f \<in> set fs \<and> field_text env f = Some s \<longrightarrow> env_reads (efKind f) s (v (efName f))"
    by auto
  show ?case
  proof (cases "field_text env f")
    case (Some s)
    with Cons.prems(2) [of f s] obtain x where "example_value (efKind f) s = Inr x" "env_reads (efKind f) s x"
      using example_value_reads by auto
    moreover have "efName g \<noteq> efName f" if "g \<in> set fs" for g using Cons.prems(1) imageI [OF that, of efName] by auto
    ultimately show ?thesis using v Some by auto
  qed (use v in auto)
qed simp

lemma example_process_law: "envconfig_law example_process"
  unfolding envconfig_law_def using example_process_reads by blast

text \<open>The environment sets one variable, everything else has its default.\<close>

definition capacity_configuration :: "int \<Rightarrow> BasicConfiguration" where
  "capacity_configuration n = default_configuration\<lparr>MatchesCapacity := n\<rparr>"

lemma default_texts:
  "describes [''MATCHES_CAPACITY'' \<mapsto> itoa n] basic_fields (basic_variables (capacity_configuration n))"
proof -
  have "itoa 8081 = ''8081''" by (simp add: itoa_def nat_digits.simps) code_simp
  then show ?thesis
    by (simp add: describes_def basic_fields_def basic_variables_def capacity_configuration_def
        default_configuration_def env_field_def field_text_def)
qed

theorem configuration_from_environment_witness:
  "starter_init example_process [''MATCHES_CAPACITY'' \<mapsto> itoa 65536] = Ok (capacity_configuration 65536)"
  by (rule configuration_from_environment [OF example_process_law default_texts])
    (simp_all add: int_range_def capacity_configuration_def default_configuration_def)

section \<open>Starting the standalone variant\<close>

definition logs :: "('l, 'lg, 'g) platform \<Rightarrow> string \<Rightarrow> bool" where
  "logs pf level \<longleftrightarrow> (\<exists>logger. CreateLogger pf level = Ok logger)"

lemma CreateLogger_no_panic: "CreateLogger pf level \<noteq> Panic e"
  by (simp add: CreateLogger_def Let_def split: sum.split)

lemma bind_panic: "r = Panic p \<Longrightarrow> bind_result r f = Panic p"
  by simp

lemma password_message_outcome:
  "(\<exists>m. password_message p = Ok m) \<longleftrightarrow> p = ''password'' \<or> 3 \<le> length p"
  "p \<noteq> ''password'' \<Longrightarrow> length p < 3 \<Longrightarrow> password_message p = Panic out_of_range"
  by (simp_all add: password_message_def slice_to_def)

lemma Info_Ok: "(\<exists>info. Info c = Ok info) \<longleftrightarrow> APIPassword c = ''password'' \<or> 3 \<le> length (APIPassword c)"
  unfolding Info_def bind_result_Ok_iff password_message_outcome(1) [symmetric] by blast

lemma Info_panic: "APIPassword c \<noteq> ''password'' \<Longrightarrow> length (APIPassword c) < 3 \<Longrightarrow> Info c = Panic out_of_range"
  unfolding Info_def by (intro bind_panic password_message_outcome(2))

text \<open>The setup of the standalone variant under a configuration.\<close>

definition standalone_setup ::
  "('t, 'j, (nat, Mismatch) InMemoryMatchstore, nat, 'v InmemoryStorage, 'v) server_setup \<Rightarrow> BasicConfiguration
     \<Rightarrow> ('t, 'j, (nat, Mismatch) InMemoryMatchstore, nat, 'v InmemoryStorage, 'v) server_setup" where
  "standalone_setup su c = su\<lparr>suConfig := c, suMatchstore := inmemory_backend, suStorage := inmemory_storage\<rparr>"

lemma setup_server_Ok:
  "setup_server pf su configInfo store kv g = Ok run \<longleftrightarrow>
     logs pf (LoglevelAPI (suConfig su)) \<and> logs pf (LoglevelMock (suConfig su))
     \<and> (\<exists>tree. loads_files su tree
          \<and> boot (suConfig su) configInfo (Ok tree) store kv = Ok (rnLifecycle run)
          \<and> run = \<lparr>rnLifecycle = rnLifecycle run, rnRoutes = SetupRouter su,
               rnServer = start_server tree store kv, rnRegistry = fst (RegisterMetrics pf g)\<rparr>)"
proof -
  have load: "load_result l = Ok tree \<longleftrightarrow> l = Ok tree" for l :: "'t epSearchNode result" and tree
    by (simp add: load_result_def split: result.split)
  show ?thesis
    by (cases run) (auto simp: setup_server_def Let_def bind_result_Ok_iff mock_NewRequestHandler_def
      matches_NewRequestHandler_def kv_NewRequestHandler_def load logs_def loads_files_def SetupRouter_def boot_def)
qed

lemma boot_Ok:
  "(\<exists>l. boot c configInfo (Ok tree) store kv = Ok l) \<longleftrightarrow> APIPassword c = ''password'' \<or> 3 \<le> length (APIPassword c)"
  unfolding Info_Ok [symmetric] by (auto simp: boot_def bind_result_Ok_iff)

lemma setup_server_starts:
  "(\<exists>run. setup_server pf su configInfo store kv g = Ok run) \<longleftrightarrow>
     logs pf (LoglevelAPI (suConfig su)) \<and> logs pf (LoglevelMock (suConfig su))
     \<and> (APIPassword (suConfig su) = ''password'' \<or> 3 \<le> length (APIPassword (suConfig su)))
     \<and> (\<exists>tree. loads_files su tree)" (is "?lhs \<longleftrightarrow> ?rhs")
proof
  assume ?lhs
  then obtain run where "setup_server pf su configInfo store kv g = Ok run" by blast
  then obtain tree where "logs pf (LoglevelAPI (suConfig su))" "logs pf (LoglevelMock (suConfig su))" "loads_files su tree"
    "boot (suConfig su) configInfo (Ok tree) store kv = Ok (rnLifecycle run)"
    unfolding setup_server_Ok by blast
  with boot_Ok [of "suConfig su" configInfo tree store kv] show ?rhs by blast
next
  assume rhs: ?rhs
  then obtain tree where tree: "loads_files su tree" by blast
  obtain l where l: "boot (suConfig su) configInfo (Ok tree) store kv = Ok l"
    using rhs boot_Ok [of "suConfig su" configInfo tree store kv] by blast
  let ?run = "\<lparr>rnLifecycle = l, rnRoutes = SetupRouter su, rnServer = start_server tree store kv,
    rnRegistry = fst (RegisterMetrics pf g)\<rparr>"
  have "setup_server pf su configInfo store kv g = Ok ?run"
    unfolding setup_server_Ok using rhs tree l by (intro conjI exI [of _ tree]) simp_all
  then show ?lhs by blast
qed

lemma setup_server_panic:
  "is_panic (setup_server pf su configInfo store kv g) \<longleftrightarrow> logs pf (LoglevelAPI (suConfig su))
     \<and> (APIPassword (suConfig su) \<noteq> ''password'' \<and> length (APIPassword (suConfig su)) < 3
        \<or> logs pf (LoglevelMock (suConfig su))
          \<and> is_panic (LoadFiles (suLoader su) (MockDir (suConfig su)) (MockFilepattern (suConfig su))))"
proof -
  have logger: "\<not> is_panic (CreateLogger pf level)" for level
    using CreateLogger_no_panic [of pf level] by (cases "CreateLogger pf level") auto
  have load: "is_panic (load_result l) \<longleftrightarrow> is_panic l" for l :: "'t epSearchNode result"
    by (simp add: load_result_def split: result.split)
  have info: "is_panic (Info c) \<longleftrightarrow> APIPassword c \<noteq> ''password'' \<and> length (APIPassword c) < 3"
    "(\<exists>a. Info c = Ok a) \<longleftrightarrow> \<not> (APIPassword c \<noteq> ''password'' \<and> length (APIPassword c) < 3)" for c
    using Info_Ok [of c] Info_panic [of c] by (cases "Info c"; force)+
  show ?thesis
    by (auto simp: setup_server_def Let_def is_panic_bind logger load info mock_NewRequestHandler_def
        matches_NewRequestHandler_def kv_NewRequestHandler_def bind_result_Ok_iff logs_def)
qed

text \<open>C28: The start of the standalone variant in an environment that describes a configuration: it comes to its
  goroutines exactly when both log levels are accepted, the password is the default or has three bytes, and the mock
  files load; then the tree is the loaded one, the match store is empty with the capacity cut to 16 bits, the
  key-value store is empty, the routes are those of \<open>SetupRouter\<close>, and its life starts where \<open>boot\<close> leaves it. It panics
  exactly for a shorter password, or when loading panics; every other failure is an error message.\<close>

theorem standalone_starts:
  assumes "envconfig_law (pfProcess pf)" and "describes (pfEnvironment pf) basic_fields (basic_variables c)"
    and "int_range (MockPort c)" and "int_range (MatchesCapacity c)"
  shows "((\<exists>run. standalone_main pf su g = Ok run) \<longleftrightarrow>
        logs pf (LoglevelAPI c) \<and> logs pf (LoglevelMock c)
        \<and> (APIPassword c = ''password'' \<or> 3 \<le> length (APIPassword c)) \<and> (\<exists>tree. loads_files (standalone_setup su c) tree))
    \<and> (is_panic (standalone_main pf su g) \<longleftrightarrow> logs pf (LoglevelAPI c)
        \<and> (APIPassword c \<noteq> ''password'' \<and> length (APIPassword c) < 3
           \<or> logs pf (LoglevelMock c) \<and> is_panic (LoadFiles (suLoader su) (MockDir c) (MockFilepattern c))))
    \<and> (\<forall>run. standalone_main pf su g = Ok run \<longrightarrow>
        (\<exists>tree. loads_files (standalone_setup su c) tree
           \<and> rnServer run = start_server tree (NewInMemoryMatchstore (word_of_int (MatchesCapacity c))) NewInmemoryStorage
           \<and> rnRoutes run = SetupRouter (standalone_setup su c)
           \<and> boot c [] (Ok tree) (NewInMemoryMatchstore (word_of_int (MatchesCapacity c))) NewInmemoryStorage
               = Ok (rnLifecycle run)))"
proof -
  have "starter_init (pfProcess pf) (pfEnvironment pf) = Ok c"
    by (rule starter_init_read [OF assms])
  then have main: "standalone_main pf su g =
      setup_server pf (standalone_setup su c) [] (NewInMemoryMatchstore (word_of_int (MatchesCapacity c))) NewInmemoryStorage g"
    by (simp add: standalone_main_def standalone_setup_def store_capacity_def)
  have sel: "suConfig (standalone_setup su c) = c" "suLoader (standalone_setup su c) = suLoader su"
    by (simp_all add: standalone_setup_def)
  show ?thesis
    unfolding main setup_server_panic sel
  proof (intro conjI allI impI)
    show "(\<exists>run. setup_server pf (standalone_setup su c) [] (NewInMemoryMatchstore (word_of_int (MatchesCapacity c)))
          NewInmemoryStorage g = Ok run) \<longleftrightarrow>
        logs pf (LoglevelAPI c) \<and> logs pf (LoglevelMock c)
        \<and> (APIPassword c = ''password'' \<or> 3 \<le> length (APIPassword c)) \<and> (\<exists>tree. loads_files (standalone_setup su c) tree)"
      by (rule setup_server_starts [where su = "standalone_setup su c", unfolded sel])
  qed (auto simp: setup_server_Ok sel, metis running.select_convs(2,3))
qed

text \<open>A platform that keeps the law, and the mock files of \<open>LoaderProps\<close>.\<close>

definition example_platform :: "int \<Rightarrow> (string, string zap_config, string list) platform" where
  "example_platform n =
     \<lparr>pfEnvironment = [''MATCHES_CAPACITY'' \<mapsto> itoa n], pfProcess = example_process,
      pfParseLevel = (\<lambda>s. if s \<in> {''DEBUG'', ''INFO'', ''WARN'', ''ERROR''} then Inr s else Inl (''unrecognized level: '' @ s)),
      pfBuild = Inr, pfRegister = (\<lambda>n g. if n \<in> set g then (g, Some ''duplicate'') else (n # g, None))\<rparr>"

lemma example_platform_facts:
  "envconfig_law (pfProcess (example_platform n))"
  "describes (pfEnvironment (example_platform n)) basic_fields (basic_variables (capacity_configuration n))"
  "int_range (MockPort (capacity_configuration n))"
  "LoglevelAPI (capacity_configuration n) = ''INFO''" "LoglevelMock (capacity_configuration n) = ''INFO''"
  "APIPassword (capacity_configuration n) = ''password''" "APIPathPrefix (capacity_configuration n) = ''/__''"
  "MatchesCapacity (capacity_configuration n) = n"
  "logs (example_platform n) ''INFO''"
proof -
  show "describes (pfEnvironment (example_platform n)) basic_fields (basic_variables (capacity_configuration n))"
    by (simp add: example_platform_def default_texts)
qed (simp_all add: example_platform_def example_process_law int_range_def capacity_configuration_def
  default_configuration_def logs_def CreateLogger_def Let_def)

lemma example_loads: "\<exists>tree. loads_files (standalone_setup files_setup (capacity_configuration n)) tree"
proof -
  obtain tree where "LoadFiles (example_loader example_files) ''.'' ''*-mock.*'' = Ok tree"
    using example_files_loaded by (auto split: result.splits)
  then show ?thesis
    by (auto simp: loads_files_def standalone_setup_def files_setup_def capacity_configuration_def default_configuration_def)
qed

theorem standalone_starts_witness:
  "\<exists>run. standalone_main (example_platform 1000) files_setup [] = Ok run
    \<and> hsMatchstore (svHandler (rnServer run)) = NewInMemoryMatchstore 1000"
proof -
  have "int_range (MatchesCapacity (capacity_configuration 1000))" by (simp add: int_range_def example_platform_facts)
  note starts = standalone_starts [OF example_platform_facts(1-3) this, where su = files_setup and g = "[]"]
  from starts obtain run where run: "standalone_main (example_platform 1000) files_setup [] = Ok run"
    using example_loads [of 1000] by (auto simp: example_platform_facts)
  with starts obtain tree where
    "rnServer run = start_server tree (NewInMemoryMatchstore (word_of_int (MatchesCapacity (capacity_configuration 1000)))) NewInmemoryStorage"
    by blast
  with run show ?thesis by (simp add: start_server_def example_platform_facts)
qed

section \<open>What a running standalone server reports\<close>

lemma length_retained: "sz \<noteq> 65535 \<Longrightarrow> length (retained sz h) \<le> unat sz"
  by (simp add: retained_def length_last_n)



section \<open>Starting the other variants\<close>

lemma split_on_trailing: "c \<notin> set s \<Longrightarrow> split_on c (s @ [c]) = [s, []]"
  by (induction s) auto

text \<open>One host name with a trailing comma in the environment makes a cluster of one node, which the check for
  several host names is meant to refuse.\<close>

theorem cluster_of_one_from_environment:
  assumes "envconfig_law process" and "env ''CLUSTER_HOSTNAMES'' = Some (host @ '','')"
    and "env ''MATCHSTORE_PORT'' = None" and "env ''KVSTORE_PORT'' = None" and "CHR '','' \<notin> set host"
  shows "grpc_initialization process env = Ok \<lparr>ClusterHostnames = [host], MatchstorePort = 50051, KvstorePort = 50151\<rparr>"
proof -
  have ports: "itoa 50051 = ''50051''" "itoa 50151 = ''50151''"
    by (simp add: itoa_def nat_digits.simps, code_simp)+
  have range: "int_range 50051" "int_range 50151" by (simp_all add: int_range_def)
  have texts: "field_text env (env_field n ''CLUSTER_HOSTNAMES'' k d) = Some (host @ '','')"
    "field_text env (env_field n ''MATCHSTORE_PORT'' k d) = d" "field_text env (env_field n ''KVSTORE_PORT'' k d) = d" for n k d
    using assms(2-4) by (simp_all add: field_text_def env_field_def)
  have "distinct (map efName grpc_fields)" by (simp add: grpc_fields_def env_field_def)
  moreover have "env_readable (efKind f) s" if "f \<in> set grpc_fields" "field_text env f = Some s" for f s
    using that range ports texts by (auto simp: grpc_fields_def) (auto simp: env_field_def)
  ultimately obtain v where v: "process grpc_fields env = Inr v"
    "\<And>f s. f \<in> set grpc_fields \<Longrightarrow> field_text env f = Some s \<Longrightarrow> env_reads (efKind f) s (v (efName f))"
    using envconfig_lawD [OF assms(1), of grpc_fields env] by metis
  have hosts: "env_reads StringsField (host @ '','') (v ''ClusterHostnames'')"
    using v(2) [of "env_field ''ClusterHostnames'' ''CLUSTER_HOSTNAMES'' StringsField None"] texts(1)
    by (simp add: grpc_fields_def) (simp add: env_field_def)
  have ints: "env_reads IntField (itoa 50051) (v ''MatchstorePort'')" "env_reads IntField (itoa 50151) (v ''KvstorePort'')"
    unfolding ports
    using v(2) [of "env_field ''MatchstorePort'' ''MATCHSTORE_PORT'' IntField (Some ''50051'')"]
      v(2) [of "env_field ''KvstorePort'' ''KVSTORE_PORT'' IntField (Some ''50151'')"] texts(2,3)
    by (simp_all add: grpc_fields_def) (simp_all add: env_field_def)
  have "v ''ClusterHostnames'' = StringsValue [host, []]"
    using hosts split_on_trailing [OF assms(5)] by simp
  moreover have "v ''MatchstorePort'' = IntValue 50051" "v ''KvstorePort'' = IntValue 50151"
    using ints range by auto
  ultimately show ?thesis by (simp add: grpc_initialization_def v(1) grpc_configuration_def validate_def)
qed

text \<open>A redis variant that has started has different data bases for its two stores.\<close>

theorem redis_start_databases:
  assumes "redis_start pf newClient mc js s = Ok (basic, info, ms, st)"
  shows "\<exists>config. redis_init (pfProcess pf) (pfEnvironment pf) = Ok config
    \<and> MatchstoreRedisDB config \<noteq> KvstoreRedisDB config \<and> redis_info config = Ok info
    \<and> redis_main newClient mc js config basic s = Inr (Ok info, ms, st)"
proof -
  obtain config where init: "redis_init (pfProcess pf) (pfEnvironment pf) = Ok config"
    and main: "(case redis_main newClient mc js config basic s of Inl err \<Rightarrow> Err err
      | Inr (text, matchStore, storage) \<Rightarrow> bind_result text (\<lambda>info. Ok (basic, info, matchStore, storage))) =
        Ok (basic, info, ms, st)"
    using assms by (fastforce simp: redis_start_def bind_result_Ok_iff split: sum.splits prod.splits)
  have config: "redis_init (pfProcess pf) (pfEnvironment pf) = Ok config"
    "redis_main newClient mc js config basic s = Inr (Ok info, ms, st)"
    using init main by (cases "redis_main newClient mc js config basic s"; auto simp: bind_result_Ok_iff)+
  have "redis_info config = Ok info"
    using config(2) by (simp add: redis_main_def split: sum.splits)
  moreover have "MatchstoreRedisDB config \<noteq> KvstoreRedisDB config"
    using config(1) by (auto simp: redis_init_def redis_initialization_def validateRedis_def split: sum.splits if_splits)
  ultimately show ?thesis using config by blast
qed

end
