(* ===== verification/RedisHttp.thy ===== *)
theory RedisHttp
  imports HttpStepsProps RedisRefine
begin

text \<open>
  The server over HTTP with the match store of the redis variant. The store keeps copies of the matches, made when
  they are added and before the response is rendered; so whatever is requested, a query of the matches
  of an endpoint reports no response, where the standalone variant reports the one that was sent.
\<close>

section \<open>The lists of the endpoints\<close>

text \<open>A command touches no other key than its own, also when it fails.\<close>

definition key_frame :: "'s redis \<Rightarrow> ('s \<Rightarrow> string \<rightharpoonup> redis_value) \<Rightarrow> bool" where
  "key_frame db view \<longleftrightarrow>
     (\<forall>k v s j. j \<noteq> k \<longrightarrow> view (fst (rRPush db k v s)) j = view s j)
     \<and> (\<forall>k s j. j \<noteq> k \<longrightarrow> view (fst (rLPop db k s)) j = view s j)
     \<and> (\<forall>k s j. j \<noteq> k \<longrightarrow> view (fst (rDel db k s)) j = view s j)
     \<and> (\<forall>k v s j. j \<noteq> k \<longrightarrow> view (fst (rSet db k v s)) j = view s j)
     \<and> (\<forall>k s j. j \<noteq> k \<longrightarrow> view (fst (rIncr db k s)) j = view s j)"

lemma key_frameD:
  assumes "key_frame db view" and "j \<noteq> k"
  shows "view (fst (rRPush db k v s)) j = view s j" "view (fst (rLPop db k s)) j = view s j"
    "view (fst (rDel db k s)) j = view s j" "view (fst (rSet db k v s)) j = view s j"
    "view (fst (rIncr db k s)) j = view s j"
  using assms by (simp_all add: key_frame_def)

lemma list_lawsD:
  assumes "list_laws db view" and "list_at (view s k) = Some l"
  shows "\<exists>s'. rRPush db k v s = (s', None) \<and> view s' = (view s)(k := list_value (l @ [v]))"
    "rLLen db k s = int (length l)" "rLRange db k s = Inr l"
    "l \<noteq> [] \<Longrightarrow> \<exists>s'. rLPop db k s = (s', None) \<and> view s' = (view s)(k := list_value (tl l))"
  using assms unfolding list_laws_def by blast+

text \<open>A match as it is when it is added: of the endpoint, without a response, of a request in \<open>R\<close>.\<close>

definition fresh_match :: "(int \<times> ActualRequest) set \<Rightarrow> string \<Rightarrow> Match \<Rightarrow> bool" where
  "fresh_match R ep m \<longleftrightarrow> mEndpointID m = ep \<and> mActualResponse m = None \<and> (mTimestamp m, mActualRequest m) \<in> R"

text \<open>Under the id of an endpoint that is no other key of the store is a list of such matches.\<close>

definition fresh_lists ::
  "match_codec \<Rightarrow> 16 word \<Rightarrow> (int \<times> ActualRequest) set \<Rightarrow> (string \<rightharpoonup> redis_value) \<Rightarrow> bool" where
  "fresh_lists mc cap R ks \<longleftrightarrow>
     (\<forall>ep. clean_id ep \<longrightarrow> (\<exists>l. list_at (ks ep) = Some l \<and> length l \<le> unat cap
        \<and> (\<forall>v\<in>set l. \<exists>m. marshal_match mc m = Inr v \<and> fresh_match R ep m)))"

lemma fresh_lists_frame:
  "fresh_lists mc cap R ks \<Longrightarrow> (\<And>k. clean_id k \<Longrightarrow> ks' k = ks k) \<Longrightarrow> fresh_lists mc cap R ks'"
  by (simp add: fresh_lists_def)

lemma fresh_lists_more: "fresh_lists mc cap R ks \<Longrightarrow> R \<subseteq> R' \<Longrightarrow> fresh_lists mc cap R' ks"
  unfolding fresh_lists_def fresh_match_def by (meson subsetD)

lemma fresh_lists_update:
  assumes "fresh_lists mc cap R ks" and "clean_id key \<Longrightarrow> length l \<le> unat cap"
    and "clean_id key \<Longrightarrow> \<forall>v\<in>set l. \<exists>m. marshal_match mc m = Inr v \<and> fresh_match R key m"
  shows "fresh_lists mc cap R (ks(key := list_value l))"
  using assms by (simp add: fresh_lists_def)

lemma clean_not_counter: "clean_id k \<Longrightarrow> k \<noteq> key @ counterKey"
  by (auto simp: clean_id_def has_suffix_iff)

lemma push_fresh:
  assumes laws: "list_laws db view" "key_frame db view" and inv: "fresh_lists mc cap R (view s)"
    and v: "clean_id key \<Longrightarrow> \<exists>m. marshal_match mc m = Inr v \<and> fresh_match R key m"
  shows "fresh_lists mc cap R (view (fst (r_push db cap key v s)))"
proof -
  have counter: "fresh_lists mc cap R (view (fst (rIncr db (key @ counterKey) s')))" if "fresh_lists mc cap R (view s')" for s'
    using that by (rule fresh_lists_frame) (simp add: clean_not_counter key_frameD [OF laws(2)])
  show ?thesis
  proof (cases "clean_id key")
    case True
    then obtain l where l: "list_at (view s key) = Some l" "length l \<le> unat cap"
      "\<forall>v\<in>set l. \<exists>m. marshal_match mc m = Inr v \<and> fresh_match R key m"
      using inv unfolding fresh_lists_def by blast
    obtain s1 where s1: "rRPush db key v s = (s1, None)" "view s1 = (view s)(key := list_value (l @ [v]))"
      using list_lawsD(1) [OF laws(1) l(1)] by blast
    have at1: "list_at (view s1 key) = Some (l @ [v])" by (simp add: s1)
    have len: "rLLen db key s1 = int (Suc (length l))" using list_lawsD(2) [OF laws(1) at1] by simp
    have all: "\<forall>x\<in>set (l @ [v]). \<exists>m. marshal_match mc m = Inr x \<and> fresh_match R key m" using l(3) v [OF True] by simp
    show ?thesis
    proof (cases "int (Suc (length l)) > int (unat cap)")
      case pop: True
      obtain s2 where s2: "rLPop db key s1 = (s2, None)" "view s2 = (view s1)(key := list_value (tl (l @ [v])))"
        using list_lawsD(4) [OF laws(1) at1] by auto
      have "set (tl (l @ [v])) \<subseteq> set (l @ [v])" by (cases l) auto
      with all have "\<forall>x\<in>set (tl (l @ [v])). \<exists>m. marshal_match mc m = Inr x \<and> fresh_match R key m" by blast
      moreover have "length (tl (l @ [v])) \<le> unat cap" using l(2) by simp
      ultimately have "fresh_lists mc cap R (view s2)"
        unfolding s2(2) s1(2) fun_upd_upd by (intro fresh_lists_update [OF inv])
      with pop counter show ?thesis by (simp add: r_push_def s1(1) len s2(1))
    next
      case False
      then have "length (l @ [v]) \<le> unat cap" by (simp only: length_append_singleton of_nat_less_iff not_less)
      then have "fresh_lists mc cap R (view s1)"
        unfolding s1(2) by (rule fresh_lists_update [OF inv _ all])
      with False counter show ?thesis by (simp add: r_push_def s1(1) len)
    qed
  next
    case False
    then have "k \<noteq> key" if "clean_id k" for k using that by blast
    then have "view (fst (r_push db cap key v s)) k = view s k" if "clean_id k" for k
      using that key_frameD [OF laws(2)] clean_not_counter
      by (auto simp: r_push_def case_prod_beta split: option.split)
    with inv show ?thesis by (rule fresh_lists_frame)
  qed
qed

lemma clear_fresh:
  assumes laws: "key_frame db view" "string_laws db view" and inv: "fresh_lists mc cap R (view s)"
  shows "fresh_lists mc cap R (view (fst (r_clear db key s)))"
proof -
  have "\<exists>s1. rDel db key s = (s1, None) \<and> view s1 = (view s)(key := None)"
    using laws(2) by (simp add: string_laws_def)
  then obtain s1 where s1: "rDel db key s = (s1, None)" "view s1 = (view s)(key := list_value [])"
    by (auto simp: list_value_def)
  have "fresh_lists mc cap R (view s1)" unfolding s1(2) by (rule fresh_lists_update [OF inv]) simp_all
  then have "fresh_lists mc cap R (view (fst (rSet db (key @ counterKey) ''0'' s1)))"
    by (rule fresh_lists_frame) (simp add: clean_not_counter key_frameD [OF laws(1)])
  then show ?thesis by (simp add: r_clear_def s1(1))
qed

section \<open>In every state over HTTP\<close>

definition redis_laws :: "'s redis \<Rightarrow> ('s \<Rightarrow> string \<rightharpoonup> redis_value) \<Rightarrow> bool" where
  "redis_laws db view \<longleftrightarrow> list_laws db view \<and> string_laws db view \<and> key_frame db view"

lemma add_match_fresh:
  assumes "redis_laws db view" and "fresh_lists mc cap R (view s)" and "fresh_match R ep m"
  shows "fresh_lists mc cap R (view (fst (r_AddMatch db mc cap ep m s)))"
  using assms push_fresh [of db view mc cap R s ep]
  by (auto simp: r_AddMatch_def redis_laws_def split: sum.split)

lemma add_mismatch_fresh:
  assumes "redis_laws db view" and "fresh_lists mc cap R (view s)"
  shows "fresh_lists mc cap R (view (fst (r_AddMismatch db mc cap mm s)))"
  using assms push_fresh [of db view mc cap R s mismatchesKey]
  by (auto simp: r_AddMismatch_def redis_laws_def clean_id_def split: sum.split)

interpretation redis: server_invariant "copies (redis_store db mc cap)" "\<lambda>_. True"
  "\<lambda>A h. redis_laws db view \<longrightarrow> fresh_lists mc cap (apsnd actual_request ` A) (view (hsMatchstore h))" for db mc cap view
proof (unfold_locales, goal_cases)
  case (1 A h B)
  then show ?case using fresh_lists_more image_mono by metis
next
  case (6 A h now r ep)
  have "fresh_match (apsnd actual_request ` A) (epID ep)
      \<lparr>mEndpointID = epID ep, mTimestamp = now, mActualRequest = actual_request r, mActualResponse = None\<rparr>"
    using arrived_record [OF 6(2)] by (simp add: fresh_match_def)
  with 6(1) show ?case by (simp add: match_recorded_def add_match_fresh)
qed (simp_all add: mismatch_recorded_def add_mismatch_fresh r_DeleteMatches_def r_DeleteMismatches_def
  redis_laws_def clear_fresh)

text \<open>A match that can be encoded and has no response is read back.\<close>

definition reads_back :: "match_codec \<Rightarrow> bool" where
  "reads_back mc \<longleftrightarrow>
     (\<forall>m v. mActualResponse m = None \<and> marshal_match mc m = Inr v \<longrightarrow> unmarshal_match mc v = Inr m)"

lemma decode_fresh:
  "reads_back mc \<Longrightarrow> \<forall>v\<in>set l. \<exists>m. marshal_match mc m = Inr v \<and> fresh_match R ep m \<Longrightarrow>
   \<exists>ms. decode_all (unmarshal_match mc) l = Ok ms \<and> length ms = length l \<and> (\<forall>m\<in>set ms. fresh_match R ep m)"
proof (induction l)
  case (Cons v l)
  then obtain ms m where "decode_all (unmarshal_match mc) l = Ok ms" "length ms = length l" "\<forall>m\<in>set ms. fresh_match R ep m"
    "marshal_match mc m = Inr v" "fresh_match R ep m" by auto
  moreover from this have "unmarshal_match mc v = Inr m"
    using Cons.prems(1) by (simp add: reads_back_def fresh_match_def)
  ultimately show ?case by simp
qed simp


text \<open>A codec of the matches of one endpoint for one request, at any time.\<close>

definition a_match :: "int \<Rightarrow> Match" where
  "a_match t = \<lparr>mEndpointID = ''a'', mTimestamp = t, mActualRequest = actual_request (get_request ''/a'' []),
     mActualResponse = None\<rparr>"

definition a_codec :: match_codec where
  "a_codec =
     \<lparr>marshal_match = (\<lambda>m. if m = a_match (mTimestamp m) \<and> - (2 ^ 63) \<le> mTimestamp m \<and> mTimestamp m < 2 ^ 63
        then Inr (itoa (mTimestamp m)) else Inl ''unsupported value''),
      unmarshal_match = (\<lambda>s. case atoi s of Inl err \<Rightarrow> Inl err | Inr t \<Rightarrow> Inr (a_match t)),
      marshal_mismatch = (\<lambda>mm. Inl ''unsupported value''), unmarshal_mismatch = (\<lambda>s. Inl ''unsupported value'')\<rparr>"

lemma a_codec_reads_back: "reads_back a_codec"
  by (auto simp: reads_back_def a_codec_def atoi_itoa split: if_splits)

lemma key_space_laws: "redis_laws key_space_redis key_view"
proof -
  have "key_frame key_space_redis key_view"
    by (simp add: key_frame_def key_space_redis_def ks_incr_def split: option.split stored.split sum.split list.split)
  then show ?thesis by (simp add: redis_laws_def key_space_list_laws key_space_string_laws)
qed

definition redis_setup :: "(verbatim, unit, key_space, Match, nat InmemoryStorage, nat) server_setup" where
  "redis_setup =
     \<lparr>suConfig = default_configuration, suMatchstore = copies (redis_store key_space_redis a_codec 10),
      suStorage = inmemory_storage, suTemplates = store_env, suLoader = example_loader [],
      suMatchesJson = (\<lambda>ms. Inr (nat_digits (length ms))), suMismatchesJson = (\<lambda>mms. Inr (nat_digits (length mms))),
      suCodec = digits_codec, suMetrics = (\<lambda>r matches mismatches w. w)\<rparr>"


end
