(* ===== verification/HttpOverlap.thy ===== *)
theory HttpOverlap
  imports HttpStepsProps
begin

text \<open>
  Two overlapping requests over HTTP: both are routed before the first is handled. As the matcher and the handler of
  the mock endpoints share variables between requests, the first is then answered with what the matcher
  found for the second.
\<close>

definition mock_route_handler :: "('t, 'j, 'k) template_env \<Rightarrow> ('t, 's, 'k) conn_state handler" where
  "mock_route_handler env = (\<lambda>r w c. case mock_handler env r (fst c) of (st, sv') \<Rightarrow> Ok (rdWriter st, sv', rdPanic st))"

lemma mock_routing:
  assumes "template_law mx" and "plain_text (APIPathPrefix (suConfig su))" and "mock_request mx su r"
    and "mock_matcher (suMatchstore su) (APIPathPrefix (suConfig su)) now r sv = Ok (found, r', sv')"
  shows "find_route mx now (SetupRouter su) False r (sv, None) =
    (if found then Found (mock_route_handler (suTemplates su)) r' else NoRoute, sv', None)"
  using find_mock_route [OF assms(1,2), of r now sv] assms(3,4)
  by (auto simp: mock_request_def mock_route_handler_def)

lemma run_mock_handler:
  assumes "mock_request mx su r" and "mock_handler (suTemplates su) r sv = (st, sv')"
  shows "run_handler su (mock_route_handler (suTemplates su)) r sv = (Served (answer_of st), sv')"
  using assms
  by (auto simp: run_handler_def mock_route_handler_def BasicAuthMiddleware_def reply_of_def mock_request_def
      answer_of_def split: option.splits)

lemma mock_matcher_path:
  assumes "mock_matcher ms p now r sv = Ok (found, r', sv')" and "\<not> has_prefix (urlPath r) p"
  shows "urlPath r' = urlPath r"
  using mock_matcher_outcome [OF assms(2), of ms now sv] assms(1) by auto

text \<open>What becomes of the second request.\<close>

definition phase_of :: "('t, 'j, 'k) template_env \<Rightarrow> request_phase \<Rightarrow> ('t, 's, 'k) http_phase" where
  "phase_of env p = (case p of Waiting now r \<Rightarrow> Arrived | Routed r \<Rightarrow> Dispatched (mock_route_handler env) r
     | Done a \<Rightarrow> Finished (Served a))"

lemma overlap_over_http:
  assumes "template_law mx" and "plain_text (APIPathPrefix (suConfig su))"
    and "mock_request mx su r1" and "mock_request mx su r2"
    and "overlap (suMatchstore su) (suTemplates su) (APIPathPrefix (suConfig su)) r1 r2 sv = Some (ans, p, sv3)"
  shows "(http_step mx su)\<^sup>*\<^sup>* (sv, [])
    (sv3, [((1, r1), Finished (Served ans)), ((2, r2), phase_of (suTemplates su) p)])"
proof -
  let ?p = "APIPathPrefix (suConfig su)" and ?H = "mock_route_handler (suTemplates su)"
  from assms(5) obtain r1' sv1 found2 r2' sv2 st where
    m1: "mock_matcher (suMatchstore su) ?p 1 r1 sv = Ok (True, r1', sv1)"
    and m2: "mock_matcher (suMatchstore su) ?p 2 r2 sv1 = Ok (found2, r2', sv2)"
    and h: "mock_handler (suTemplates su) r1' sv2 = (st, sv3)"
    and ans: "ans = answer_of st" and p: "p = (if found2 then Routed r2' else Done NotFound)"
    by (auto simp: overlap_def split: result.splits prod.splits if_splits)
  have clean: "muxClean mx (urlPath r1) = urlPath r1" "muxClean mx (urlPath r2) = urlPath r2"
    and r1: "\<not> has_prefix (urlPath r1) ?p" using assms(3,4) by (simp_all add: mock_request_def)
  have "mock_request mx su r1'"
    using assms(3) mock_matcher_path [OF m1 r1] by (simp add: mock_request_def)
  note run = run_mock_handler [OF this h, folded ans]
  let ?ps = "[((1, r1), Arrived), ((2, r2), Arrived)] :: ((int \<times> request) \<times> ('a, 'c, 'e) http_phase) list"
  have steps: "http_step mx su (sv, []) (sv, [((1, r1), Arrived)])" "http_step mx su (sv, [((1, r1), Arrived)]) (sv, ?ps)"
    using Arrive [of mx su sv "[]" 1 r1] Arrive [of mx su sv "[((1, r1), Arrived)]" 2 r2] by simp_all
  have route1: "http_step mx su (sv, ?ps) (sv1, ?ps[0 := ((1, r1), Dispatched ?H r1')])"
    by (rule Route [where i = 0]) (simp_all add: clean mock_routing [OF assms(1-3) m1])
  let ?ps1 = "[((1, r1), Dispatched ?H r1'), ((2, r2), Arrived)]"
  let ?ps2 = "[((1, r1), Dispatched ?H r1'), ((2, r2), phase_of (suTemplates su) p)]"
  have route2: "http_step mx su (sv1, ?ps1) (sv2, ?ps2)"
  proof (cases found2)
    case True
    then have "http_step mx su (sv1, ?ps1) (sv2, ?ps1[1 := ((2, r2), Dispatched ?H r2')])"
      by (intro Route [where i = 1]) (simp_all add: clean mock_routing [OF assms(1,2,4) m2])
    with True show ?thesis by (simp add: p phase_of_def)
  next
    case False
    then have route: "find_route mx 2 (SetupRouter su) False r2 (sv1, None) = (NoRoute, sv2, None)"
      by (simp add: mock_routing [OF assms(1,2,4) m2])
    from Refuse [of 1 ?ps1 2 r2 mx, OF _ _ clean(2) route] False show ?thesis by (simp add: p phase_of_def)
  qed
  have handle: "http_step mx su (sv2, ?ps2) (sv3, ?ps2[0 := ((1, r1), Finished (Served ans))])"
    by (rule Handle [where i = 0, OF _ _ run]) simp_all
  from steps route1 route2 handle show ?thesis
    by (simp add: converse_rtranclp_into_rtranclp)
qed

text \<open>Over HTTP one request can be answered by the endpoint of another: with endpoints at \<open>/a\<close> and \<open>/b\<close>, the
  request for \<open>/a\<close> is answered with the id and the body of the endpoint for \<open>/b\<close> when both are routed before it is
  handled; the response is recorded for the match of \<open>/b\<close>, and the match of \<open>/a\<close> keeps none.\<close>

theorem overlapping_requests_mix_over_http:
  "\<exists>sv w p. (http_step example_mux example_setup)\<^sup>*\<^sup>* (example_server, [])
      (sv, [((1, get_request ''/a'' []), Finished (Served (Answered w))), ((2, get_request ''/b'' []), p)])
    \<and> hd (rwSent w) = (''Endpoint-Id'', ''b'') \<and> rwBody w = ''B''
    \<and> map mActualResponse (hsMatches (svHandler sv)) = [None, Some \<lparr>asStatusCode = 200, asHeader = []\<rparr>]"
proof -
  have "case overlap inmemory_backend store_env ''/__'' (get_request ''/a'' []) (get_request ''/b'' []) example_server of
      Some (Answered w, p, sv) \<Rightarrow> hd (rwSent w) = (''Endpoint-Id'', ''b'') \<and> rwBody w = ''B''
        \<and> map mActualResponse (hsMatches (svHandler sv)) = [None, Some \<lparr>asStatusCode = 200, asHeader = []\<rparr>]
    | _ \<Rightarrow> False"
    by code_simp
  then obtain w p sv where
    o: "overlap (suMatchstore example_setup) (suTemplates example_setup) (APIPathPrefix (suConfig example_setup))
        (get_request ''/a'' []) (get_request ''/b'' []) example_server = Some (Answered w, p, sv)"
    and w: "hd (rwSent w) = (''Endpoint-Id'', ''b'')" "rwBody w = ''B''"
      "map mActualResponse (hsMatches (svHandler sv)) = [None, Some \<lparr>asStatusCode = 200, asHeader = []\<rparr>]"
    by (auto split: option.splits prod.splits answer.splits)
  have "mock_request example_mux example_setup (get_request ''/a'' [])" "mock_request example_mux example_setup (get_request ''/b'' [])"
    by (simp_all add: mock_request_def get_request_def has_prefix_def)
  from overlap_over_http [OF example_laws(1) _ this o] example_laws(2)
  have "(http_step example_mux example_setup)\<^sup>*\<^sup>* (example_server, [])
      (sv, [((1, get_request ''/a'' []), Finished (Served (Answered w))),
        ((2, get_request ''/b'' []), phase_of (suTemplates example_setup) p)])" by simp
  with w show ?thesis
    by (intro exI [of _ sv] exI [of _ w] exI [of _ "phase_of (suTemplates example_setup) p"] conjI)
qed

text \<open>A request that has been matched fails with a nil dereference when another one finds no endpoint before it
  is handled.\<close>

theorem overlapping_mismatch_fails_over_http:
  "\<exists>sv. (http_step example_mux example_setup)\<^sup>*\<^sup>* (example_server, [])
      (sv, [((1, get_request ''/a'' []), Finished (Served (Failed nil_deref))),
        ((2, get_request ''/none'' []), Finished (Served NotFound))])"
proof -
  have "case overlap inmemory_backend store_env ''/__'' (get_request ''/a'' []) (get_request ''/none'' []) example_server of
      Some (Failed e, p, sv) \<Rightarrow> e = nil_deref
        \<and> (case p of Done a \<Rightarrow> (case a of NotFound \<Rightarrow> True | _ \<Rightarrow> False) | _ \<Rightarrow> False)
    | _ \<Rightarrow> False"
    by code_simp
  then obtain p sv where
    o: "overlap (suMatchstore example_setup) (suTemplates example_setup) (APIPathPrefix (suConfig example_setup))
        (get_request ''/a'' []) (get_request ''/none'' []) example_server = Some (Failed nil_deref, p, sv)"
    and p: "case p of Done a \<Rightarrow> (case a of NotFound \<Rightarrow> True | _ \<Rightarrow> False) | _ \<Rightarrow> False"
    by (auto split: option.splits prod.splits answer.splits)
  have "mock_request example_mux example_setup (get_request ''/a'' [])" "mock_request example_mux example_setup (get_request ''/none'' [])"
    by (simp_all add: mock_request_def get_request_def has_prefix_def)
  from overlap_over_http [OF example_laws(1) _ this o] example_laws(2)
  have "(http_step example_mux example_setup)\<^sup>*\<^sup>* (example_server, [])
      (sv, [((1, get_request ''/a'' []), Finished (Served (Failed nil_deref))),
        ((2, get_request ''/none'' []), phase_of (suTemplates example_setup) p)])" by simp
  moreover have "p = Done NotFound" using p by (auto split: request_phase.splits answer.splits)
  ultimately show ?thesis by (auto simp: phase_of_def)
qed

end
