(* ===== verification/GrpcHttp.thy ===== *)
theory GrpcHttp
  imports HttpOverlap GrpcMatchstoreProps
begin

text \<open>
  The server over HTTP with the match store of the grpc variant: one node of a cluster, with the stores of all nodes
  as its state. The store of a node keeps pointers into the memory of its server, and what the node sends to others (and
  to itself, as it calls all nodes) are messages made of the matches when it is asked. A match whose response is not
  set then makes it fail.
\<close>

section \<open>The store of a node in a running server\<close>

text \<open>A node keeps pointers to the matches of its server; what the other nodes keep is in their memory.\<close>

type_synonym pointer_node = "(nat + Match, Mismatch) InMemoryMatchstore"

definition followed :: "Match list \<Rightarrow> nat + Match \<Rightarrow> Match" where
  "followed heap p = (case p of Inl addr \<Rightarrow> heap ! addr | Inr m \<Rightarrow> m)"

definition in_memory :: "Match list \<Rightarrow> pointer_node \<Rightarrow> node" where
  "in_memory heap nd =
     \<lparr>imsSize = imsSize nd, imsMatches = (\<lambda>ep. map_option (map (followed heap)) (imsMatches nd ep)),
      imsMismatches = imsMismatches nd, imsMatchesCount = imsMatchesCount nd,
      imsMismatchesCount = imsMismatchesCount nd\<rparr>"

text \<open>Queries are those of \<open>grpc_store\<close> on what the pointers lead to; additions and deletions change the stores
  with the pointers.\<close>

definition grpc_methods ::
  "network \<Rightarrow> nat list \<Rightarrow> nat \<Rightarrow> Match list \<Rightarrow> (pointer_node list, nat + Match, Mismatch) Matchstore" where
  "grpc_methods net clients i heap =
     (let g = grpc_store net clients i; shown = map (in_memory heap)
      in \<lparr>GetMatches = (\<lambda>ep nodes. map_result (map Inr) (GetMatches g ep (shown nodes))),
          GetMatchesCount = (\<lambda>ep nodes. GetMatchesCount g ep (shown nodes)),
          GetMismatches = (\<lambda>nodes. GetMismatches g (shown nodes)),
          AddMatch = (\<lambda>ep p nodes. (nodes[i := fst (AddMatch inmemory_store ep p (nodes ! i))], None)),
          AddMismatch = (\<lambda>mm nodes. (nodes[i := fst (AddMismatch inmemory_store mm (nodes ! i))], None)),
          GetMismatchesCount = (\<lambda>nodes. GetMismatchesCount g (shown nodes)),
          DeleteMatches = (\<lambda>ep nodes. update_clients net (DeleteMatches inmemory_store ep) 0 clients nodes),
          DeleteMismatches = (\<lambda>nodes. update_clients net (DeleteMismatches inmemory_store) 0 clients nodes),
          Shutdown = (\<lambda>nodes. (nodes, None))\<rparr>)"

definition grpc_backend :: "network \<Rightarrow> nat list \<Rightarrow> nat \<Rightarrow> (pointer_node list, nat + Match) backend" where
  "grpc_backend net clients i =
     \<lparr>beStore = grpc_methods net clients i, beKept = (\<lambda>addr m. Inl addr), beShown = followed\<rparr>"

lemma grpc_backend_sel [simp]:
  "beStore (grpc_backend net clients i) = grpc_methods net clients i" "beKept (grpc_backend net clients i) addr m = Inl addr"
  "beShown (grpc_backend net clients i) = followed"
  by (simp_all add: grpc_backend_def fun_eq_iff)

lemma followed_sel [simp]: "followed heap (Inl a) = heap ! a" "followed heap (Inr m) = m"
  by (simp_all add: followed_def)

lemma followed_Inr [simp]: "map (followed heap) (map Inr ms) = ms"
  by (induction ms) simp_all

section \<open>The store with pointers is the store of the cluster\<close>

lemma in_memory_sel [simp]:
  "imsSize (in_memory heap nd) = imsSize nd" "im_GetMatches ep (in_memory heap nd) = map (followed heap) (im_GetMatches ep nd)"
  by (simp_all add: in_memory_def im_GetMatches_def split: option.split)

lemma map_push_bounded: "map f (push_bounded sz l x) = push_bounded sz (map f l) (f x)"
  by (simp add: push_bounded_def Let_def map_tl)

lemma in_memory_ops:
  "in_memory heap (im_AddMatch ep p nd) = im_AddMatch ep (followed heap p) (in_memory heap nd)"
  "in_memory heap (im_AddMismatch mm nd) = im_AddMismatch mm (in_memory heap nd)"
  "in_memory heap (im_DeleteMatches ep nd) = im_DeleteMatches ep (in_memory heap nd)"
  "in_memory heap (im_DeleteMismatches nd) = im_DeleteMismatches (in_memory heap nd)"
  by (auto simp: in_memory_def im_AddMatch_def im_AddMismatch_def im_DeleteMatches_def im_DeleteMismatches_def
      im_GetMatchesCount_def Let_def fun_eq_iff map_push_bounded split: option.splits)

lemma map_update_clients:
  assumes "\<And>nd. f' (g nd) = (g (fst (f nd)), snd (f nd))" and "\<forall>c\<in>set cs. c < length nodes"
  shows "update_clients net f' i cs (map g nodes) = apfst (map g) (update_clients net f i cs nodes)"
  using assms(2)
proof (induction cs arbitrary: i nodes)
  case (Cons c cs)
  then show ?case
    by (cases "net i"; cases "f (nodes ! c)") (auto simp: assms(1) map_update [symmetric] split: option.split)
qed simp

text \<open>Seen through the memory of the server, the operations of the store with pointers are those of \<open>grpc_store\<close>.\<close>

theorem pointer_cluster_refines_cluster:
  fixes nodes :: "pointer_node list"
  assumes "i < length nodes" and "\<forall>c\<in>set clients. c < length nodes"
  shows "AddMatch (grpc_store net clients i) ep (followed heap p) (map (in_memory heap) nodes) =
      apfst (map (in_memory heap)) (AddMatch (grpc_methods net clients i heap) ep p nodes)"
    and "AddMismatch (grpc_store net clients i) mm (map (in_memory heap) nodes) =
      apfst (map (in_memory heap)) (AddMismatch (grpc_methods net clients i heap) mm nodes)"
    and "DeleteMatches (grpc_store net clients i) ep (map (in_memory heap) nodes) =
      apfst (map (in_memory heap)) (DeleteMatches (grpc_methods net clients i heap) ep nodes)"
    and "DeleteMismatches (grpc_store net clients i) (map (in_memory heap) nodes) =
      apfst (map (in_memory heap)) (DeleteMismatches (grpc_methods net clients i heap) nodes)"
  using assms
  by (simp_all add: grpc_methods_def Let_def in_memory_ops map_update g_DeleteMatches_def g_DeleteMismatches_def
      RemoveMatches_def RemoveMismatches_def map_update_clients [where g = "in_memory heap"])

section \<open>What a query answers\<close>

text \<open>A match as it arrives: its status has been an \<open>int32\<close>.\<close>

definition as_sent :: "Match \<Rightarrow> Match" where
  "as_sent m = m\<lparr>mActualResponse := map_option (\<lambda>r. r\<lparr>asStatusCode := sint (word_of_int (asStatusCode r) :: 32 word)\<rparr>)
     (mActualResponse m)\<rparr>"

lemma as_sent_sel [simp]:
  "mEndpointID (as_sent m) = mEndpointID m" "mTimestamp (as_sent m) = mTimestamp m"
  "mActualRequest (as_sent m) = mActualRequest m"
  by (simp_all add: as_sent_def)

lemma for_each_nil:
  assumes "\<forall>x\<in>set xs. f x = Panic p \<or> (\<exists>y. f x = Ok y)" and "\<exists>x\<in>set xs. f x = Panic p"
  shows "for_each f xs = Panic p"
  using assms by (induction xs) (auto, metis bind_result.simps for_each_Ok for_each.simps)

lemma for_each_as_sent:
  "\<forall>m\<in>set ms. mActualResponse m \<noteq> None \<Longrightarrow>
   bind_result (for_each mapMatch ms) (for_each mapProtoMatch) = Ok (map as_sent ms)"
proof (induction ms)
  case (Cons m ms)
  obtain r where r: "mActualResponse m = Some r" using Cons.prems by auto
  obtain p where p: "mapMatch m = Ok p" "mapProtoMatch p = Ok (as_sent m)"
    by (simp add: mapMatch_Ok [OF r] mapProtoMatch_def deref_def as_sent_def r)
  obtain ps where "for_each mapMatch ms = Ok ps" "for_each mapProtoMatch ps = Ok (map as_sent ms)"
    using Cons by (auto simp: bind_result_Ok_iff)
  with p show ?case by simp
qed simp

lemma FetchMatches_nil:
  assumes "\<exists>m\<in>set (im_GetMatches ep nd). mActualResponse m = None"
  shows "FetchMatches nd ep = Panic nil_deref"
proof -
  have "mapMatch m = Panic nil_deref \<or> (\<exists>y. mapMatch m = Ok y)" for m
    by (cases "mActualResponse m") (simp_all add: mapMatch_nil mapMatch_Ok)
  then have "for_each mapMatch (im_GetMatches ep nd) = Panic nil_deref"
    using assms mapMatch_nil by (intro for_each_nil) blast+
  then show ?thesis by (simp add: FetchMatches_def)
qed

lemma fetch_answer:
  "bind_result (FetchMatches nd ep) (for_each mapProtoMatch) =
     (if \<exists>m\<in>set (im_GetMatches ep nd). mActualResponse m = None then Panic nil_deref
      else Ok (map as_sent (im_GetMatches ep nd)))"
proof (cases "\<exists>m\<in>set (im_GetMatches ep nd). mActualResponse m = None")
  case False
  then show ?thesis using for_each_as_sent [of "im_GetMatches ep nd"] by (simp add: FetchMatches_def)
qed (simp add: FetchMatches_nil)

lemma cluster_answer:
  assumes "length nodes = n"
  shows "g_GetMatches all_delivered [0..<n] ep nodes =
    (if \<exists>nd\<in>set nodes. \<exists>m\<in>set (im_GetMatches ep nd). mActualResponse m = None then Panic nil_deref
     else Ok (merge_answers (map (\<lambda>nd. map as_sent (im_GetMatches ep nd)) nodes)))"
proof (cases "\<exists>nd\<in>set nodes. \<exists>m\<in>set (im_GetMatches ep nd). mActualResponse m = None")
  case True
  then have "for_each (\<lambda>nd. bind_result (FetchMatches nd ep) (for_each mapProtoMatch)) nodes = Panic nil_deref"
    unfolding fetch_answer by (intro for_each_nil) auto
  with True show ?thesis by (simp add: g_GetMatches_def query_cluster [OF assms])
next
  case False
  then have "for_each (\<lambda>nd. bind_result (FetchMatches nd ep) (for_each mapProtoMatch)) nodes =
      Ok (map (\<lambda>nd. map as_sent (im_GetMatches ep nd)) nodes)"
    unfolding fetch_answer by (intro for_each_cong_Ok) auto
  with False show ?thesis by (simp add: g_GetMatches_def query_cluster [OF assms])
qed

section \<open>What the stores hold in every state over HTTP\<close>

text \<open>A pointer kept for an endpoint leads to a match of this endpoint for a request that has arrived; what is no pointer
  was there at the start.\<close>

definition pointers_ok :: "pointer_node list \<Rightarrow> (int \<times> request) set \<Rightarrow> Match list \<Rightarrow> pointer_node list \<Rightarrow> bool" where
  "pointers_ok start A heap nodes \<longleftrightarrow> length nodes = length start
     \<and> (\<forall>nd\<in>set nodes. \<forall>ep. \<forall>p\<in>set (im_GetMatches ep nd). case p of
          Inl a \<Rightarrow> a < length heap \<and> mEndpointID (heap ! a) = ep
            \<and> (mTimestamp (heap ! a), mActualRequest (heap ! a)) \<in> apsnd actual_request ` A
        | Inr m \<Rightarrow> \<exists>nd\<in>set start. Inr m \<in> set (im_GetMatches ep nd))"

lemma pointers_ok_subset:
  assumes "pointers_ok start A heap nodes" and "length nodes' = length nodes"
    and "\<And>nd' ep. nd' \<in> set nodes' \<Longrightarrow> \<exists>nd\<in>set nodes. set (im_GetMatches ep nd') \<subseteq> set (im_GetMatches ep nd)"
  shows "pointers_ok start A heap nodes'"
  using assms unfolding pointers_ok_def by (metis (no_types, lifting) subsetD)

lemma update_clients_subset:
  assumes "\<And>nd ep. set (im_GetMatches ep (fst (f nd))) \<subseteq> set (im_GetMatches ep nd)"
  shows "length (fst (update_clients net f i cs nodes)) = length nodes
    \<and> (\<forall>nd'\<in>set (fst (update_clients net f i cs nodes)). \<exists>nd\<in>set nodes. \<forall>ep. set (im_GetMatches ep nd') \<subseteq> set (im_GetMatches ep nd))"
proof (induction cs arbitrary: i nodes)
  case (Cons c cs)
  have one: "\<exists>nd\<in>set nodes. \<forall>ep. set (im_GetMatches ep nd') \<subseteq> set (im_GetMatches ep nd)"
    if "nd' \<in> set (nodes[c := fst (f (nodes ! c))])" for nd'
  proof (cases "nd' \<in> set nodes")
    case False
    then have "c < length nodes" using that by (cases "c < length nodes") (auto simp: list_update_beyond)
    moreover have "nd' = fst (f (nodes ! c))" using False that set_update_subset_insert by fastforce
    ultimately show ?thesis using assms by (intro bexI [of _ "nodes ! c"]) auto
  qed blast
  have rest: "length (fst (update_clients net f (Suc i) cs (nodes[c := fst (f (nodes ! c))]))) = length nodes
    \<and> (\<forall>nd'\<in>set (fst (update_clients net f (Suc i) cs (nodes[c := fst (f (nodes ! c))]))).
         \<exists>nd\<in>set nodes. \<forall>ep. set (im_GetMatches ep nd') \<subseteq> set (im_GetMatches ep nd))"
    using Cons.IH [of "Suc i" "nodes[c := fst (f (nodes ! c))]"] one by simp (meson subset_trans)
  show ?case
  proof (cases "net i")
    case Delivered
    then show ?thesis using rest one
      by (cases "f (nodes ! c)"; cases "snd (f (nodes ! c))") auto
  next
    case (NotSent e)
    then show ?thesis by auto
  next
    case (ReplyLost e)
    then show ?thesis using one by auto
  qed
qed auto

lemma deletions_subset:
  "set (im_GetMatches ep (im_DeleteMatches ep' nd)) \<subseteq> set (im_GetMatches ep nd)"
  "set (im_GetMatches ep (im_DeleteMismatches nd)) \<subseteq> set (im_GetMatches ep nd)"
  by (auto simp: im_defs split: option.splits if_splits)

lemma pointers_ok_delete:
  assumes "pointers_ok start A heap nodes"
  shows "pointers_ok start A heap (fst (DeleteMatches (grpc_methods net clients i heap') ep nodes))"
    and "pointers_ok start A heap (fst (DeleteMismatches (grpc_methods net clients i heap') nodes))"
proof -
  have "fst (DeleteMatches inmemory_store ep nd) = im_DeleteMatches ep nd" for nd :: pointer_node by simp
  then have "set (im_GetMatches ep' (fst (DeleteMatches inmemory_store ep nd))) \<subseteq> set (im_GetMatches ep' nd)"
    for ep' and nd :: pointer_node using deletions_subset(1) by simp
  note sub = update_clients_subset [of "DeleteMatches inmemory_store ep", OF this, of net 0 clients nodes]
  show "pointers_ok start A heap (fst (DeleteMatches (grpc_methods net clients i heap') ep nodes))"
    by (rule pointers_ok_subset [OF assms]) (use sub in \<open>simp_all add: grpc_methods_def Let_def, blast\<close>)
  have "fst (DeleteMismatches inmemory_store nd) = im_DeleteMismatches nd" for nd :: pointer_node by simp
  then have "set (im_GetMatches ep' (fst (DeleteMismatches inmemory_store nd))) \<subseteq> set (im_GetMatches ep' nd)"
    for ep' and nd :: pointer_node using deletions_subset(2) by simp
  note sub = update_clients_subset [of "DeleteMismatches inmemory_store", OF this, of net 0 clients nodes]
  show "pointers_ok start A heap (fst (DeleteMismatches (grpc_methods net clients i heap') nodes))"
    by (rule pointers_ok_subset [OF assms]) (use sub in \<open>simp_all add: grpc_methods_def Let_def, blast\<close>)
qed

lemma pointers_ok_heap:
  assumes "pointers_ok start A heap nodes" and "map record_key heap' = map record_key heap"
  shows "pointers_ok start A heap' nodes"
proof -
  have len: "length heap' = length heap" using assms(2) by (rule map_eq_imp_length_eq)
  have "record_key (heap' ! a) = record_key (heap ! a)" if "a < length heap" for a
    using that assms(2) len by (metis nth_map)
  then show ?thesis using assms(1) len by (fastforce simp: pointers_ok_def record_key_def split: sum.splits)
qed

lemma pointers_ok_more: "pointers_ok start A heap nodes \<Longrightarrow> A \<subseteq> B \<Longrightarrow> pointers_ok start B heap nodes"
  unfolding pointers_ok_def by (fastforce split: sum.splits)

lemma pointers_ok_append: "pointers_ok start A heap nodes \<Longrightarrow> pointers_ok start A (heap @ [m]) nodes"
  by (fastforce simp: pointers_ok_def nth_append split: sum.splits)

lemma set_im_AddMatch: "set (im_GetMatches ep (im_AddMatch ep' p nd)) \<subseteq> set (im_GetMatches ep nd) \<union> (if ep = ep' then {p} else {})"
  by (auto simp: im_AddMatch_def im_GetMatches_def Let_def split: option.splits dest!: set_push_bounded [THEN subsetD])

lemma im_AddMismatch_matches [simp]: "im_GetMatches ep (im_AddMismatch mm nd) = im_GetMatches ep nd"
  by (simp add: im_defs)

lemma pointers_ok_add:
  assumes "pointers_ok start A heap nodes" and "a < length heap" and "mEndpointID (heap ! a) = ep"
    and "(mTimestamp (heap ! a), mActualRequest (heap ! a)) \<in> apsnd actual_request ` A"
  shows "pointers_ok start A heap (nodes[i := im_AddMatch ep (Inl a) (nodes ! i)])"
proof (cases "i < length nodes")
  case True
  have "case p of Inl a \<Rightarrow> a < length heap \<and> mEndpointID (heap ! a) = ep'
          \<and> (mTimestamp (heap ! a), mActualRequest (heap ! a)) \<in> apsnd actual_request ` A
        | Inr m \<Rightarrow> \<exists>nd\<in>set start. Inr m \<in> set (im_GetMatches ep' nd)"
    if "p \<in> set (im_GetMatches ep' (im_AddMatch ep (Inl a) (nodes ! i)))" for p ep'
  proof -
    have "p \<in> set (im_GetMatches ep' (nodes ! i)) \<or> ep' = ep \<and> p = Inl a"
      using that set_im_AddMatch [of ep' ep "Inl a" "nodes ! i"] by (auto split: if_splits)
    then show ?thesis
    proof (elim disjE conjE)
      assume "p \<in> set (im_GetMatches ep' (nodes ! i))"
      then show ?thesis using assms(1) nth_mem [OF True] unfolding pointers_ok_def by blast
    qed (use assms(2-4) in simp)
  qed
  with assms(1) show ?thesis
    unfolding pointers_ok_def by (auto dest!: set_update_subset_insert [THEN subsetD])
qed (use assms(1) in \<open>simp add: list_update_beyond\<close>)

lemma pointers_ok_mismatch:
  assumes "pointers_ok start A heap nodes"
  shows "pointers_ok start A heap (nodes[i := im_AddMismatch mm (nodes ! i)])"
proof (cases "i < length nodes")
  case True
  show ?thesis
  proof (rule pointers_ok_subset [OF assms])
    fix nd' ep assume "nd' \<in> set (nodes[i := im_AddMismatch mm (nodes ! i)])"
    then have "nd' = im_AddMismatch mm (nodes ! i) \<or> nd' \<in> set nodes"
      using set_update_subset_insert by fastforce
    then show "\<exists>nd\<in>set nodes. set (im_GetMatches ep nd') \<subseteq> set (im_GetMatches ep nd)"
      using nth_mem [OF True] by (metis im_AddMismatch_matches subset_refl)
  qed simp
qed (use assms in \<open>simp add: list_update_beyond\<close>)

interpretation grpc: server_invariant "grpc_backend net clients i" "\<lambda>_. True"
  "\<lambda>A h. pointers_ok start A (hsMatches h) (hsMatchstore h)" for net clients i start
proof (unfold_locales, goal_cases)
  case (1 A h B)
  then show ?case by (rule pointers_ok_more)
next
  case (3 A h heap)
  then show ?case by (simp add: pointers_ok_heap)
next
  case (6 A h now r ep)
  have "pointers_ok start A (hsMatches h @ [\<lparr>mEndpointID = epID ep, mTimestamp = now, mActualRequest = actual_request r,
      mActualResponse = None\<rparr>]) ((hsMatchstore h)[i := im_AddMatch (epID ep) (Inl (length (hsMatches h))) (hsMatchstore h ! i)])"
    using pointers_ok_append [OF 6(1)] arrived_record [OF 6(2)] by (intro pointers_ok_add) simp_all
  then show ?case by (simp add: match_recorded_def grpc_methods_def Let_def)
next
  case (7 A h now r d)
  then show ?case by (simp add: mismatch_recorded_def grpc_methods_def Let_def pointers_ok_mismatch)
qed (simp_all add: pointers_ok_delete)

section \<open>A query over HTTP\<close>

text \<open>Whether a match that is kept for an endpoint, by any node, has no response.\<close>

definition unanswered :: "string \<Rightarrow> Match list \<Rightarrow> pointer_node list \<Rightarrow> bool" where
  "unanswered ep heap nodes \<longleftrightarrow>
     (\<exists>nd\<in>set nodes. \<exists>p\<in>set (im_GetMatches ep nd). mActualResponse (followed heap p) = None)"

lemma grpc_answer:
  assumes "length nodes = n"
  shows "GetMatches (grpc_methods all_delivered [0..<n] i heap) ep nodes =
    (if unanswered ep heap nodes then Panic nil_deref
     else Ok (map Inr (merge_answers (map (\<lambda>nd. map (as_sent \<circ> followed heap) (im_GetMatches ep nd)) nodes))))"
  using cluster_answer [of "map (in_memory heap) nodes" n ep] assms
  by (auto simp: grpc_methods_def Let_def unanswered_def o_def)

text \<open>C33: What a node of the grpc variant reports over HTTP, in every state it reaches from any stores of the nodes, whatever
  requests interleave, when calls between nodes are delivered: if no node keeps a match of the endpoint whose
  response is not set, a \<open>GET\<close> of its matches is answered with what all nodes keep for the endpoint, and
  each of these matches is one of the endpoint for a request that arrived, or was with some node at the
  start. Otherwise the service of a node that keeps such a match panics when it is asked.\<close>

theorem grpc_reports_over_http:
  fixes su :: "('t, 'j, pointer_node list, nat + Match, 'k, 'v) server_setup"
  assumes "(http_step mx su)\<^sup>*\<^sup>* (start_server tree start world, []) (sv, ps)"
    and "suMatchstore su = grpc_backend all_delivered [0..<length start] i"
    and "\<forall>nd\<in>set start. \<forall>ep. \<forall>p\<in>set (im_GetMatches ep nd). \<exists>m. p = Inr m"
    and "template_law mx" and "plain_text (APIPathPrefix (suConfig su))"
    and "ep \<noteq> []" and "CHR ''/'' \<notin> set ep" and "api_query mx su (''matches/'' @ ep) q"
  shows "if unanswered ep (hsMatches (svHandler sv)) (hsMatchstore (svHandler sv))
    then \<exists>nd\<in>set (hsMatchstore (svHandler sv)). FetchMatches (in_memory (hsMatches (svHandler sv)) nd) ep = Panic nil_deref
    else \<exists>ms. serve_http mx su now q sv = (Served (Answered (WriteEntity (\<lambda>_. None) (suMatchesJson su) ms new_writer)), sv)
      \<and> mset ms = (\<Sum>nd\<leftarrow>hsMatchstore (svHandler sv). mset (map (as_sent \<circ> followed (hsMatches (svHandler sv))) (im_GetMatches ep nd)))
      \<and> (\<forall>m\<in>set ms. mEndpointID m = ep \<and> (mTimestamp m, mActualRequest m) \<in> apsnd actual_request ` arrivals su ps
          \<or> (\<exists>nd\<in>set start. m \<in> as_sent ` {m'. Inr m' \<in> set (im_GetMatches ep nd)}))"
proof -
  let ?heap = "hsMatches (svHandler sv)" and ?nodes = "hsMatchstore (svHandler sv)"
  have "pointers_ok start {} (hsMatches (svHandler (start_server tree start world)))
      (hsMatchstore (svHandler (start_server tree start world)))"
    using assms(3) by (fastforce simp: start_server_def pointers_ok_def)
  from grpc.keeps_reachable [OF assms(1,2) TrueI this]
  have ok: "pointers_ok start (arrivals su ps) ?heap ?nodes" .
  then have len: "length ?nodes = length start" by (simp add: pointers_ok_def)
  note answer = grpc_answer [OF len, of i ?heap ep]
  show ?thesis
  proof (cases "unanswered ep ?heap ?nodes")
    case True
    then obtain nd where "nd \<in> set ?nodes" "\<exists>m\<in>set (im_GetMatches ep (in_memory ?heap nd)). mActualResponse m = None"
      by (auto simp: unanswered_def)
    then have "FetchMatches (in_memory ?heap nd) ep = Panic nil_deref" by (intro FetchMatches_nil) simp
    with True \<open>nd \<in> set ?nodes\<close> show ?thesis by auto
  next
    case False
    let ?ms = "merge_answers (map (\<lambda>nd. map (as_sent \<circ> followed ?heap) (im_GetMatches ep nd)) ?nodes)"
    have served: "serve_http mx su now q sv = (Served (Answered (WriteEntity (\<lambda>_. None) (suMatchesJson su) ?ms new_writer)), sv)"
      using matches_over_http [OF assms(4,5,8,6,7), of sv "map Inr ?ms" now] answer False by (simp add: assms(2) comp_def)
    have count: "mset ?ms = (\<Sum>nd\<leftarrow>?nodes. mset (map (as_sent \<circ> followed ?heap) (im_GetMatches ep nd)))"
      by (simp add: merge_answers_mset o_def)
    have origin: "mEndpointID m = ep \<and> (mTimestamp m, mActualRequest m) \<in> apsnd actual_request ` arrivals su ps
          \<or> (\<exists>nd\<in>set start. m \<in> as_sent ` {m'. Inr m' \<in> set (im_GetMatches ep nd)})" if "m \<in> set ?ms" for m
    proof -
      have "m \<in> set_mset (mset ?ms)" using that by simp
      then obtain nd p where "nd \<in> set ?nodes" "p \<in> set (im_GetMatches ep nd)" and m: "m = as_sent (followed ?heap p)"
        unfolding count by (auto simp: set_mset_sum_list)
      with ok have "case p of
          Inl a \<Rightarrow> a < length ?heap \<and> mEndpointID (?heap ! a) = ep
            \<and> (mTimestamp (?heap ! a), mActualRequest (?heap ! a)) \<in> apsnd actual_request ` arrivals su ps
        | Inr m \<Rightarrow> \<exists>nd\<in>set start. Inr m \<in> set (im_GetMatches ep nd)" unfolding pointers_ok_def by blast
      then show ?thesis unfolding m by (cases p) auto
    qed
    show ?thesis
      unfolding if_not_P [OF False] by (rule exI [of _ ?ms], intro conjI ballI served count origin)
  qed
qed

section \<open>A cluster of two\<close>

definition grpc_setup :: "(verbatim, unit, pointer_node list, nat + Match, nat InmemoryStorage, nat) server_setup" where
  "grpc_setup =
     \<lparr>suConfig = default_configuration, suMatchstore = grpc_backend all_delivered [0..<2] 0,
      suStorage = inmemory_storage, suTemplates = store_env, suLoader = example_loader [],
      suMatchesJson = (\<lambda>ms. Inr (nat_digits (length ms))), suMismatchesJson = (\<lambda>mms. Inr (nat_digits (length mms))),
      suCodec = digits_codec, suMetrics = (\<lambda>r matches mismatches w. w)\<rparr>"

definition grpc_server :: "(verbatim, pointer_node list, nat InmemoryStorage) server_state" where
  "grpc_server = start_server
     (fold registerEndpoint [verbatim_ep ''a'' ''/a'' ''200'' ''A'', verbatim_ep ''b'' ''/b'' ''200'' ''B''] empty_node)
     [NewInMemoryMatchstore 10, NewInMemoryMatchstore 10] NewInmemoryStorage"

lemma grpc_setup_sel:
  "suMatchstore grpc_setup = grpc_backend all_delivered [0..<2] 0" "plain_text (APIPathPrefix (suConfig grpc_setup))"
  "suTemplates grpc_setup = store_env" "suMatchesJson grpc_setup = (\<lambda>ms. Inr (nat_digits (length ms)))"
  "APIPathPrefix (suConfig grpc_setup) = ''/__''"
  by (simp_all add: grpc_setup_def example_laws(2))

lemma size_sum_mset: "size (\<Sum>x\<leftarrow>xs. f x :: 'a multiset) = (\<Sum>x\<leftarrow>xs. size (f x))"
  by (induction xs) simp_all

theorem grpc_reports_over_http_witness:
  "\<exists>sv ps ms. (http_step example_mux grpc_setup)\<^sup>*\<^sup>* (grpc_server, []) (sv, ps) \<and> length ps = 1
    \<and> serve_http example_mux grpc_setup 2 (client_request ''GET'' ''/__/matches/a'' []) sv =
        (Served (Answered (WriteEntity (\<lambda>_. None) (suMatchesJson grpc_setup) ms new_writer)), sv)
    \<and> length ms = 1"
proof -
  let ?start = "[NewInMemoryMatchstore 10, NewInMemoryMatchstore 10] :: pointer_node list"
  let ?s = "serve_http example_mux grpc_setup 1 (get_request ''/a'' []) grpc_server"
  let ?h = "svHandler (snd ?s)"
  have run: "(http_step example_mux grpc_setup)\<^sup>*\<^sup>* (grpc_server, []) (snd ?s, [((1, get_request ''/a'' []), Finished (fst ?s))])"
    using serve_http_run [of example_mux grpc_setup grpc_server "[]"] by simp
  have "list_all (\<lambda>nd. list_all (\<lambda>p. mActualResponse (followed (hsMatches ?h) p) \<noteq> None) (im_GetMatches ''a'' nd)) (hsMatchstore ?h)"
    by code_simp
  then have answered: "\<not> unanswered ''a'' (hsMatches ?h) (hsMatchstore ?h)" by (auto simp: unanswered_def list_all_iff)
  have "sum_list (map (\<lambda>nd. length (im_GetMatches ''a'' nd)) (hsMatchstore ?h)) = 1" by code_simp
  then have one: "(\<Sum>nd\<leftarrow>hsMatchstore ?h. size (mset (map (as_sent \<circ> followed (hsMatches ?h)) (im_GetMatches ''a'' nd)))) = 1" by simp
  have query: "api_query example_mux grpc_setup (''matches/'' @ ''a'') (client_request ''GET'' ''/__/matches/a'' [])"
    by (simp add: api_query_def grpc_setup_def)
  have sel: "suMatchstore grpc_setup = grpc_backend all_delivered [0..<length ?start] 0"
    by (simp add: grpc_setup_sel upt_rec)
  have start: "\<forall>nd\<in>set ?start. \<forall>ep. \<forall>p\<in>set (im_GetMatches ep nd). \<exists>m. p = Inr m"
    by (simp add: NewInMemoryMatchstore_def im_GetMatches_def)
  from grpc_reports_over_http [where now = 2, OF run [unfolded grpc_server_def] sel start example_laws(1) grpc_setup_sel(2) _ _ query,
      folded grpc_server_def] answered
  obtain ms where "serve_http example_mux grpc_setup 2 (client_request ''GET'' ''/__/matches/a'' []) (snd ?s) =
      (Served (Answered (WriteEntity (\<lambda>_. None) (suMatchesJson grpc_setup) ms new_writer)), snd ?s)"
    and ms: "mset ms = (\<Sum>nd\<leftarrow>hsMatchstore ?h. mset (map (as_sent \<circ> followed (hsMatches ?h)) (im_GetMatches ''a'' nd)))" by auto
  moreover have "length ms = 1"
    using one ms size_mset [of ms] by (simp add: size_sum_mset o_def del: size_mset)
  ultimately show ?thesis using run
    by (intro exI [of _ "snd ?s"] exI [of _ "[((1, get_request ''/a'' []), Finished (fst ?s))]"] exI [of _ ms]) simp
qed


end
