(* ===== verification/StoreRaces.thy ===== *)
theory StoreRaces
  imports InMemoryProps
begin

text \<open>
  Inside the operations of the in-memory store (\<open>mockgo/matches/inmemoryMatchstore.go\<close>), which takes no lock: every
  request runs in its own goroutine, so the operations of several requests overlap. Here a goroutine is a
  position in the code of an operation with its local variables; a step does one access to a field or map of the
  store or one call of \<open>container/list\<close>, and any goroutine may do the next step. Elements of a list have an
  identity, as \<open>Remove\<close> removes the element it is given and nothing when that is no longer in the list. (Go
  promises even less: the runtime may end the process when two goroutines are in a map at once.)
\<close>

section \<open>Lists and memory\<close>

record 'a golist =
  glNext :: nat                          \<comment> \<open>identity of the next element\<close>
  glItems :: "(nat \<times> 'a) list"

definition list_New :: "'a golist" where
  "list_New = \<lparr>glNext = 0, glItems = []\<rparr>"

definition PushBack :: "'a \<Rightarrow> 'a golist \<Rightarrow> 'a golist" where
  "PushBack x l = l\<lparr>glNext := Suc (glNext l), glItems := glItems l @ [(glNext l, x)]\<rparr>"

definition Front :: "'a golist \<Rightarrow> (nat \<times> 'a) option" where
  "Front l = (case glItems l of [] \<Rightarrow> None | e # rest \<Rightarrow> Some e)"

text \<open>An element that was removed has no next one.\<close>

definition Next :: "nat \<Rightarrow> 'a golist \<Rightarrow> (nat \<times> 'a) option" where
  "Next i l = (case dropWhile (\<lambda>(j, x). j \<noteq> i) (glItems l) of e # e' # rest \<Rightarrow> Some e' | _ \<Rightarrow> None)"

definition Len :: "'a golist \<Rightarrow> nat" where
  "Len l = length (glItems l)"

definition Remove :: "nat \<Rightarrow> 'a golist \<Rightarrow> 'a golist" where
  "Remove i l = l\<lparr>glItems := filter (\<lambda>(j, x). j \<noteq> i) (glItems l)\<rparr>"

definition values_of :: "'a golist \<Rightarrow> 'a list" where
  "values_of l = map snd (glItems l)"

text \<open>The store in memory: its maps lead to lists by address.\<close>

record ('m, 'mm) store_memory =
  smSize :: "16 word"
  smMatches :: "string \<rightharpoonup> nat"
  smLists :: "'m golist list"            \<comment> \<open>the lists that were allocated for matches, by address\<close>
  smMismatches :: "'mm golist"
  smMatchesCount :: "string \<rightharpoonup> 64 word"
  smMismatchesCount :: "64 word"

definition count_of :: "string \<Rightarrow> ('m, 'mm) store_memory \<Rightarrow> 64 word" where
  "count_of ep s = (case smMatchesCount s ep of None \<Rightarrow> 0 | Some n \<Rightarrow> n)"

text \<open>What the memory is for the operations as whole steps.\<close>

definition store_of :: "('m, 'mm) store_memory \<Rightarrow> ('m, 'mm) InMemoryMatchstore" where
  "store_of s =
     \<lparr>imsSize = smSize s, imsMatches = (\<lambda>ep. map_option (\<lambda>a. values_of (smLists s ! a)) (smMatches s ep)),
      imsMismatches = values_of (smMismatches s), imsMatchesCount = smMatchesCount s,
      imsMismatchesCount = smMismatchesCount s\<rparr>"

definition new_memory :: "16 word \<Rightarrow> ('m, 'mm) store_memory" where
  "new_memory sz = \<lparr>smSize = sz, smMatches = Map.empty, smLists = [], smMismatches = list_New,
     smMatchesCount = Map.empty, smMismatchesCount = 0\<rparr>"

definition set_list :: "nat \<Rightarrow> 'm golist \<Rightarrow> ('m, 'mm) store_memory \<Rightarrow> ('m, 'mm) store_memory" where
  "set_list a l s = s\<lparr>smLists := (smLists s)[a := l]\<rparr>"

section \<open>The steps of a goroutine\<close>

text \<open>Where a goroutine is in an operation, with its local variables; the constructors follow the statements.\<close>

datatype 'm add_pos =
  Add_test 'm                            \<comment> \<open>is there a list?\<close>
| Add_make 'm
| Add_load 'm
| Add_push nat 'm
| Add_check nat
| Add_front nat
| Add_remove nat "nat option"
| Add_read                               \<comment> \<open>the counter, before it is written\<close>
| Add_write "64 word"

datatype 'mm add_mis_pos =
  Mis_push 'mm
| Mis_check
| Mis_front
| Mis_remove "nat option"
| Mis_read
| Mis_write "64 word"

datatype del_pos = Del_load | Del_front nat | Del_remove nat nat | Del_count

datatype del_mis_pos = DelMis_front | DelMis_remove nat | DelMis_count

datatype 'm get_pos = Get_load | Get_front nat | Get_next nat nat "'m list"

datatype 'mm get_mis_pos = GetMis_front | GetMis_next nat "'mm list"

datatype ('m, 'mm) goroutine =
  AddingMatch string "'m add_pos"
| AddingMismatch "'mm add_mis_pos"
| DeletingMatches string del_pos
| DeletingMismatches del_mis_pos
| GettingMatches string "'m get_pos"
| GettingMismatches "'mm get_mis_pos"
| Returned
| GotMatches "'m list"
| GotMismatches "'mm list"
| Panicked error

type_synonym ('m, 'mm) in_store = "('m, 'mm) goroutine \<times> ('m, 'mm) store_memory"

text \<open>\<open>Remove\<close> of a nil element is a nil dereference.\<close>

primrec AddMatch_step :: "string \<Rightarrow> 'm add_pos \<Rightarrow> ('m, 'mm) store_memory \<Rightarrow> ('m, 'mm) in_store" where
  "AddMatch_step ep (Add_test m) s =
     (AddingMatch ep (if smMatches s ep = None then Add_make m else Add_load m), s)"
| "AddMatch_step ep (Add_make m) s =
     (AddingMatch ep (Add_load m),
      s\<lparr>smMatches := (smMatches s)(ep \<mapsto> length (smLists s)), smLists := smLists s @ [list_New]\<rparr>)"
| "AddMatch_step ep (Add_load m) s =
     (case smMatches s ep of None \<Rightarrow> Panicked nil_deref | Some a \<Rightarrow> AddingMatch ep (Add_push a m), s)"
| "AddMatch_step ep (Add_push a m) s =
     (AddingMatch ep (Add_check a), set_list a (PushBack m (smLists s ! a)) s)"
| "AddMatch_step ep (Add_check a) s =
     (AddingMatch ep
        (if (of_nat (Len (smLists s ! a)) :: 16 word) > smSize s then Add_front a else Add_read), s)"
| "AddMatch_step ep (Add_front a) s =
     (AddingMatch ep (Add_remove a (map_option fst (Front (smLists s ! a)))), s)"
| "AddMatch_step ep (Add_remove a e) s =
     (case e of
        None \<Rightarrow> (Panicked nil_deref, s)
      | Some i \<Rightarrow> (AddingMatch ep Add_read, set_list a (Remove i (smLists s ! a)) s))"
| "AddMatch_step ep Add_read s = (AddingMatch ep (Add_write (count_of ep s)), s)"
| "AddMatch_step ep (Add_write n) s = (Returned, s\<lparr>smMatchesCount := (smMatchesCount s)(ep \<mapsto> n + 1)\<rparr>)"

primrec AddMismatch_step :: "'mm add_mis_pos \<Rightarrow> ('m, 'mm) store_memory \<Rightarrow> ('m, 'mm) in_store" where
  "AddMismatch_step (Mis_push mm) s =
     (AddingMismatch Mis_check, s\<lparr>smMismatches := PushBack mm (smMismatches s)\<rparr>)"
| "AddMismatch_step Mis_check s =
     (AddingMismatch
        (if (of_nat (Len (smMismatches s)) :: 16 word) > smSize s then Mis_front else Mis_read), s)"
| "AddMismatch_step Mis_front s =
     (AddingMismatch (Mis_remove (map_option fst (Front (smMismatches s)))), s)"
| "AddMismatch_step (Mis_remove e) s =
     (case e of
        None \<Rightarrow> (Panicked nil_deref, s)
      | Some i \<Rightarrow> (AddingMismatch Mis_read, s\<lparr>smMismatches := Remove i (smMismatches s)\<rparr>))"
| "AddMismatch_step Mis_read s = (AddingMismatch (Mis_write (smMismatchesCount s)), s)"
| "AddMismatch_step (Mis_write n) s = (Returned, s\<lparr>smMismatchesCount := n + 1\<rparr>)"

primrec DeleteMatches_step :: "string \<Rightarrow> del_pos \<Rightarrow> ('m, 'mm) store_memory \<Rightarrow> ('m, 'mm) in_store" where
  "DeleteMatches_step ep Del_load s =
     (DeletingMatches ep (case smMatches s ep of None \<Rightarrow> Del_count | Some a \<Rightarrow> Del_front a), s)"
| "DeleteMatches_step ep (Del_front a) s =
     (DeletingMatches ep (case Front (smLists s ! a) of None \<Rightarrow> Del_count | Some (i, m) \<Rightarrow> Del_remove a i), s)"
| "DeleteMatches_step ep (Del_remove a i) s =
     (DeletingMatches ep (Del_front a), set_list a (Remove i (smLists s ! a)) s)"
| "DeleteMatches_step ep Del_count s = (Returned, s\<lparr>smMatchesCount := (smMatchesCount s)(ep \<mapsto> 0)\<rparr>)"

primrec DeleteMismatches_step :: "del_mis_pos \<Rightarrow> ('m, 'mm) store_memory \<Rightarrow> ('m, 'mm) in_store" where
  "DeleteMismatches_step DelMis_front s =
     (DeletingMismatches (case Front (smMismatches s) of None \<Rightarrow> DelMis_count | Some (i, mm) \<Rightarrow> DelMis_remove i), s)"
| "DeleteMismatches_step (DelMis_remove i) s =
     (DeletingMismatches DelMis_front, s\<lparr>smMismatches := Remove i (smMismatches s)\<rparr>)"
| "DeleteMismatches_step DelMis_count s = (Returned, s\<lparr>smMismatchesCount := 0\<rparr>)"

text \<open>The loops that collect: the value of an element is taken with the element, as it never changes.\<close>

primrec GetMatches_step :: "string \<Rightarrow> 'm get_pos \<Rightarrow> ('m, 'mm) store_memory \<Rightarrow> ('m, 'mm) in_store" where
  "GetMatches_step ep Get_load s =
     (case smMatches s ep of None \<Rightarrow> GotMatches [] | Some a \<Rightarrow> GettingMatches ep (Get_front a), s)"
| "GetMatches_step ep (Get_front a) s =
     (case Front (smLists s ! a) of
        None \<Rightarrow> GotMatches [] | Some (i, m) \<Rightarrow> GettingMatches ep (Get_next a i [m]), s)"
| "GetMatches_step ep (Get_next a i res) s =
     (case Next i (smLists s ! a) of
        None \<Rightarrow> GotMatches res | Some (j, m) \<Rightarrow> GettingMatches ep (Get_next a j (res @ [m])), s)"

primrec GetMismatches_step :: "'mm get_mis_pos \<Rightarrow> ('m, 'mm) store_memory \<Rightarrow> ('m, 'mm) in_store" where
  "GetMismatches_step GetMis_front s =
     (case Front (smMismatches s) of
        None \<Rightarrow> GotMismatches [] | Some (i, mm) \<Rightarrow> GettingMismatches (GetMis_next i [mm]), s)"
| "GetMismatches_step (GetMis_next i res) s =
     (case Next i (smMismatches s) of
        None \<Rightarrow> GotMismatches res | Some (j, mm) \<Rightarrow> GettingMismatches (GetMis_next j (res @ [mm])), s)"

primrec goroutine_step :: "('m, 'mm) goroutine \<Rightarrow> ('m, 'mm) store_memory \<Rightarrow> ('m, 'mm) in_store option" where
  "goroutine_step (AddingMatch ep p) s = Some (AddMatch_step ep p s)"
| "goroutine_step (AddingMismatch p) s = Some (AddMismatch_step p s)"
| "goroutine_step (DeletingMatches ep p) s = Some (DeleteMatches_step ep p s)"
| "goroutine_step (DeletingMismatches p) s = Some (DeleteMismatches_step p s)"
| "goroutine_step (GettingMatches ep p) s = Some (GetMatches_step ep p s)"
| "goroutine_step (GettingMismatches p) s = Some (GetMismatches_step p s)"
| "goroutine_step Returned s = None"
| "goroutine_step (GotMatches ms) s = None"
| "goroutine_step (GotMismatches mms) s = None"
| "goroutine_step (Panicked e) s = None"

section \<open>Goroutines in parallel\<close>

text \<open>A call, the goroutine that runs it, its answer and effect when it is a whole step. (The counters are
  read in one access, which is a whole step already.)\<close>

datatype ('m, 'mm) store_call = Change "('m, 'mm) store_op" | ReadMatches string | ReadMismatches

primrec op_start :: "('m, 'mm) store_op \<Rightarrow> ('m, 'mm) goroutine" where
  "op_start (AddMatchOp ep m) = AddingMatch ep (Add_test m)"
| "op_start (AddMismatchOp mm) = AddingMismatch (Mis_push mm)"
| "op_start (DeleteMatchesOp ep) = DeletingMatches ep Del_load"
| "op_start DeleteMismatchesOp = DeletingMismatches DelMis_front"

primrec goroutine_of :: "('m, 'mm) store_call \<Rightarrow> ('m, 'mm) goroutine" where
  "goroutine_of (Change op) = op_start op"
| "goroutine_of (ReadMatches ep) = GettingMatches ep Get_load"
| "goroutine_of ReadMismatches = GettingMismatches GetMis_front"

primrec call_answer :: "('m, 'mm) store_call \<Rightarrow> ('m, 'mm) InMemoryMatchstore \<Rightarrow> ('m, 'mm) goroutine" where
  "call_answer (Change op) store = Returned"
| "call_answer (ReadMatches ep) store = GotMatches (im_GetMatches ep store)"
| "call_answer ReadMismatches store = GotMismatches (im_GetMismatches store)"

primrec call_effect ::
  "('m, 'mm) store_call \<Rightarrow> ('m, 'mm) InMemoryMatchstore \<Rightarrow> ('m, 'mm) InMemoryMatchstore" where
  "call_effect (Change op) store = apply_op inmemory_store op store"
| "call_effect (ReadMatches ep) store = store"
| "call_effect ReadMismatches store = store"

type_synonym ('m, 'mm) in_parallel = "('m, 'mm) store_memory \<times> ('m, 'mm) goroutine list"

inductive store_step :: "('m, 'mm) in_parallel \<Rightarrow> ('m, 'mm) in_parallel \<Rightarrow> bool" where
  Step: "i < length gs \<Longrightarrow> goroutine_step (gs ! i) s = Some (g, s') \<Longrightarrow> store_step (s, gs) (s', gs[i := g])"

inductive_cases store_step_cases: "store_step (s, gs) c"

text \<open>A schedule says whose step is next.\<close>

fun run_schedule :: "nat list \<Rightarrow> ('m, 'mm) in_parallel \<Rightarrow> ('m, 'mm) in_parallel option" where
  "run_schedule [] (s, gs) = Some (s, gs)"
| "run_schedule (i # sched) (s, gs) =
     (if i < length gs
      then case goroutine_step (gs ! i) s of
             None \<Rightarrow> None
           | Some (g, s') \<Rightarrow> run_schedule sched (s', gs[i := g])
      else None)"

lemma run_schedule_steps: "run_schedule sched c = Some c' \<Longrightarrow> store_step\<^sup>*\<^sup>* c c'"
proof (induction sched c rule: run_schedule.induct)
  case (2 i sched s gs)
  then obtain g s' where step: "i < length gs" "goroutine_step (gs ! i) s = Some (g, s')"
    and run: "run_schedule sched (s', gs[i := g]) = Some c'"
    by (auto split: if_splits option.splits)
  from Step [OF step] 2(1) [OF step(1,2) refl run] show ?case by (rule converse_rtranclp_into_rtranclp)
qed simp

section \<open>Well-formed memory\<close>

definition list_ok :: "'a golist \<Rightarrow> bool" where
  "list_ok l \<longleftrightarrow> distinct (map fst (glItems l)) \<and> (\<forall>i\<in>fst ` set (glItems l). i < glNext l)"

definition memory_ok :: "('m, 'mm) store_memory \<Rightarrow> bool" where
  "memory_ok s \<longleftrightarrow> (\<forall>l\<in>set (smLists s). list_ok l) \<and> list_ok (smMismatches s)
     \<and> (\<forall>ep a. smMatches s ep = Some a \<longrightarrow> a < length (smLists s))
     \<and> (\<forall>ep ep' a. smMatches s ep = Some a \<longrightarrow> smMatches s ep' = Some a \<longrightarrow> ep = ep')"

lemma list_ok_New [simp]: "list_ok list_New"
  by (simp add: list_ok_def list_New_def)

lemma list_ok_PushBack [simp]: "list_ok l \<Longrightarrow> list_ok (PushBack x l)"
  by (auto simp: list_ok_def PushBack_def less_Suc_eq)

lemma list_ok_Remove [simp]: "list_ok l \<Longrightarrow> list_ok (Remove i l)"
  by (auto simp: list_ok_def Remove_def distinct_map_filter)

lemma values_of_simps [simp]:
  "values_of list_New = []" "values_of (PushBack x l) = values_of l @ [x]"
  by (simp_all add: values_of_def list_New_def PushBack_def)

lemma Len_values_of: "Len l = length (values_of l)"
  by (simp add: Len_def values_of_def)

lemma Front_values: "Front l = Some (i, x) \<Longrightarrow> values_of l = x # tl (values_of l)"
  by (auto simp: Front_def values_of_def split: list.splits)

lemma Front_None [simp]: "Front l = None \<longleftrightarrow> values_of l = []"
  by (auto simp: Front_def values_of_def split: list.splits)

lemma Remove_front: "list_ok l \<Longrightarrow> Front l = Some (i, x) \<Longrightarrow> values_of (Remove i l) = tl (values_of l)"
  by (cases "glItems l") (auto simp: Front_def Remove_def values_of_def list_ok_def image_iff intro!: arg_cong [where f = "map snd"] filter_True)

lemma memory_ok_set_list [simp]:
  "memory_ok s \<Longrightarrow> (a < length (smLists s) \<Longrightarrow> list_ok l) \<Longrightarrow> memory_ok (set_list a l s)"
  by (cases "a < length (smLists s)")
    (auto simp: memory_ok_def set_list_def list_update_beyond dest!: set_update_subset_insert [THEN subsetD])

lemma memory_ok_counts [simp]:
  "memory_ok (s\<lparr>smMatchesCount := c\<rparr>) = memory_ok s"
  "memory_ok (s\<lparr>smMismatchesCount := n\<rparr>) = memory_ok s"
  by (simp_all add: memory_ok_def)

lemma memory_ok_mismatches [simp]: "memory_ok s \<Longrightarrow> list_ok l \<Longrightarrow> memory_ok (s\<lparr>smMismatches := l\<rparr>)"
  by (simp add: memory_ok_def)

lemma memory_ok_make [simp]:
  "memory_ok s \<Longrightarrow>
   memory_ok (s\<lparr>smMatches := (smMatches s)(ep \<mapsto> length (smLists s)), smLists := smLists s @ [list_New]\<rparr>)"
  by (fastforce simp: memory_ok_def less_Suc_eq)

lemma memory_ok_new [simp]: "memory_ok (new_memory sz)"
  by (simp add: memory_ok_def new_memory_def)

section \<open>An operation that is not interrupted\<close>

text \<open>Steps of one goroutine only.\<close>

definition alone_step :: "('m, 'mm) in_store \<Rightarrow> ('m, 'mm) in_store \<Rightarrow> bool" where
  "alone_step c c' \<longleftrightarrow> goroutine_step (fst c) (snd c) = Some c'"

lemma alone_first: "goroutine_step g s = Some c \<Longrightarrow> alone_step\<^sup>*\<^sup>* c c' \<Longrightarrow> alone_step\<^sup>*\<^sup>* (g, s) c'"
  by (rule converse_rtranclp_into_rtranclp [where b = c]) (simp_all add: alone_step_def)

lemma alone_firstI:
  "alone_step\<^sup>*\<^sup>* (the (goroutine_step g s)) c' \<Longrightarrow> goroutine_step g s \<noteq> None \<Longrightarrow> alone_step\<^sup>*\<^sup>* (g, s) c'"
  by (auto intro: alone_first)

lemma alone_in_parallel:
  "alone_step\<^sup>*\<^sup>* c c' \<Longrightarrow> i < length gs \<Longrightarrow>
   store_step\<^sup>*\<^sup>* (snd c, gs[i := fst c]) (snd c', gs[i := fst c'])"
proof (induction rule: rtranclp_induct)
  case (step c1 c2)
  from step.hyps(2) step.prems have "store_step (snd c1, gs[i := fst c1]) (snd c2, (gs[i := fst c1])[i := fst c2])"
    by (intro Step) (simp_all add: alone_step_def)
  with step.IH [OF step.prems] show ?case by (simp add: rtranclp.rtrancl_into_rtrancl)
qed simp

text \<open>The list an address is for holds the matches of its endpoint only.\<close>

lemma store_of_set_list:
  assumes "memory_ok s" and "smMatches s ep = Some a"
  shows "store_of (set_list a l s) = (store_of s)\<lparr>imsMatches := (imsMatches (store_of s))(ep \<mapsto> values_of l)\<rparr>"
proof -
  have "smMatches s ep' \<noteq> Some a" if "ep' \<noteq> ep" for ep'
    using assms that unfolding memory_ok_def by metis
  moreover have "a < length (smLists s)" using assms by (simp add: memory_ok_def)
  ultimately show ?thesis
    using assms(2)
    by (auto simp: store_of_def set_list_def fun_eq_iff nth_list_update intro!: option.map_cong)
qed

lemma set_list_sel [simp]:
  "smMatches (set_list a l s) = smMatches s" "smSize (set_list a l s) = smSize s"
  "smMatchesCount (set_list a l s) = smMatchesCount s" "count_of ep (set_list a l s) = count_of ep s"
  "length (smLists (set_list a l s)) = length (smLists s)"
  "a < length (smLists s) \<Longrightarrow> smLists (set_list a l s) ! a = l"
  "set_list a l' (set_list a l s) = set_list a l' s"
  by (simp_all add: set_list_def count_of_def)

lemma add_counts:
  "alone_step\<^sup>*\<^sup>* (AddingMatch ep Add_read, s)
     (Returned, s\<lparr>smMatchesCount := (smMatchesCount s)(ep \<mapsto> count_of ep s + 1)\<rparr>)"
  by (rule alone_firstI, simp_all)+

text \<open>What the check, \<open>Front\<close> and \<open>Remove\<close> make of a list.\<close>

definition cut_list :: "16 word \<Rightarrow> 'a golist \<Rightarrow> 'a golist" where
  "cut_list sz l =
     (if (of_nat (Len l) :: 16 word) > sz then (case Front l of None \<Rightarrow> l | Some (i, x) \<Rightarrow> Remove i l) else l)"

lemma cut_list_push:
  assumes "list_ok l"
  shows "list_ok (cut_list sz (PushBack x l))"
    and "values_of (cut_list sz (PushBack x l)) = push_bounded sz (values_of l) x"
proof -
  let ?l = "PushBack x l"
  obtain i y where front: "Front ?l = Some (i, y)" using Front_None [of ?l] by (cases "Front ?l") auto
  have ok: "list_ok ?l" using assms by simp
  show "list_ok (cut_list sz ?l)" using ok front by (simp add: cut_list_def)
  show "values_of (cut_list sz ?l) = push_bounded sz (values_of l) x"
    using Remove_front [OF ok front] front by (simp add: cut_list_def push_bounded_def Len_values_of Let_def)
qed

lemma add_cuts:
  assumes "a < length (smLists s)" and "values_of (smLists s ! a) \<noteq> []"
    and "alone_step\<^sup>*\<^sup>* (AddingMatch ep Add_read, set_list a (cut_list (smSize s) (smLists s ! a)) s) c"
  shows "alone_step\<^sup>*\<^sup>* (AddingMatch ep (Add_check a), s) c"
proof (cases "smSize s < (of_nat (Len (smLists s ! a)) :: 16 word)")
  case True
  obtain i x where front: "Front (smLists s ! a) = Some (i, x)"
    using assms(2) by (cases "Front (smLists s ! a)") auto
  have "alone_step\<^sup>*\<^sup>* (AddingMatch ep (Add_remove a (Some i)), s) c"
    using assms(3) True front by (intro alone_first) (simp_all add: cut_list_def)
  then have "alone_step\<^sup>*\<^sup>* (AddingMatch ep (Add_front a), s) c"
    by (rule alone_first [rotated]) (simp add: front)
  then show ?thesis by (rule alone_first [rotated]) (simp add: True)
next
  case False
  then have "set_list a (cut_list (smSize s) (smLists s ! a)) s = s"
    using assms(1) by (simp add: cut_list_def set_list_def)
  with assms(3) False show ?thesis by (intro alone_first) simp_all
qed

lemma add_to_check:
  assumes "smMatches s ep = Some a"
  shows "alone_step\<^sup>*\<^sup>* (AddingMatch ep (Add_test m), s)
    (AddingMatch ep (Add_check a), set_list a (PushBack m (smLists s ! a)) s)"
  using assms
  by (auto intro!: alone_firstI [of "AddingMatch ep (Add_test m)"] alone_firstI [of "AddingMatch ep (Add_load m)"]
      alone_firstI [of "AddingMatch ep (Add_push a m)"])

lemma add_to_count:
  fixes m :: 'm
  assumes "memory_ok s" and "smMatches s ep = Some a"
  shows "alone_step\<^sup>*\<^sup>* (AddingMatch ep (Add_test m), s)
    (AddingMatch ep Add_read, set_list a (cut_list (smSize s) (PushBack m (smLists s ! a))) s)"
proof -
  have "a < length (smLists s)" using assms by (simp add: memory_ok_def)
  then show ?thesis by (intro rtranclp_trans [OF add_to_check [OF assms(2)] add_cuts]) simp_all
qed

lemma add_with_list:
  fixes m :: 'm
  assumes "memory_ok s" and "smMatches s ep = Some a"
  defines "l \<equiv> cut_list (smSize s) (PushBack m (smLists s ! a))"
  shows "alone_step\<^sup>*\<^sup>* (AddingMatch ep (Add_test m), s)
    (Returned, (set_list a l s)\<lparr>smMatchesCount := (smMatchesCount s)(ep \<mapsto> count_of ep s + 1)\<rparr>)"
  using add_to_count [OF assms(1,2), of m] add_counts [of ep "set_list a l s"]
  unfolding l_def by (auto intro: rtranclp_trans)

lemma list_at_ok: "memory_ok s \<Longrightarrow> smMatches s ep = Some a \<Longrightarrow> list_ok (smLists s ! a)"
  by (simp add: memory_ok_def)

lemma add_result:
  fixes m :: 'm
  assumes "memory_ok s" and "smMatches s ep = Some a"
  defines "s' \<equiv> (set_list a (cut_list (smSize s) (PushBack m (smLists s ! a))) s)
     \<lparr>smMatchesCount := (smMatchesCount s)(ep \<mapsto> count_of ep s + 1)\<rparr>"
  shows "memory_ok s'" and "store_of s' = im_AddMatch ep m (store_of s)"
proof -
  note ok = list_at_ok [OF assms(1,2)]
  show "memory_ok s'" using assms(1) cut_list_push(1) [OF ok] by (simp add: s'_def)
  have "store_of s' = (store_of (set_list a (cut_list (smSize s) (PushBack m (smLists s ! a))) s))
      \<lparr>imsMatchesCount := (smMatchesCount s)(ep \<mapsto> count_of ep s + 1)\<rparr>"
    by (simp add: s'_def store_of_def)
  then show "store_of s' = im_AddMatch ep m (store_of s)"
    unfolding store_of_set_list [OF assms(1,2)] cut_list_push(2) [OF ok]
    using assms(2) by (simp add: im_AddMatch_def im_GetMatchesCount_def count_of_def store_of_def)
qed

lemma add_alone:
  assumes "memory_ok s"
  shows "\<exists>s'. alone_step\<^sup>*\<^sup>* (AddingMatch ep (Add_test m), s) (Returned, s') \<and> memory_ok s'
    \<and> store_of s' = im_AddMatch ep m (store_of s)"
proof (cases "smMatches s ep")
  case None
  let ?s = "s\<lparr>smMatches := (smMatches s)(ep \<mapsto> length (smLists s)), smLists := smLists s @ [list_New]\<rparr>"
  have ok: "memory_ok ?s" using assms by simp
  have mem: "smMatches ?s ep = Some (length (smLists s))" by simp
  obtain s' where run: "alone_step\<^sup>*\<^sup>* (AddingMatch ep (Add_test m), ?s) (Returned, s')" "memory_ok s'"
    "store_of s' = im_AddMatch ep m (store_of ?s)"
    using add_with_list [OF ok mem] add_result [OF ok mem] by blast
  from run(1) have "alone_step\<^sup>*\<^sup>* (AddingMatch ep (Add_load m), ?s) (Returned, s')"
    by (rule converse_rtranclpE) (simp_all add: alone_step_def)
  with None have "alone_step\<^sup>*\<^sup>* (AddingMatch ep (Add_test m), s) (Returned, s')"
    by (auto intro!: alone_firstI [of "AddingMatch ep (Add_test m)"] alone_firstI [of "AddingMatch ep (Add_make m)"])
  moreover have "im_AddMatch ep m (store_of ?s) = im_AddMatch ep m (store_of s)"
    using None assms
    by (auto simp: im_AddMatch_def im_GetMatchesCount_def store_of_def fun_eq_iff nth_append memory_ok_def
        intro!: option.map_cong)
  ultimately show ?thesis using run by metis
next
  case (Some a)
  with add_with_list [OF assms Some] add_result [OF assms Some] show ?thesis by blast
qed

lemma mismatch_counts:
  "alone_step\<^sup>*\<^sup>* (AddingMismatch Mis_read, s) (Returned, s\<lparr>smMismatchesCount := smMismatchesCount s + 1\<rparr>)"
  by (rule alone_firstI, simp_all)+

lemma mismatch_alone:
  assumes "memory_ok s"
  shows "\<exists>s'. alone_step\<^sup>*\<^sup>* (AddingMismatch (Mis_push mm), s) (Returned, s') \<and> memory_ok s'
    \<and> store_of s' = im_AddMismatch mm (store_of s)"
proof -
  let ?l = "PushBack mm (smMismatches s)" and ?s = "s\<lparr>smMismatches := PushBack mm (smMismatches s)\<rparr>"
  let ?s' = "s\<lparr>smMismatches := cut_list (smSize s) ?l, smMismatchesCount := smMismatchesCount s + 1\<rparr>"
  have ok: "list_ok (smMismatches s)" using assms by (simp add: memory_ok_def)
  obtain i x where front: "Front ?l = Some (i, x)" using Front_None [of ?l] by (cases "Front ?l") auto
  have "alone_step\<^sup>*\<^sup>* (AddingMismatch Mis_check, ?s) (Returned, ?s')"
  proof (cases "smSize s < (of_nat (Len ?l) :: 16 word)")
    case True
    with mismatch_counts [of "?s\<lparr>smMismatches := cut_list (smSize s) ?l\<rparr>"] front show ?thesis
      by (auto simp: cut_list_def intro!: alone_firstI [of "AddingMismatch Mis_check"]
          alone_firstI [of "AddingMismatch Mis_front"] alone_firstI [of "AddingMismatch (Mis_remove e)" for e])
  next
    case False
    with mismatch_counts [of ?s] show ?thesis by (auto simp: cut_list_def intro!: alone_firstI)
  qed
  then have "alone_step\<^sup>*\<^sup>* (AddingMismatch (Mis_push mm), s) (Returned, ?s')" by (intro alone_firstI) simp_all
  moreover have "memory_ok ?s'" using assms cut_list_push(1) [OF ok] by (simp add: memory_ok_def)
  moreover have "store_of ?s' = im_AddMismatch mm (store_of s)"
    by (simp add: store_of_def im_AddMismatch_def cut_list_push(2) [OF ok])
  ultimately show ?thesis by blast
qed

text \<open>The loops of the deletions end as every round removes an element.\<close>

lemma delete_loop:
  assumes "memory_ok s" and "smMatches s ep = Some a"
  shows "\<exists>s'. alone_step\<^sup>*\<^sup>* (DeletingMatches ep (Del_front a), s) (DeletingMatches ep Del_count, s') \<and> memory_ok s'
    \<and> smMatches s' = smMatches s \<and> store_of s' = (store_of s)\<lparr>imsMatches := (imsMatches (store_of s))(ep \<mapsto> [])\<rparr>"
  using assms
proof (induction "values_of (smLists s ! a)" arbitrary: s)
  case Nil
  then have front: "Front (smLists s ! a) = None" by simp
  have "store_of s = (store_of s)\<lparr>imsMatches := (imsMatches (store_of s))(ep \<mapsto> [])\<rparr>"
    using Nil by (simp add: store_of_def fun_eq_iff)
  moreover have "alone_step\<^sup>*\<^sup>* (DeletingMatches ep (Del_front a), s) (DeletingMatches ep Del_count, s)"
    by (rule alone_firstI) (simp_all add: front)
  ultimately show ?case using Nil.prems by metis
next
  case (Cons x xs)
  then obtain i y where front: "Front (smLists s ! a) = Some (i, y)"
    using Front_None [of "smLists s ! a"] by (cases "Front (smLists s ! a)") auto
  let ?s = "set_list a (Remove i (smLists s ! a)) s"
  have a: "a < length (smLists s)" using Cons.prems by (simp add: memory_ok_def)
  have ok: "list_ok (smLists s ! a)" using list_at_ok [OF Cons.prems] .
  have vals: "values_of (Remove i (smLists s ! a)) = xs"
    using Remove_front [OF ok front] Cons.hyps(2) by (metis list.sel(3))
  have "\<exists>s'. alone_step\<^sup>*\<^sup>* (DeletingMatches ep (Del_front a), ?s) (DeletingMatches ep Del_count, s') \<and> memory_ok s'
    \<and> smMatches s' = smMatches ?s \<and> store_of s' = (store_of ?s)\<lparr>imsMatches := (imsMatches (store_of ?s))(ep \<mapsto> [])\<rparr>"
    using Cons.prems ok a vals by (intro Cons.hyps(1)) simp_all
  then obtain s' where run: "alone_step\<^sup>*\<^sup>* (DeletingMatches ep (Del_front a), ?s) (DeletingMatches ep Del_count, s')"
    and s': "memory_ok s'" "smMatches s' = smMatches s" "store_of s' = (store_of ?s)\<lparr>imsMatches := (imsMatches (store_of ?s))(ep \<mapsto> [])\<rparr>" by auto
  have "alone_step\<^sup>*\<^sup>* (DeletingMatches ep (Del_front a), s) (DeletingMatches ep Del_count, s')"
    using run front by (auto intro!: alone_firstI [of _ s] alone_firstI [of "DeletingMatches ep (Del_remove a i)" s])
  with s' show ?case by (auto simp: store_of_set_list [OF Cons.prems])
qed

lemma delete_alone:
  assumes "memory_ok s"
  shows "\<exists>s'. alone_step\<^sup>*\<^sup>* (DeletingMatches ep Del_load, s) (Returned, s') \<and> memory_ok s'
    \<and> smMatches s' = smMatches s \<and> store_of s' = im_DeleteMatches ep (store_of s)"
proof -
  have count: "alone_step\<^sup>*\<^sup>* (DeletingMatches ep Del_count, s') (Returned, s'\<lparr>smMatchesCount := (smMatchesCount s')(ep \<mapsto> 0)\<rparr>)"
    for s' :: "('a, 'b) store_memory" by (rule alone_firstI) simp_all
  have load: "alone_step\<^sup>*\<^sup>* (DeletingMatches ep Del_load, s) c"
    if "alone_step\<^sup>*\<^sup>* (DeletingMatches ep (case smMatches s ep of None \<Rightarrow> Del_count | Some a \<Rightarrow> Del_front a), s) c" for c
    using that by (intro alone_firstI) simp_all
  have counts: "imsMatchesCount (store_of s') = smMatchesCount s'" for s' :: "('a, 'b) store_memory"
    by (simp add: store_of_def)
  show ?thesis
  proof (cases "smMatches s ep")
    case None
    then have "alone_step\<^sup>*\<^sup>* (DeletingMatches ep Del_load, s) (Returned, s\<lparr>smMatchesCount := (smMatchesCount s)(ep \<mapsto> 0)\<rparr>)"
      using load count [of s] by simp
    with None assms show ?thesis
      by (intro exI [of _ "s\<lparr>smMatchesCount := (smMatchesCount s)(ep \<mapsto> 0)\<rparr>"]) (simp add: store_of_def im_DeleteMatches_def)
  next
    case (Some a)
    from delete_loop [OF assms Some] obtain s' where
      run: "alone_step\<^sup>*\<^sup>* (DeletingMatches ep (Del_front a), s) (DeletingMatches ep Del_count, s')" and ok: "memory_ok s'" "smMatches s' = smMatches s"
      and s': "store_of s' = (store_of s)\<lparr>imsMatches := (imsMatches (store_of s))(ep \<mapsto> [])\<rparr>" by blast
    have "alone_step\<^sup>*\<^sup>* (DeletingMatches ep Del_load, s) (Returned, s'\<lparr>smMatchesCount := (smMatchesCount s')(ep \<mapsto> 0)\<rparr>)"
      using load rtranclp_trans [OF run count] Some by simp
    moreover have "store_of (s'\<lparr>smMatchesCount := (smMatchesCount s')(ep \<mapsto> 0)\<rparr>) =
        (store_of s')\<lparr>imsMatchesCount := (imsMatchesCount (store_of s'))(ep \<mapsto> 0)\<rparr>"
      by (simp add: store_of_def)
    then have "store_of (s'\<lparr>smMatchesCount := (smMatchesCount s')(ep \<mapsto> 0)\<rparr>) = im_DeleteMatches ep (store_of s)"
      using Some by (simp add: s' im_DeleteMatches_def) (simp add: store_of_def)
    ultimately show ?thesis using ok by (intro exI) (rule conjI, assumption, simp)
  qed
qed

lemma delete_mismatches_alone:
  assumes "memory_ok s"
  shows "\<exists>s'. alone_step\<^sup>*\<^sup>* (DeletingMismatches DelMis_front, s) (Returned, s') \<and> memory_ok s'
    \<and> store_of s' = im_DeleteMismatches (store_of s)"
  using assms
proof (induction "values_of (smMismatches s)" arbitrary: s)
  case Nil
  then have front: "Front (smMismatches s) = None" by simp
  have "alone_step\<^sup>*\<^sup>* (DeletingMismatches DelMis_front, s) (Returned, s\<lparr>smMismatchesCount := 0\<rparr>)"
    by (auto simp: front intro!: alone_firstI [of _ s])
  with Nil show ?case
    by (intro exI [of _ "s\<lparr>smMismatchesCount := 0\<rparr>"]) (simp add: store_of_def im_DeleteMismatches_def)
next
  case (Cons x xs)
  then obtain i y where front: "Front (smMismatches s) = Some (i, y)"
    using Front_None [of "smMismatches s"] by (cases "Front (smMismatches s)") auto
  let ?s = "s\<lparr>smMismatches := Remove i (smMismatches s)\<rparr>"
  have ok: "list_ok (smMismatches s)" using Cons.prems by (simp add: memory_ok_def)
  have "values_of (Remove i (smMismatches s)) = xs"
    using Remove_front [OF ok front] Cons.hyps(2) by (metis list.sel(3))
  then obtain s' where run: "alone_step\<^sup>*\<^sup>* (DeletingMismatches DelMis_front, ?s) (Returned, s')"
    and s': "memory_ok s'" "store_of s' = im_DeleteMismatches (store_of ?s)"
    using Cons.hyps(1) [of ?s] Cons.prems ok by auto
  have "alone_step\<^sup>*\<^sup>* (DeletingMismatches DelMis_front, s) (Returned, s')"
    using run front
    by (auto intro!: alone_firstI [of "DeletingMismatches DelMis_front" s] alone_firstI [of "DeletingMismatches (DelMis_remove i)" s])
  with s' show ?case by (auto simp: store_of_def im_DeleteMismatches_def)
qed

lemma Next_at:
  "list_ok l \<Longrightarrow> glItems l = pre @ (i, x) # post \<Longrightarrow> Next i l = (case post of [] \<Rightarrow> None | e # es \<Rightarrow> Some e)"
proof -
  assume "list_ok l" and items: "glItems l = pre @ (i, x) # post"
  then have "\<forall>e\<in>set pre. fst e \<noteq> i" by (auto simp: list_ok_def image_iff)
  then have "dropWhile (\<lambda>(j, x). j \<noteq> i) (glItems l) = (i, x) # post"
    unfolding items by (induction pre) auto
  then show "Next i l = (case post of [] \<Rightarrow> None | e # es \<Rightarrow> Some e)"
    by (simp add: Next_def split: list.split)
qed

lemma get_loop:
  "list_ok (smLists s ! a) \<Longrightarrow> glItems (smLists s ! a) = pre @ (i, x) # post \<Longrightarrow>
   alone_step\<^sup>*\<^sup>* (GettingMatches ep (Get_next a i res), s) (GotMatches (res @ map snd post), s)"
proof (induction post arbitrary: pre i x res)
  case Nil
  then show ?case by (intro alone_firstI) (simp_all add: Next_at)
next
  case (Cons e post)
  obtain j y where e: "e = (j, y)" by (cases e)
  from Cons.IH [of "pre @ [(i, x)]" j y "res @ [y]"] Cons.prems
  have "alone_step\<^sup>*\<^sup>* (GettingMatches ep (Get_next a j (res @ [y])), s) (GotMatches (res @ map snd (e # post)), s)"
    by (simp add: e)
  then show ?case by (rule alone_first [rotated]) (simp add: Next_at [OF Cons.prems] e)
qed

lemma get_alone:
  assumes "memory_ok s"
  shows "alone_step\<^sup>*\<^sup>* (GettingMatches ep Get_load, s) (GotMatches (im_GetMatches ep (store_of s)), s)"
proof (cases "smMatches s ep")
  case None
  then show ?thesis by (intro alone_firstI) (simp_all add: im_GetMatches_def store_of_def)
next
  case (Some a)
  then have answer: "im_GetMatches ep (store_of s) = map snd (glItems (smLists s ! a))"
    by (simp add: im_GetMatches_def store_of_def values_of_def)
  have "alone_step\<^sup>*\<^sup>* (GettingMatches ep (Get_front a), s) (GotMatches (im_GetMatches ep (store_of s)), s)"
  proof (cases "glItems (smLists s ! a)")
    case Nil
    then show ?thesis unfolding answer by (intro alone_firstI) (simp_all add: Front_def)
  next
    case (Cons e post)
    obtain i x where e: "e = (i, x)" by (cases e)
    from get_loop [OF list_at_ok [OF assms Some], of "[]" i x post ep "[x]"] Cons
    have "alone_step\<^sup>*\<^sup>* (GettingMatches ep (Get_next a i [x]), s) (GotMatches (x # map snd post), s)" by (simp add: e)
    then show ?thesis by (intro alone_firstI) (simp_all add: Front_def Cons e answer)
  qed
  then show ?thesis by (rule alone_first [rotated]) (simp add: Some)
qed

lemma get_mismatches_loop:
  "list_ok (smMismatches s) \<Longrightarrow> glItems (smMismatches s) = pre @ (i, x) # post \<Longrightarrow>
   alone_step\<^sup>*\<^sup>* (GettingMismatches (GetMis_next i res), s) (GotMismatches (res @ map snd post), s)"
proof (induction post arbitrary: pre i x res)
  case Nil
  then show ?case by (intro alone_firstI) (simp_all add: Next_at)
next
  case (Cons e post)
  obtain j y where e: "e = (j, y)" by (cases e)
  from Cons.IH [of "pre @ [(i, x)]" j y "res @ [y]"] Cons.prems
  have "alone_step\<^sup>*\<^sup>* (GettingMismatches (GetMis_next j (res @ [y])), s) (GotMismatches (res @ map snd (e # post)), s)"
    by (simp add: e)
  then show ?case by (rule alone_first [rotated]) (simp add: Next_at [OF Cons.prems] e)
qed

lemma get_mismatches_alone:
  assumes "memory_ok s"
  shows "alone_step\<^sup>*\<^sup>* (GettingMismatches GetMis_front, s) (GotMismatches (im_GetMismatches (store_of s)), s)"
proof -
  have answer: "im_GetMismatches (store_of s) = map snd (glItems (smMismatches s))"
    by (simp add: im_GetMismatches_def store_of_def values_of_def)
  show ?thesis
  proof (cases "glItems (smMismatches s)")
    case Nil
    then show ?thesis unfolding answer by (intro alone_firstI) (simp_all add: Front_def)
  next
    case (Cons e post)
    obtain i x where e: "e = (i, x)" by (cases e)
    from get_mismatches_loop [of s "[]" i x post "[x]"] Cons assms
    have "alone_step\<^sup>*\<^sup>* (GettingMismatches (GetMis_next i [x]), s) (GotMismatches (x # map snd post), s)"
      by (simp add: e memory_ok_def)
    then show ?thesis by (intro alone_firstI) (simp_all add: Front_def Cons e answer)
  qed
qed

lemma call_alone:
  assumes "memory_ok s"
  shows "\<exists>s'. alone_step\<^sup>*\<^sup>* (goroutine_of c, s) (call_answer c (store_of s), s') \<and> store_of s' = call_effect c (store_of s)"
proof (cases c)
  case (Change op)
  then show ?thesis
    using add_alone [OF assms] mismatch_alone [OF assms] delete_alone [OF assms] delete_mismatches_alone [OF assms]
    by (cases op) (simp_all, blast+)
qed (use get_alone [OF assms] get_mismatches_alone [OF assms] in auto)

section \<open>The memory stays well-formed\<close>

lemma memory_list_ok [simp]: "memory_ok s \<Longrightarrow> a < length (smLists s) \<Longrightarrow> list_ok (smLists s ! a)"
  by (simp add: memory_ok_def)

lemma memory_mismatches_ok [simp]: "memory_ok s \<Longrightarrow> list_ok (smMismatches s)"
  by (simp add: memory_ok_def)

lemma store_steps_ok:
  assumes "memory_ok s"
  shows "memory_ok (snd (AddMatch_step ep ap s))" and "memory_ok (snd (AddMismatch_step mp s))"
    and "memory_ok (snd (DeleteMatches_step ep dp s))" and "memory_ok (snd (DeleteMismatches_step dmp s))"
    and "memory_ok (snd (GetMatches_step ep gp s))" and "memory_ok (snd (GetMismatches_step gmp s))"
  subgoal using assms by (cases ap) (auto split: option.split)
  subgoal using assms by (cases mp) (auto split: option.split)
  subgoal using assms by (cases dp) auto
  subgoal using assms by (cases dmp) auto
  subgoal using assms by (cases gp) (auto split: option.split)
  subgoal using assms by (cases gmp) (auto split: option.split)
  done

lemma goroutine_step_ok: "memory_ok s \<Longrightarrow> goroutine_step g s = Some (g', s') \<Longrightarrow> memory_ok s'"
  by (cases g) (simp_all, (metis store_steps_ok snd_conv)+)

lemma store_step_ok: "store_step\<^sup>*\<^sup>* c c' \<Longrightarrow> memory_ok (fst c) \<Longrightarrow> memory_ok (fst c')"
  by (induction rule: rtranclp_induct) (auto elim!: store_step.cases intro: goroutine_step_ok)

lemma goroutine_step_size: "goroutine_step g s = Some (g', s') \<Longrightarrow> smSize s' = smSize s"
proof (cases g)
  case (AddingMatch ep p)
  then show "goroutine_step g s = Some (g', s') \<Longrightarrow> smSize s' = smSize s" by (cases p) (auto split: option.splits)
next
  case (AddingMismatch p)
  then show "goroutine_step g s = Some (g', s') \<Longrightarrow> smSize s' = smSize s" by (cases p) (auto split: option.splits)
next
  case (DeletingMatches ep p)
  then show "goroutine_step g s = Some (g', s') \<Longrightarrow> smSize s' = smSize s" by (cases p) auto
next
  case (DeletingMismatches p)
  then show "goroutine_step g s = Some (g', s') \<Longrightarrow> smSize s' = smSize s" by (cases p) auto
next
  case (GettingMatches ep p)
  then show "goroutine_step g s = Some (g', s') \<Longrightarrow> smSize s' = smSize s" by (cases p) (auto split: option.splits)
next
  case (GettingMismatches p)
  then show "goroutine_step g s = Some (g', s') \<Longrightarrow> smSize s' = smSize s" by (cases p) (auto split: option.splits)
qed auto

lemma store_step_size: "store_step\<^sup>*\<^sup>* c c' \<Longrightarrow> smSize (fst c') = smSize (fst c)"
  by (induction rule: rtranclp_induct) (auto elim!: store_step.cases dest: goroutine_step_size)

text \<open>C14: An operation of the in-memory store whose steps are not interleaved with those of others is what the model
  of the server takes it for: from every memory that goroutines in parallel reach, a goroutine that has been called and
  not started can run to its end, with the answer and the effect of the whole operation.\<close>

theorem uninterrupted_store_operation:
  assumes "store_step\<^sup>*\<^sup>* (new_memory sz, map goroutine_of calls) (s, gs)" and "i < length gs" and "gs ! i = goroutine_of c"
  shows "\<exists>s'. store_step\<^sup>*\<^sup>* (s, gs) (s', gs[i := call_answer c (store_of s)]) \<and> store_of s' = call_effect c (store_of s)"
proof -
  have "memory_ok s" using store_step_ok [OF assms(1)] by simp
  from call_alone [OF this, of c] obtain s' where
    run: "alone_step\<^sup>*\<^sup>* (goroutine_of c, s) (call_answer c (store_of s), s')" and s': "store_of s' = call_effect c (store_of s)"
    by blast
  have "gs[i := goroutine_of c] = gs" using assms(3) by (metis list_update_id)
  with alone_in_parallel [OF run assms(2)] s' show ?thesis by auto
qed

theorem uninterrupted_store_operation_witness:
  "\<exists>s. store_step\<^sup>*\<^sup>* (new_memory 1, [AddingMatch ''a'' (Add_test (7::nat)), GettingMatches ''a'' Get_load])
      (s, [Returned, GettingMatches ''a'' Get_load :: (nat, nat) goroutine]) \<and> im_GetMatches ''a'' (store_of s) = [7]"
proof -
  let ?calls = "[Change (AddMatchOp ''a'' 7), ReadMatches ''a''] :: (nat, nat) store_call list"
  let ?s = "new_memory 1 :: (nat, nat) store_memory"
  from uninterrupted_store_operation [of 1 ?calls ?s "map goroutine_of ?calls" 0 "Change (AddMatchOp ''a'' 7)"]
  obtain s' where "store_step\<^sup>*\<^sup>* (?s, map goroutine_of ?calls) (s', [Returned, GettingMatches ''a'' Get_load])"
    "store_of s' = im_AddMatch ''a'' 7 (store_of ?s)" by auto
  moreover have "im_GetMatches ''a'' (im_AddMatch ''a'' (7::nat) (store_of ?s)) = [7]"
    by (simp add: new_memory_def store_of_def im_AddMatch_def im_GetMatches_def push_bounded_def Let_def)
  ultimately show ?thesis by (intro exI [of _ s']) simp
qed

end
