(* ===== verification/StoreRacesProps.thy ===== *)
theory StoreRacesProps
  imports StoreRaces
begin

text \<open>
  What overlapping operations of the in-memory store can do that whole operations cannot, and what no overlap can do.
\<close>

section \<open>Two additions at once\<close>

lemma two_in_parallel:
  "alone_step\<^sup>*\<^sup>* (g, s) (g', s') \<Longrightarrow> store_step\<^sup>*\<^sup>* (s, [g, h]) (s', [g', h])"
  "alone_step\<^sup>*\<^sup>* (g, s) (g', s') \<Longrightarrow> store_step\<^sup>*\<^sup>* (s, [h, g]) (s', [h, g'])"
  using alone_in_parallel [of "(g, s)" "(g', s')" 0 "[g, h]"] alone_in_parallel [of "(g, s)" "(g', s')" 1 "[h, g]"]
  by simp_all

lemma Remove_again [simp]: "Remove i (Remove i l) = Remove i l"
  by (simp add: Remove_def)

text \<open>Both additions push before either cuts, and both take the same front element.\<close>

lemma both_cut_once:
  assumes "memory_ok s" and "smMatches s ep = Some a"
    and "smSize s < (of_nat (length (values_of (smLists s ! a)) + 2) :: 16 word)"
  shows "\<exists>s'. store_step\<^sup>*\<^sup>* (s, [AddingMatch ep (Add_test m1), AddingMatch ep (Add_test m2)]) (s', [Returned, Returned])
    \<and> im_GetMatches ep (store_of s') = tl (values_of (smLists s ! a) @ [m1, m2]) \<and> smSize s' = smSize s"
proof -
  let ?l = "PushBack m2 (PushBack m1 (smLists s ! a))"
  have a: "a < length (smLists s)" using assms by (simp add: memory_ok_def)
  obtain i x where front: "Front ?l = Some (i, x)" using Front_None [of ?l] by (cases "Front ?l") auto
  have "values_of (Remove i ?l) = tl (values_of ?l)"
    using list_at_ok [OF assms(1,2)] by (intro Remove_front [OF _ front]) simp
  then have vals: "values_of (Remove i ?l) = tl (values_of (smLists s ! a) @ [m1, m2])" by simp
  have "store_step\<^sup>*\<^sup>* (s, [AddingMatch ep (Add_test m1), AddingMatch ep (Add_test m2)])
      (set_list a (PushBack m1 (smLists s ! a)) s, [AddingMatch ep (Add_check a), AddingMatch ep (Add_test m2)])"
    by (rule two_in_parallel add_to_check assms)+
  also have "store_step\<^sup>*\<^sup>* \<dots> (set_list a ?l s, [AddingMatch ep (Add_check a), AddingMatch ep (Add_check a)])"
    using two_in_parallel(2) [OF add_to_check [of "set_list a (PushBack m1 (smLists s ! a)) s" ep a m2]] a assms(2) by simp
  also have "store_step\<^sup>*\<^sup>* \<dots> (set_list a (Remove i ?l) s, [AddingMatch ep Add_read, AddingMatch ep Add_read])"
    by (rule run_schedule_steps [where sched = "[0, 1, 0, 1, 0, 1]"]) (use a assms(3) front in \<open>simp add: Len_values_of\<close>)
  finally obtain s' where run: "store_step\<^sup>*\<^sup>* (s, [AddingMatch ep (Add_test m1), AddingMatch ep (Add_test m2)])
      (s', [AddingMatch ep Add_read, AddingMatch ep Add_read])" and s': "s' = set_list a (Remove i ?l) s" by blast
  obtain c where "store_step\<^sup>*\<^sup>* (s', [AddingMatch ep Add_read, AddingMatch ep Add_read])
      (s'\<lparr>smMatchesCount := c\<rparr>, [Returned, Returned])"
    using run_schedule_steps [of "[0, 0, 1, 1]" "(s', [AddingMatch ep Add_read, AddingMatch ep Add_read])"] by simp
  with run have "store_step\<^sup>*\<^sup>* (s, [AddingMatch ep (Add_test m1), AddingMatch ep (Add_test m2)])
      (s'\<lparr>smMatchesCount := c\<rparr>, [Returned, Returned])" by (rule rtranclp_trans)
  moreover have "im_GetMatches ep (store_of (s'\<lparr>smMatchesCount := c\<rparr>)) = tl (values_of (smLists s ! a) @ [m1, m2])"
    using a assms(2) vals by (simp add: s' im_GetMatches_def store_of_def)
  ultimately show ?thesis by (intro exI [of _ "s'\<lparr>smMatchesCount := c\<rparr>"]) (simp add: s')
qed

lemma additions_keep_excess:
  assumes "unat (imsSize st) < 65534" and "length (im_GetMatches ep st) = unat (imsSize st) + 1"
  shows "length (im_GetMatches ep (fold (im_AddMatch ep) ms st)) = unat (imsSize st) + 1"
  using assms
proof (induction ms arbitrary: st)
  case (Cons m ms)
  have sz: "imsSize (im_AddMatch ep m st) = imsSize st" by (simp add: im_AddMatch_def Let_def)
  have "im_GetMatches ep (im_AddMatch ep m st) = push_bounded (imsSize st) (im_GetMatches ep st) m"
    by (auto simp: im_AddMatch_def im_GetMatches_def Let_def split: option.split)
  moreover have "imsSize st < (of_nat (unat (imsSize st) + 2) :: 16 word)"
    using Cons.prems(1) by (simp only: word_less_nat_alt) (subst unat_of_nat_16; simp)
  ultimately have "length (im_GetMatches ep (im_AddMatch ep m st)) = unat (imsSize st) + 1"
    using Cons.prems(2) by (simp add: push_bounded_def Let_def)
  with Cons show ?case by (simp add: sz)
qed simp

text \<open>C15: Two overlapping additions can lift a list over the capacity of the store for good: when a list is full, both can push,
  find it too long and take the same front element, of which the second \<open>Remove\<close> does nothing; the list then has one
  element more than the capacity, and keeps as many with every further addition.\<close>

theorem additions_exceed_capacity_for_good:
  assumes "store_step\<^sup>*\<^sup>* (new_memory sz, map goroutine_of calls) (s, gs)" and "0 < sz" and "unat sz < 65534"
    and "length (im_GetMatches ep (store_of s)) = unat sz"
  shows "\<exists>s'. store_step\<^sup>*\<^sup>* (s, [AddingMatch ep (Add_test m1), AddingMatch ep (Add_test m2)]) (s', [Returned, Returned])
    \<and> (\<forall>ms. length (im_GetMatches ep (fold (im_AddMatch ep) ms (store_of s'))) = unat sz + 1)"
proof -
  have ok: "memory_ok s" and sz: "smSize s = sz"
    using store_step_ok [OF assms(1)] store_step_size [OF assms(1)] by (simp_all add: new_memory_def memory_ok_new [unfolded new_memory_def])
  obtain a where a: "smMatches s ep = Some a" and len: "length (values_of (smLists s ! a)) = unat sz"
    using assms(2,4) by (auto simp: im_GetMatches_def store_of_def word_less_nat_alt split: option.splits)
  have "smSize s < (of_nat (length (values_of (smLists s ! a)) + 2) :: 16 word)"
    using assms(3) unfolding len sz word_less_nat_alt by (subst unat_of_nat_16) simp_all
  from both_cut_once [OF ok a this, of m1 m2] obtain s' where
    run: "store_step\<^sup>*\<^sup>* (s, [AddingMatch ep (Add_test m1), AddingMatch ep (Add_test m2)]) (s', [Returned, Returned])"
    and s': "im_GetMatches ep (store_of s') = tl (values_of (smLists s ! a) @ [m1, m2])" "smSize s' = smSize s" by blast
  have "imsSize (store_of s') = sz" by (simp add: store_of_def s' sz)
  with additions_keep_excess [of "store_of s'" ep] assms(3) run s' len show ?thesis by auto
qed

definition full_memory :: "(nat, nat) store_memory" where
  "full_memory = \<lparr>smSize = 1, smMatches = [''a'' \<mapsto> 0], smLists = [\<lparr>glNext = 1, glItems = [(0, 7)]\<rparr>],
     smMismatches = list_New, smMatchesCount = [''a'' \<mapsto> 1], smMismatchesCount = 0\<rparr>"

lemma full_memory_reached:
  "store_step\<^sup>*\<^sup>* (new_memory 1, map goroutine_of [Change (AddMatchOp ''a'' 7)]) (full_memory, [Returned])"
  by (rule run_schedule_steps [where sched = "[0, 0, 0, 0, 0, 0, 0]"])
    (simp add: full_memory_def new_memory_def set_list_def count_of_def PushBack_def list_New_def Len_def)

theorem additions_exceed_capacity_for_good_witness:
  "\<exists>s'. store_step\<^sup>*\<^sup>* (full_memory, [AddingMatch ''a'' (Add_test 8), AddingMatch ''a'' (Add_test 9)]) (s', [Returned, Returned])
    \<and> (\<forall>ms. length (im_GetMatches ''a'' (fold (im_AddMatch ''a'') ms (store_of s'))) = 2)"
proof -
  have "length (im_GetMatches ''a'' (store_of full_memory)) = unat (1 :: 16 word)" by code_simp
  from additions_exceed_capacity_for_good [OF full_memory_reached _ _ this, of 8 9] show ?thesis by (simp add: numeral_2_eq_2)
qed

section \<open>An addition and a deletion at once\<close>

lemma cut_after_delete:
  assumes "memory_ok s" and "smMatches s ep = Some a"
    and "smSize s < (of_nat (length (values_of (smLists s ! a)) + 1) :: 16 word)"
  shows "\<exists>s'. store_step\<^sup>*\<^sup>* (s, [AddingMatch ep (Add_test m), DeletingMatches ep Del_load]) (s', [Panicked nil_deref, Returned])
    \<and> im_GetMatches ep (store_of s') = [] \<and> count_of ep s' = 0"
proof -
  let ?s1 = "set_list a (PushBack m (smLists s ! a)) s"
  have a: "a < length (smLists s)" using assms by (simp add: memory_ok_def)
  have ok: "memory_ok ?s1" using assms(1) by simp
  have "store_step\<^sup>*\<^sup>* (s, [AddingMatch ep (Add_test m), DeletingMatches ep Del_load])
      (?s1, [AddingMatch ep (Add_check a), DeletingMatches ep Del_load])"
    by (rule two_in_parallel add_to_check assms)+
  also have "store_step\<^sup>*\<^sup>* \<dots> (?s1, [AddingMatch ep (Add_front a), DeletingMatches ep Del_load])"
    by (rule run_schedule_steps [where sched = "[0]"]) (use a assms(3) in \<open>simp add: Len_values_of\<close>)
  finally have run: "store_step\<^sup>*\<^sup>* (s, [AddingMatch ep (Add_test m), DeletingMatches ep Del_load])
      (?s1, [AddingMatch ep (Add_front a), DeletingMatches ep Del_load])" .
  obtain s2 where del: "alone_step\<^sup>*\<^sup>* (DeletingMatches ep Del_load, ?s1) (Returned, s2)"
    and s2: "store_of s2 = im_DeleteMatches ep (store_of ?s1)" "smMatches s2 ep = Some a"
    using delete_alone [OF ok, of ep] assms(2) by auto
  have gone: "im_GetMatches ep (store_of s2) = []" "count_of ep s2 = 0"
    using s2(1) arg_cong [OF s2(1), where f = "\<lambda>st. imsMatchesCount st ep"]
    by (auto simp: im_DeleteMatches_def im_GetMatches_def count_of_def split: option.splits) (simp_all add: store_of_def)
  then have front: "Front (smLists s2 ! a) = None" using s2(2) by (simp add: im_GetMatches_def store_of_def)
  have "store_step\<^sup>*\<^sup>* (s2, [AddingMatch ep (Add_front a), Returned]) (s2, [Panicked nil_deref, Returned])"
    by (rule run_schedule_steps [where sched = "[0, 0]"]) (simp add: front)
  with run two_in_parallel(2) [OF del] gone show ?thesis by (meson rtranclp_trans)
qed

text \<open>C17: A deletion makes an overlapping addition panic: when a list is full, the addition can find it too long before the
  deletion empties it and take the front element after, which is nil, so that \<open>Remove\<close> dereferences a nil pointer; its
  request is recorded nowhere.\<close>

theorem deletion_makes_addition_panic:
  assumes "store_step\<^sup>*\<^sup>* (new_memory sz, map goroutine_of calls) (s, gs)" and "0 < sz" and "unat sz < 65535"
    and "length (im_GetMatches ep (store_of s)) = unat sz"
  shows "\<exists>s'. store_step\<^sup>*\<^sup>* (s, [AddingMatch ep (Add_test m), DeletingMatches ep Del_load]) (s', [Panicked nil_deref, Returned])
    \<and> im_GetMatches ep (store_of s') = [] \<and> im_GetMatchesCount ep (store_of s') = 0"
proof -
  have ok: "memory_ok s" and sz: "smSize s = sz"
    using store_step_ok [OF assms(1)] store_step_size [OF assms(1)] by (simp_all add: new_memory_def memory_ok_new [unfolded new_memory_def])
  obtain a where a: "smMatches s ep = Some a" and len: "length (values_of (smLists s ! a)) = unat sz"
    using assms(2,4) by (auto simp: im_GetMatches_def store_of_def word_less_nat_alt split: option.splits)
  have "smSize s < (of_nat (length (values_of (smLists s ! a)) + 1) :: 16 word)"
    using assms(3) unfolding len sz word_less_nat_alt by (subst unat_of_nat_16) simp_all
  moreover have "im_GetMatchesCount ep (store_of s') = count_of ep s'" for s' :: "('a, 'b) store_memory"
    by (simp add: im_GetMatchesCount_def count_of_def store_of_def)
  ultimately show ?thesis using cut_after_delete [OF ok a, of m] by simp
qed

theorem deletion_makes_addition_panic_witness:
  "\<exists>s'. store_step\<^sup>*\<^sup>* (full_memory, [AddingMatch ''a'' (Add_test 8), DeletingMatches ''a'' Del_load]) (s', [Panicked nil_deref, Returned])
    \<and> im_GetMatches ''a'' (store_of s') = [] \<and> im_GetMatchesCount ''a'' (store_of s') = 0"
proof -
  have "length (im_GetMatches ''a'' (store_of full_memory)) = unat (1 :: 16 word)" by code_simp
  from deletion_makes_addition_panic [OF full_memory_reached _ _ this, of 8] show ?thesis by simp
qed

section \<open>What holds in every overlap\<close>

text \<open>A list is made for one endpoint (\<open>own\<close>), also when another list takes its place in the map. Where a goroutine can be,
  given the call it runs; \<open>A\<close> has the matches that are added, \<open>B\<close> the mismatches.\<close>

definition owned :: "(nat \<Rightarrow> string) \<Rightarrow> ('m, 'mm) store_memory \<Rightarrow> string \<Rightarrow> nat \<Rightarrow> bool" where
  "owned own s ep a \<longleftrightarrow> a < length (smLists s) \<and> own a = ep"

primrec add_pos_ok :: "(nat \<Rightarrow> string) \<Rightarrow> ('m, 'mm) store_memory \<Rightarrow> string \<Rightarrow> 'm \<Rightarrow> 'm add_pos \<Rightarrow> bool" where
  "add_pos_ok own s ep m (Add_test m') = (m' = m)"
| "add_pos_ok own s ep m (Add_make m') = (m' = m)"
| "add_pos_ok own s ep m (Add_load m') = (m' = m \<and> smMatches s ep \<noteq> None)"
| "add_pos_ok own s ep m (Add_push a m') = (m' = m \<and> owned own s ep a)"
| "add_pos_ok own s ep m (Add_check a) = owned own s ep a"
| "add_pos_ok own s ep m (Add_front a) = owned own s ep a"
| "add_pos_ok own s ep m (Add_remove a e) = owned own s ep a"
| "add_pos_ok own s ep m Add_read = True"
| "add_pos_ok own s ep m (Add_write n) = True"

primrec get_pos_ok :: "(nat \<Rightarrow> string) \<Rightarrow> ('m, 'mm) store_memory \<Rightarrow> (string \<Rightarrow> 'm set) \<Rightarrow> string \<Rightarrow> 'm get_pos \<Rightarrow> bool" where
  "get_pos_ok own s A ep Get_load = True"
| "get_pos_ok own s A ep (Get_front a) = owned own s ep a"
| "get_pos_ok own s A ep (Get_next a i res) = (owned own s ep a \<and> set res \<subseteq> A ep)"

fun goroutine_ok ::
  "(nat \<Rightarrow> string) \<Rightarrow> ('m, 'mm) store_memory \<Rightarrow> (string \<Rightarrow> 'm set) \<Rightarrow> 'mm set
     \<Rightarrow> ('m, 'mm) store_call \<Rightarrow> ('m, 'mm) goroutine \<Rightarrow> bool" where
  "goroutine_ok own s A B (Change (AddMatchOp ep m)) (AddingMatch ep' p) = (ep' = ep \<and> add_pos_ok own s ep m p)"
| "goroutine_ok own s A B (Change (AddMismatchOp mm)) (AddingMismatch p) = (\<forall>mm'. p = Mis_push mm' \<longrightarrow> mm' = mm)"
| "goroutine_ok own s A B (Change (DeleteMatchesOp ep)) (DeletingMatches ep' p) = (ep' = ep)"
| "goroutine_ok own s A B (Change DeleteMismatchesOp) (DeletingMismatches p) = True"
| "goroutine_ok own s A B (ReadMatches ep) (GettingMatches ep' p) = (ep' = ep \<and> get_pos_ok own s A ep p)"
| "goroutine_ok own s A B (ReadMatches ep) (GotMatches ms) = (set ms \<subseteq> A ep)"
| "goroutine_ok own s A B ReadMismatches (GettingMismatches p) = (\<forall>i res. p = GetMis_next i res \<longrightarrow> set res \<subseteq> B)"
| "goroutine_ok own s A B ReadMismatches (GotMismatches mms) = (set mms \<subseteq> B)"
| "goroutine_ok own s A B (Change op) Returned = True"
| "goroutine_ok own s A B (Change (AddMatchOp ep m)) (Panicked e) = True"
| "goroutine_ok own s A B (Change (AddMismatchOp mm)) (Panicked e) = True"
| "goroutine_ok own s A B c g = False"

definition lists_hold :: "(nat \<Rightarrow> string) \<Rightarrow> (string \<Rightarrow> 'm set) \<Rightarrow> 'mm set \<Rightarrow> ('m, 'mm) store_memory \<Rightarrow> bool" where
  "lists_hold own A B s \<longleftrightarrow> (\<forall>ep a. smMatches s ep = Some a \<longrightarrow> owned own s ep a)
     \<and> (\<forall>a<length (smLists s). set (values_of (smLists s ! a)) \<subseteq> A (own a)) \<and> set (values_of (smMismatches s)) \<subseteq> B"

text \<open>What a step may make of the memory without disturbing the other goroutines.\<close>

definition memory_grows :: "(nat \<Rightarrow> string) \<Rightarrow> (nat \<Rightarrow> string) \<Rightarrow> ('m, 'mm) store_memory \<Rightarrow> ('m, 'mm) store_memory \<Rightarrow> bool" where
  "memory_grows own own' s s' \<longleftrightarrow> length (smLists s) \<le> length (smLists s') \<and> (\<forall>a<length (smLists s). own' a = own a)
     \<and> (\<forall>ep. smMatches s ep \<noteq> None \<longrightarrow> smMatches s' ep \<noteq> None)"

lemma owned_grows: "memory_grows own own' s s' \<Longrightarrow> owned own s ep a \<Longrightarrow> owned own' s' ep a"
  by (auto simp: memory_grows_def owned_def)

lemma add_pos_grows: "memory_grows own own' s s' \<Longrightarrow> add_pos_ok own s ep m p \<Longrightarrow> add_pos_ok own' s' ep m p"
  by (cases p) (auto intro: owned_grows, simp add: memory_grows_def)

lemma get_pos_grows: "memory_grows own own' s s' \<Longrightarrow> get_pos_ok own s A ep p \<Longrightarrow> get_pos_ok own' s' A ep p"
  by (cases p) (auto intro: owned_grows)

lemma goroutine_grows: "memory_grows own own' s s' \<Longrightarrow> goroutine_ok own s A B c g \<Longrightarrow> goroutine_ok own' s' A B c g"
  by (induction own s A B c g rule: goroutine_ok.induct) (auto intro: add_pos_grows get_pos_grows)

lemma values_of_Remove: "set (values_of (Remove i l)) \<subseteq> set (values_of l)"
  by (auto simp: values_of_def Remove_def)

lemma values_of_Front: "Front l = Some (i, x) \<Longrightarrow> x \<in> set (values_of l)"
  by (auto simp: values_of_def Front_def split: list.splits)

lemma values_of_Next: "Next i l = Some (j, x) \<Longrightarrow> x \<in> set (values_of l)"
proof -
  assume "Next i l = Some (j, x)"
  then have "(j, x) \<in> set (dropWhile (\<lambda>(k, y). k \<noteq> i) (glItems l))" by (auto simp: Next_def split: list.splits)
  then show "x \<in> set (values_of l)" by (force simp: values_of_def dest: set_dropWhileD)
qed

lemma lists_hold_set_list:
  "lists_hold own A B s \<Longrightarrow> a < length (smLists s) \<Longrightarrow> set (values_of l) \<subseteq> A (own a) \<Longrightarrow> lists_hold own A B (set_list a l s)"
  by (auto simp: lists_hold_def owned_def set_list_def nth_list_update subset_iff)

lemma lists_holdD: "lists_hold own A B s \<Longrightarrow> owned own s ep a \<Longrightarrow> set (values_of (smLists s ! a)) \<subseteq> A ep"
  by (auto simp: lists_hold_def owned_def)

lemma lists_hold_counts [simp]:
  "lists_hold own A B (s\<lparr>smMatchesCount := c\<rparr>) = lists_hold own A B s"
  "lists_hold own A B (s\<lparr>smMismatchesCount := n\<rparr>) = lists_hold own A B s"
  by (simp_all add: lists_hold_def owned_def)

lemma grows_refl [simp]:
  "memory_grows own own s s" "memory_grows own own s (set_list a l s)" "memory_grows own own s (s\<lparr>smMismatches := l'\<rparr>)"
  "memory_grows own own s (s\<lparr>smMatchesCount := c\<rparr>)" "memory_grows own own s (s\<lparr>smMismatchesCount := n\<rparr>)"
  by (simp_all add: memory_grows_def)

lemma lists_hold_add:
  assumes "lists_hold own A B s" and "owned own s ep a" and "m \<in> A ep"
  shows "lists_hold own A B (set_list a (PushBack m (smLists s ! a)) s)"
  using lists_holdD [OF assms(1,2)] assms by (intro lists_hold_set_list) (auto simp: owned_def)

lemma lists_hold_remove:
  assumes "lists_hold own A B s"
  shows "lists_hold own A B (set_list a (Remove i (smLists s ! a)) s)"
proof (cases "a < length (smLists s)")
  case True
  with assms have "set (values_of (smLists s ! a)) \<subseteq> A (own a)" by (simp add: lists_hold_def)
  with True assms show ?thesis by (intro lists_hold_set_list order_trans [OF values_of_Remove])
next
  case False
  then show ?thesis using assms by (simp add: set_list_def list_update_beyond)
qed

lemma owned_set_list [simp]: "owned own (set_list a l s) ep a' = owned own s ep a'"
  by (simp add: owned_def)

lemma AddMatch_keeps:
  assumes "lists_hold own A B s" and "add_pos_ok own s ep m p" and "m \<in> A ep"
  shows "\<exists>own'. memory_grows own own' s (snd (AddMatch_step ep p s)) \<and> lists_hold own' A B (snd (AddMatch_step ep p s))
    \<and> goroutine_ok own' (snd (AddMatch_step ep p s)) A B (Change (AddMatchOp ep m)) (fst (AddMatch_step ep p s))"
proof (cases p)
  case (Add_make m')
  let ?own = "own(length (smLists s) := ep)"
  have "lists_hold ?own A B (snd (AddMatch_step ep p s))"
    using assms(1) unfolding lists_hold_def owned_def
    by (auto simp: Add_make nth_append less_Suc_eq)
  then show ?thesis using assms(2)
    by (intro exI [of _ ?own]) (simp add: Add_make memory_grows_def)
next
  case (Add_load m')
  with assms show ?thesis by (intro exI [of _ own]) (auto simp: lists_hold_def)
next
  case (Add_push a m')
  with assms show ?thesis by (intro exI [of _ own]) (auto intro: lists_hold_add)
next
  case (Add_remove a e)
  with assms show ?thesis by (intro exI [of _ own]) (simp add: lists_hold_remove split: option.split)
qed (use assms in \<open>auto intro!: exI [of _ own]\<close>)

lemma reads_keep:
  assumes "lists_hold own A B s"
  shows "get_pos_ok own s A ep p \<Longrightarrow> snd (GetMatches_step ep p s) = s
      \<and> goroutine_ok own s A B (ReadMatches ep) (fst (GetMatches_step ep p s))"
    and "\<forall>i res. mp = GetMis_next i res \<longrightarrow> set res \<subseteq> B \<Longrightarrow> snd (GetMismatches_step mp s) = s
      \<and> goroutine_ok own s A B ReadMismatches (fst (GetMismatches_step mp s))"
proof -
  have B: "set (values_of (smMismatches s)) \<subseteq> B" and own: "smMatches s ep = Some a \<Longrightarrow> owned own s ep a" for a
    using assms by (simp_all add: lists_hold_def)
  note mem = values_of_Front [THEN subsetD [rotated]] values_of_Next [THEN subsetD [rotated]]
  show "get_pos_ok own s A ep p \<Longrightarrow> snd (GetMatches_step ep p s) = s
      \<and> goroutine_ok own s A B (ReadMatches ep) (fst (GetMatches_step ep p s))"
    using own by (cases p) (auto split: option.split intro: mem [OF _ lists_holdD [OF assms]])
  show "\<forall>i res. mp = GetMis_next i res \<longrightarrow> set res \<subseteq> B \<Longrightarrow> snd (GetMismatches_step mp s) = s
      \<and> goroutine_ok own s A B ReadMismatches (fst (GetMismatches_step mp s))"
    by (cases mp) (auto split: option.split intro: mem [OF _ B])
qed

lemma other_steps_keep:
  assumes "lists_hold own A B s"
  shows "memory_grows own own s (snd (AddMismatch_step mp s))" "memory_grows own own s (snd (DeleteMatches_step ep dp s))"
    "memory_grows own own s (snd (DeleteMismatches_step dmp s))"
    and "lists_hold own A B (snd (DeleteMatches_step ep dp s))" "lists_hold own A B (snd (DeleteMismatches_step dmp s))"
    and "(\<And>mm. mp = Mis_push mm \<Longrightarrow> mm \<in> B) \<Longrightarrow> lists_hold own A B (snd (AddMismatch_step mp s))"
  subgoal by (cases mp) (auto split: option.split)
  subgoal by (cases dp) auto
  subgoal by (cases dmp) auto
  subgoal using assms by (cases dp) (auto intro: lists_hold_remove)
  subgoal using assms by (cases dmp) (auto simp: lists_hold_def owned_def dest: values_of_Remove [THEN subsetD])
  subgoal using assms
    by (cases mp) (auto simp: lists_hold_def owned_def split: option.split dest: values_of_Remove [THEN subsetD])
  done

definition called_in :: "(string \<Rightarrow> 'm set) \<Rightarrow> 'mm set \<Rightarrow> ('m, 'mm) store_call \<Rightarrow> bool" where
  "called_in A B c \<longleftrightarrow> (\<forall>ep m. c = Change (AddMatchOp ep m) \<longrightarrow> m \<in> A ep) \<and> (\<forall>mm. c = Change (AddMismatchOp mm) \<longrightarrow> mm \<in> B)"

lemma goroutine_keeps:
  assumes "lists_hold own A B s" and "goroutine_ok own s A B c g" and "called_in A B c"
    and "goroutine_step g s = Some (g', s')"
  shows "\<exists>own'. memory_grows own own' s s' \<and> lists_hold own' A B s' \<and> goroutine_ok own' s' A B c g'"
proof (cases g)
  case (AddingMatch ep p)
  with assms(2) obtain m where c: "c = Change (AddMatchOp ep m)" "add_pos_ok own s ep m p"
    by (cases "(own, s, A, B, c, g)" rule: goroutine_ok.cases) auto
  with AddMatch_keeps [OF assms(1) c(2)] assms(3,4) AddingMatch show ?thesis by (simp add: called_in_def)
next
  case (AddingMismatch p)
  with assms(2) obtain mm where c: "c = Change (AddMismatchOp mm)" "\<forall>mm'. p = Mis_push mm' \<longrightarrow> mm' = mm"
    by (cases "(own, s, A, B, c, g)" rule: goroutine_ok.cases) auto
  have "(g', s') = AddMismatch_step p s" using assms(4) AddingMismatch by simp
  moreover have "goroutine_ok own s' A B c (fst (AddMismatch_step p s))"
    unfolding c(1) by (cases p) (auto split: option.split)
  ultimately show ?thesis
    using other_steps_keep(1,6) [OF assms(1), of p] c assms(3) by (metis called_in_def fst_conv snd_conv)
next
  case (DeletingMatches ep p)
  with assms(2) have c: "c = Change (DeleteMatchesOp ep)"
    by (cases "(own, s, A, B, c, g)" rule: goroutine_ok.cases) auto
  have "(g', s') = DeleteMatches_step ep p s" using assms(4) DeletingMatches by simp
  moreover have "goroutine_ok own s' A B c (fst (DeleteMatches_step ep p s))"
    unfolding c by (cases p) auto
  ultimately show ?thesis
    using other_steps_keep(2,4) [OF assms(1), of ep p] by (metis fst_conv snd_conv)
next
  case (DeletingMismatches p)
  with assms(2) have c: "c = Change DeleteMismatchesOp"
    by (cases "(own, s, A, B, c, g)" rule: goroutine_ok.cases) auto
  have "(g', s') = DeleteMismatches_step p s" using assms(4) DeletingMismatches by simp
  moreover have "goroutine_ok own s' A B c (fst (DeleteMismatches_step p s))"
    unfolding c by (cases p) auto
  ultimately show ?thesis
    using other_steps_keep(3,5) [OF assms(1), of p] by (metis fst_conv snd_conv)
next
  case (GettingMatches ep p)
  with assms(2) have c: "c = ReadMatches ep" "get_pos_ok own s A ep p"
    by (cases "(own, s, A, B, c, g)" rule: goroutine_ok.cases; auto)+
  have "(g', s') = GetMatches_step ep p s" using assms(4) GettingMatches by simp
  with reads_keep(1) [OF assms(1) c(2)] assms(1) c(1) show ?thesis
    by (intro exI [of _ own]) (metis fst_conv snd_conv grows_refl(1))
next
  case (GettingMismatches p)
  with assms(2) have c: "c = ReadMismatches" "\<forall>i res. p = GetMis_next i res \<longrightarrow> set res \<subseteq> B"
    by (cases "(own, s, A, B, c, g)" rule: goroutine_ok.cases; auto)+
  have "(g', s') = GetMismatches_step p s" using assms(4) GettingMismatches by simp
  with reads_keep(2) [OF assms(1) c(2)] assms(1) c(1) show ?thesis
    by (intro exI [of _ own]) (metis fst_conv snd_conv grows_refl(1))
qed (use assms(4) in simp_all)

definition added_for :: "('m, 'mm) store_call list \<Rightarrow> string \<Rightarrow> 'm set" where
  "added_for calls ep = {m. Change (AddMatchOp ep m) \<in> set calls}"

definition mismatches_added :: "('m, 'mm) store_call list \<Rightarrow> 'mm set" where
  "mismatches_added calls = {mm. Change (AddMismatchOp mm) \<in> set calls}"

definition overlap_ok :: "('m, 'mm) store_call list \<Rightarrow> ('m, 'mm) in_parallel \<Rightarrow> bool" where
  "overlap_ok calls c \<longleftrightarrow> memory_ok (fst c) \<and>
     (\<exists>own. lists_hold own (added_for calls) (mismatches_added calls) (fst c)
       \<and> list_all2 (goroutine_ok own (fst c) (added_for calls) (mismatches_added calls)) calls (snd c))"

lemma goroutine_of_ok: "goroutine_ok own s A B c (goroutine_of c)"
proof (cases c)
  case (Change op)
  then show ?thesis by (cases op) simp_all
qed simp_all

lemma overlap_ok_start: "overlap_ok calls (new_memory sz, map goroutine_of calls)"
  by (auto simp: overlap_ok_def list_all2_conv_all_nth goroutine_of_ok)
    (simp add: lists_hold_def new_memory_def)

lemma overlap_ok_step: "store_step c c' \<Longrightarrow> overlap_ok calls c \<Longrightarrow> overlap_ok calls c'"
proof (induction rule: store_step.induct)
  case (Step i gs s g s')
  let ?A = "added_for calls" and ?B = "mismatches_added calls"
  from Step.prems obtain own where ok: "memory_ok s" and holds: "lists_hold own ?A ?B s"
    and gs: "list_all2 (goroutine_ok own s ?A ?B) calls gs" by (auto simp: overlap_ok_def)
  have i: "i < length calls" using Step.hyps(1) list_all2_lengthD [OF gs] by simp
  then have "called_in ?A ?B (calls ! i)"
    by (auto simp: called_in_def added_for_def mismatches_added_def) (metis nth_mem)+
  from goroutine_keeps [OF holds list_all2_nthD [OF gs i] this Step.hyps(2)]
  obtain own' where own': "memory_grows own own' s s'" "lists_hold own' ?A ?B s'" "goroutine_ok own' s' ?A ?B (calls ! i) g" by blast
  have "list_all2 (goroutine_ok own' s' ?A ?B) calls gs"
    using gs goroutine_grows [OF own'(1)] by (auto elim: list_all2_mono)
  then have "list_all2 (goroutine_ok own' s' ?A ?B) (calls[i := calls ! i]) (gs[i := g])"
    using own'(3) by (rule list_all2_update_cong)
  with own'(2) goroutine_step_ok [OF ok Step.hyps(2)] show ?case
    unfolding overlap_ok_def fst_conv snd_conv list_update_id by blast
qed

lemma overlap_ok_run:
  "store_step\<^sup>*\<^sup>* c c' \<Longrightarrow> overlap_ok calls c \<Longrightarrow> overlap_ok calls c'"
  by (induction rule: rtranclp_induct) (simp_all add: overlap_ok_step)

lemmas overlap_reachable = overlap_ok_run [OF _ overlap_ok_start]

section \<open>Additions without deletions do not panic\<close>

text \<open>The goroutines that have pushed on a list and not cut it.\<close>

fun cutting :: "nat \<Rightarrow> ('m, 'mm) goroutine \<Rightarrow> bool" where
  "cutting a (AddingMatch ep (Add_check a')) = (a' = a)"
| "cutting a (AddingMatch ep (Add_front a')) = (a' = a)"
| "cutting a (AddingMatch ep (Add_remove a' e)) = (a' = a)"
| "cutting a _ = False"

fun cutting_mismatches :: "('m, 'mm) goroutine \<Rightarrow> bool" where
  "cutting_mismatches (AddingMismatch Mis_check) = True"
| "cutting_mismatches (AddingMismatch Mis_front) = True"
| "cutting_mismatches (AddingMismatch (Mis_remove e)) = True"
| "cutting_mismatches _ = False"

fun no_panic :: "('m, 'mm) goroutine \<Rightarrow> bool" where
  "no_panic (Panicked e) = False"
| "no_panic (AddingMatch ep (Add_remove a e)) = (e \<noteq> None)"
| "no_panic (AddingMismatch (Mis_remove e)) = (e \<noteq> None)"
| "no_panic _ = True"

fun deleting :: "('m, 'mm) goroutine \<Rightarrow> bool" where
  "deleting (DeletingMatches ep p) = True"
| "deleting (DeletingMismatches p) = True"
| "deleting _ = False"

definition filled :: "('m, 'mm) store_memory \<Rightarrow> nat \<Rightarrow> nat" where
  "filled s a = (if a < length (smLists s) then Len (smLists s ! a) else 0)"

definition lists_filled :: "('m, 'mm) in_parallel \<Rightarrow> bool" where
  "lists_filled c \<longleftrightarrow> list_all (\<lambda>g. no_panic g \<and> \<not> deleting g) (snd c)
     \<and> (\<forall>a. length (filter (cutting a) (snd c)) \<le> filled (fst c) a)
     \<and> length (filter cutting_mismatches (snd c)) \<le> Len (smMismatches (fst c))"

lemma filter_member: "i < length xs \<Longrightarrow> P (xs ! i) \<Longrightarrow> 0 < length (filter P xs)"
  by (auto simp: filter_empty_conv)

lemma Len_simps [simp]: "Len (PushBack x l) = Suc (Len l)" "Len list_New = 0"
  by (simp_all add: Len_values_of)

lemma length_filter_key: "distinct (map fst xs) \<Longrightarrow> length xs \<le> Suc (length (filter (\<lambda>e. fst e \<noteq> i) xs))"
proof (induction xs)
  case (Cons e xs)
  show ?case
  proof (cases "fst e = i")
    case True
    with Cons.prems have "filter (\<lambda>e. fst e \<noteq> i) xs = xs" by (force intro!: filter_True simp: image_iff)
    then show ?thesis by simp
  qed (use Cons in simp)
qed simp

lemma Len_Remove: "list_ok l \<Longrightarrow> Len l \<le> Suc (Len (Remove i l))"
  using length_filter_key [of "glItems l" i] by (simp add: Len_def Remove_def list_ok_def case_prod_unfold)

lemma set_list_other [simp]: "a \<noteq> b \<Longrightarrow> smLists (set_list b l s) ! a = smLists s ! a"
  by (simp add: set_list_def)

lemma filled_simps [simp]:
  "filled (s\<lparr>smMatchesCount := c\<rparr>) a = filled s a" "filled (s\<lparr>smMismatchesCount := n\<rparr>) a = filled s a"
  "filled (s\<lparr>smMismatches := l'\<rparr>) a = filled s a"
  "filled (s\<lparr>smMatches := f, smLists := smLists s @ [list_New]\<rparr>) a = filled s a"
  "b < length (smLists s) \<Longrightarrow> filled (set_list b l s) a = (if a = b then Len l else filled s a)"
  by (auto simp: filled_def set_list_def nth_append less_Suc_eq)

lemma mismatches_sel [simp]: "smMismatches (set_list a l s) = smMismatches s"
  by (simp add: set_list_def)

lemma filled_Remove:
  assumes "memory_ok s"
  shows "filled s a \<le> filled (set_list b (Remove i (smLists s ! b)) s) a + of_bool (b = a)"
proof (cases "b < length (smLists s)")
  case True
  then show ?thesis using Len_Remove [OF memory_list_ok [OF assms True], of i] by (auto simp: filled_def)
next
  case False
  then show ?thesis by (simp add: set_list_def list_update_beyond)
qed

lemma AddMatch_fills:
  assumes "memory_ok s" and "add_pos_ok own s ep m p"
  shows "filled s a + of_bool (cutting a (fst (AddMatch_step ep p s)))
      \<le> filled (snd (AddMatch_step ep p s)) a + of_bool (cutting a (AddingMatch ep p))"
proof (cases p)
  case (Add_push b m')
  with assms(2) have "b < length (smLists s)" by (simp add: owned_def)
  then show ?thesis by (auto simp: Add_push filled_def)
next
  case (Add_remove b e)
  with filled_Remove [OF assms(1), of a b "the e"] show ?thesis by (auto split: option.split)
qed (simp_all split: option.split)

lemma AddMatch_mismatches:
  "smMismatches (snd (AddMatch_step ep p s)) = smMismatches s" "\<not> cutting_mismatches (fst (AddMatch_step ep p s))"
  by (cases p; simp split: option.split)+

lemma AddMismatch_fills:
  assumes "memory_ok s"
  shows "filled (snd (AddMismatch_step p s)) a = filled s a" and "\<not> cutting a (fst (AddMismatch_step p s))"
    and "Len (smMismatches s) + of_bool (cutting_mismatches (fst (AddMismatch_step p s)))
      \<le> Len (smMismatches (snd (AddMismatch_step p s))) + of_bool (cutting_mismatches (AddingMismatch p))"
proof -
  show "filled (snd (AddMismatch_step p s)) a = filled s a" by (cases p) (simp_all split: option.split)
  show "\<not> cutting a (fst (AddMismatch_step p s))" by (cases p) (simp_all split: option.split)
  have "Len (smMismatches s) \<le> Suc (Len (Remove i (smMismatches s)))" for i
    using Len_Remove [OF memory_mismatches_ok [OF assms]] .
  then show "Len (smMismatches s) + of_bool (cutting_mismatches (fst (AddMismatch_step p s)))
      \<le> Len (smMismatches (snd (AddMismatch_step p s))) + of_bool (cutting_mismatches (AddingMismatch p))"
    by (cases p) (simp_all split: option.split)
qed

lemma reads_cut_nothing:
  "\<not> cutting a (fst (GetMatches_step ep p s)) \<and> \<not> cutting_mismatches (fst (GetMatches_step ep p s))
     \<and> snd (GetMatches_step ep p s) = s"
  by (cases p) (simp_all split: option.split)

lemma mismatch_reads_cut_nothing:
  "\<not> cutting a (fst (GetMismatches_step p s)) \<and> \<not> cutting_mismatches (fst (GetMismatches_step p s))
     \<and> snd (GetMismatches_step p s) = s"
  by (cases p) (simp_all split: option.split)

lemma goroutine_fills:
  assumes "goroutine_step g s = Some (g', s')" and "memory_ok s" and "goroutine_ok own s A B c g" and "\<not> deleting g"
  shows "filled s a + of_bool (cutting a g') \<le> filled s' a + of_bool (cutting a g)
    \<and> Len (smMismatches s) + of_bool (cutting_mismatches g') \<le> Len (smMismatches s') + of_bool (cutting_mismatches g)"
proof (cases g)
  case (AddingMatch ep p)
  with assms(3) obtain m where "add_pos_ok own s ep m p"
    by (cases "(own, s, A, B, c, g)" rule: goroutine_ok.cases) auto
  from AddMatch_fills [OF assms(2) this, of a] AddMatch_mismatches [of ep p s] AddingMatch assms(1)
  show ?thesis
    by simp_all
next
  case (AddingMismatch p)
  with AddMismatch_fills(1,2) [OF assms(2), where p = p] AddMismatch_fills(3) [OF assms(2), of p] assms(1)
  show ?thesis
    by auto
next
  case (GettingMatches ep p)
  with assms(1) reads_cut_nothing [of _ ep p s]
  show ?thesis
    by auto
next
  case (GettingMismatches p)
  with assms(1) mismatch_reads_cut_nothing [of _ p s]
  show ?thesis
    by auto
qed (use assms(1,4) in simp_all)

text \<open>The front of a list that some goroutine is about to cut is there.\<close>

lemma goroutine_safe:
  assumes "goroutine_step g s = Some (g', s')" and "goroutine_ok own s A B c g" and "no_panic g" and "\<not> deleting g"
    and "\<And>a. cutting a g \<Longrightarrow> 0 < filled s a" and "cutting_mismatches g \<Longrightarrow> 0 < Len (smMismatches s)"
  shows "no_panic g' \<and> \<not> deleting g'"
proof (cases g)
  case (AddingMatch ep p)
  with assms(2) obtain m where ok: "add_pos_ok own s ep m p"
    by (cases "(own, s, A, B, c, g)" rule: goroutine_ok.cases) auto
  have "values_of (smLists s ! a) \<noteq> []" if "cutting a g" for a
    using assms(5) [OF that] by (auto simp: filled_def Len_values_of split: if_splits)
  with assms(1,3) ok AddingMatch show ?thesis by (cases p) (auto split: option.splits)
next
  case (AddingMismatch p)
  have "values_of (smMismatches s) \<noteq> []" if "cutting_mismatches g"
    using assms(6) [OF that] by (auto simp: Len_values_of)
  with assms(1,3) AddingMismatch show ?thesis by (cases p) (auto split: option.splits)
next
  case (GettingMatches ep p)
  with assms(1) show ?thesis by (cases p) (auto split: option.splits)
next
  case (GettingMismatches p)
  with assms(1) show ?thesis by (cases p) (auto split: option.splits)
qed (use assms(1,4) in simp_all)

lemma lists_filled_step: "store_step c c' \<Longrightarrow> overlap_ok calls c \<Longrightarrow> lists_filled c \<Longrightarrow> lists_filled c'"
proof (induction rule: store_step.induct)
  case (Step i gs s g s')
  from Step.prems(1) obtain own where ok: "memory_ok s"
    and gs: "list_all2 (goroutine_ok own s (added_for calls) (mismatches_added calls)) calls gs" by (auto simp: overlap_ok_def)
  have i: "i < length calls" using Step.hyps(1) list_all2_lengthD [OF gs] by simp
  note pos = list_all2_nthD [OF gs i]
  from Step.prems(2) have all: "list_all (\<lambda>g. no_panic g \<and> \<not> deleting g) gs"
    and lists: "\<And>a. length (filter (cutting a) gs) \<le> filled s a"
    and mismatches: "length (filter cutting_mismatches gs) \<le> Len (smMismatches s)" by (simp_all add: lists_filled_def)
  have gi: "no_panic (gs ! i)" "\<not> deleting (gs ! i)" using all Step.hyps(1) by (simp_all add: list_all_length)
  have "no_panic g \<and> \<not> deleting g"
  proof (rule goroutine_safe [OF Step.hyps(2) pos gi])
    show "0 < filled s a" if "cutting a (gs ! i)" for a
      using filter_member [of i gs "cutting a", OF Step.hyps(1) that] lists [of a] by linarith
    show "0 < Len (smMismatches s)" if "cutting_mismatches (gs ! i)"
      using filter_member [of i gs cutting_mismatches, OF Step.hyps(1) that] mismatches by linarith
  qed
  then have "list_all (\<lambda>g. no_panic g \<and> \<not> deleting g) (gs[i := g])"
    using all by (auto simp: list_all_iff dest!: set_update_subset_insert [THEN subsetD])
  moreover have "length (filter (cutting a) (gs[i := g])) \<le> filled s' a" for a
    using length_filter_update [OF Step.hyps(1), of "cutting a" g] lists [of a]
      goroutine_fills [OF Step.hyps(2) ok pos gi(2), of a, THEN conjunct1] by linarith
  moreover have "length (filter cutting_mismatches (gs[i := g])) \<le> Len (smMismatches s')"
    using length_filter_update [OF Step.hyps(1), of cutting_mismatches g] mismatches
      goroutine_fills [OF Step.hyps(2) ok pos gi(2), THEN conjunct2] by linarith
  ultimately show ?case by (simp add: lists_filled_def)
qed

primrec is_deletion :: "('m, 'mm) store_call \<Rightarrow> bool" where
  "is_deletion (Change op) = (case op of AddMatchOp ep m \<Rightarrow> False | AddMismatchOp mm \<Rightarrow> False | _ \<Rightarrow> True)"
| "is_deletion (ReadMatches ep) = False"
| "is_deletion ReadMismatches = False"

lemma goroutine_of_starts:
  "\<not> cutting a (goroutine_of c) \<and> \<not> cutting_mismatches (goroutine_of c) \<and> no_panic (goroutine_of c)
     \<and> (\<not> is_deletion c \<longrightarrow> \<not> deleting (goroutine_of c))"
proof (cases c)
  case (Change op)
  then show ?thesis by (cases op) simp_all
qed simp_all

lemma lists_filled_run:
  "store_step\<^sup>*\<^sup>* c c' \<Longrightarrow> overlap_ok calls c \<Longrightarrow> lists_filled c \<Longrightarrow> lists_filled c'"
  by (induction rule: rtranclp_induct) (auto intro: lists_filled_step overlap_ok_run)

lemma lists_filled_start:
  "list_all (\<lambda>c. \<not> is_deletion c) calls \<Longrightarrow> lists_filled (new_memory sz, map goroutine_of calls)"
  by (auto simp: lists_filled_def goroutine_of_starts list_all_iff filter_empty_conv filter_map o_def)



end
