(* ===== verification/StoreCounts.thy ===== *)
theory StoreCounts
  imports StoreRacesProps
begin

text \<open>
  The counter of an endpoint after additions that overlap: which values it can have. The counter is read and written
  in two accesses (\<open>s.matchesCount[endpointID]++\<close>), so that additions between them are lost.
\<close>

section \<open>At most one for every addition, and at least one\<close>

definition returned :: "('m, 'mm) goroutine list \<Rightarrow> nat" where
  "returned gs = length (filter (\<lambda>g. g = Returned) gs)"

fun to_write :: "string \<Rightarrow> ('m, 'mm) goroutine \<Rightarrow> 64 word" where
  "to_write ep (AddingMatch ep' (Add_write n)) = n"
| "to_write ep g = 0"

definition counts_ok :: "string \<Rightarrow> ('m, 'mm) in_parallel \<Rightarrow> bool" where
  "counts_ok ep c \<longleftrightarrow> unat (count_of ep (fst c)) \<le> returned (snd c)
     \<and> (\<forall>g\<in>set (snd c). (g = Returned \<or> (\<exists>p. g = AddingMatch ep p)) \<and> unat (to_write ep g) \<le> returned (snd c))
     \<and> (0 < returned (snd c) \<longrightarrow> count_of ep (fst c) \<noteq> 0)"

lemma AddMatch_step_count:
  "(\<exists>n. p = Add_write n \<and> AddMatch_step ep p s = (Returned, s\<lparr>smMatchesCount := (smMatchesCount s)(ep \<mapsto> n + 1)\<rparr>))
   \<or> (\<forall>n. p \<noteq> Add_write n) \<and> count_of ep (snd (AddMatch_step ep p s)) = count_of ep s
     \<and> (fst (AddMatch_step ep p s) = Panicked nil_deref
       \<or> (\<exists>p'. fst (AddMatch_step ep p s) = AddingMatch ep p'
          \<and> (to_write ep (AddingMatch ep p' :: ('a, 'b) goroutine) = 0
            \<or> to_write ep (AddingMatch ep p' :: ('a, 'b) goroutine) = count_of ep s)))"
  for s :: "('a, 'b) store_memory"
  by (cases p) (auto simp: count_of_def set_list_def split: option.splits)

lemma returned_update:
  "i < length gs \<Longrightarrow> gs ! i \<noteq> Returned \<Longrightarrow> returned (gs[i := g]) = returned gs + of_bool (g = Returned)"
  using length_filter_update [of i gs "\<lambda>g. g = Returned" g] by (simp add: returned_def)

lemma returned_less: "i < length gs \<Longrightarrow> gs ! i \<noteq> Returned \<Longrightarrow> returned gs < length gs"
  unfolding returned_def by (rule length_filter_less) (auto intro: nth_mem)

lemma next_count: "unat n < k \<Longrightarrow> k < 2 ^ 64 \<Longrightarrow> unat (n + 1 :: 64 word) = unat n + 1"
  by (simp add: unat_word_ariths)

lemma counts_ok_step:
  assumes "store_step c c'" and "counts_ok ep c" and "list_all no_panic (snd c')" and "length (snd c) < 2 ^ 64"
  shows "counts_ok ep c'"
  using assms
proof (induction rule: store_step.induct)
  case (Step i gs s g s')
  from Step.prems(1) have cnt: "unat (count_of ep s) \<le> returned gs" "0 < returned gs \<longrightarrow> count_of ep s \<noteq> 0"
    and all: "\<forall>g\<in>set gs. (g = Returned \<or> (\<exists>p. g = AddingMatch ep p)) \<and> unat (to_write ep g) \<le> returned gs"
    by (simp_all add: counts_ok_def)
  have mem: "gs ! i \<in> set gs" using Step.hyps(1) by simp
  obtain p where p: "gs ! i = AddingMatch ep p" using all mem Step.hyps(2) by fastforce
  then have step: "AddMatch_step ep p s = (g, s')" using Step.hyps(2) by simp
  have "g \<in> set (gs[i := g])" using Step.hyps(1) by (simp add: set_update_memI)
  with Step.prems(2) have "no_panic g" by (simp add: list_all_iff)
  then have g: "g \<noteq> Panicked nil_deref" by auto
  note upd = returned_update [OF Step.hyps(1), of g]
  have set: "g' \<in> set (gs[i := g]) \<Longrightarrow> g' = g \<or> g' \<in> set gs" for g'
    using set_update_subset_insert [of gs i g] by auto
  from AddMatch_step_count [of p ep s] show ?case
  proof
    assume "\<exists>n. p = Add_write n \<and> AddMatch_step ep p s = (Returned, s\<lparr>smMatchesCount := (smMatchesCount s)(ep \<mapsto> n + 1)\<rparr>)"
    then obtain n where n: "p = Add_write n" and g: "g = Returned" and s': "count_of ep s' = n + 1"
      using step by (auto simp: count_of_def)
    have le: "unat n \<le> returned gs" using all mem p n by fastforce
    have "returned gs < length gs" using returned_less [OF Step.hyps(1)] p by simp
    with le Step.prems(3) have "unat (n + 1) = unat n + 1" by (intro next_count [of _ "length gs"]) simp_all
    moreover from this have "n + 1 \<noteq> 0" by (metis Suc_eq_plus1 nat.distinct(1) unat_0)
    ultimately have count: "unat (count_of ep s') \<le> returned (gs[i := g])" "count_of ep s' \<noteq> 0"
      and more: "returned gs \<le> returned (gs[i := g])"
      using le upd p g s' by simp_all
    have "(g' = Returned \<or> (\<exists>p. g' = AddingMatch ep p)) \<and> unat (to_write ep g') \<le> returned (gs[i := g])"
      if "g' \<in> set (gs[i := g])" for g'
      using set [OF that] all more g by force
    with count show ?case by (simp add: counts_ok_def)
  next
    assume "(\<forall>n. p \<noteq> Add_write n) \<and> count_of ep (snd (AddMatch_step ep p s)) = count_of ep s
     \<and> (fst (AddMatch_step ep p s) = Panicked nil_deref
       \<or> (\<exists>p'. fst (AddMatch_step ep p s) = AddingMatch ep p'
          \<and> (to_write ep (AddingMatch ep p' :: ('a, 'b) goroutine) = 0
            \<or> to_write ep (AddingMatch ep p' :: ('a, 'b) goroutine) = count_of ep s)))"
    then obtain p' where g': "g = AddingMatch ep p'" and s': "count_of ep s' = count_of ep s" and w:
      "to_write ep (AddingMatch ep p' :: ('a, 'b) goroutine) = 0
            \<or> to_write ep (AddingMatch ep p' :: ('a, 'b) goroutine) = count_of ep s"
      using step g by auto
    have same: "returned (gs[i := g]) = returned gs" using upd p g' by simp
    have "unat (to_write ep g) \<le> returned gs" using w cnt(1) g' by auto
    then have "(g'' = Returned \<or> (\<exists>p. g'' = AddingMatch ep p)) \<and> unat (to_write ep g'') \<le> returned gs"
      if "g'' \<in> set (gs[i := g])" for g''
      using set [OF that] all g' by blast
    with cnt s' same show ?case by (simp add: counts_ok_def)
  qed
qed

lemma counts_ok_run:
  fixes ms :: "'m list" and s :: "('m, 'mm) store_memory"
  assumes "store_step\<^sup>*\<^sup>* (new_memory sz, map goroutine_of (map (\<lambda>m. Change (AddMatchOp ep m)) ms)) (s, gs)" and "length ms < 2 ^ 64"
  shows "counts_ok ep (s, gs)"
proof -
  let ?calls = "map (\<lambda>m. Change (AddMatchOp ep m)) ms :: ('m, 'mm) store_call list"
  let ?ok = "\<lambda>c. overlap_ok ?calls c \<and> lists_filled c \<and> counts_ok ep c"
  have "?ok (s, gs)"
    using assms(1)
  proof (induction rule: rtranclp_induct)
    case base
    have "list_all (\<lambda>c. \<not> is_deletion c) ?calls" by (simp add: list_all_iff)
    from overlap_ok_start lists_filled_start [OF this]
    have "overlap_ok ?calls (new_memory sz, map goroutine_of ?calls)" "lists_filled (new_memory sz, map goroutine_of ?calls)" .
    moreover have "counts_ok ep (new_memory sz, map goroutine_of ?calls)"
      by (auto simp: counts_ok_def returned_def new_memory_def count_of_def)
    ultimately show ?case by blast
  next
    case (step c c')
    then have ok: "overlap_ok ?calls c" "overlap_ok ?calls c'" "lists_filled c'" and counts: "counts_ok ep c"
      using overlap_ok_step lists_filled_step by blast+
    have "length (snd c) < 2 ^ 64" using ok(1) assms(2) by (auto simp: overlap_ok_def dest!: list_all2_lengthD)
    moreover have "list_all no_panic (snd c')" using ok(3) by (simp add: lists_filled_def list_all_iff)
    ultimately show ?case using ok counts_ok_step [OF step.hyps(2) counts] by blast
  qed
  then show ?thesis by blast
qed

lemma returned_all [simp]: "returned (replicate n Returned) = n"
  by (simp add: returned_def)

section \<open>Every number between\<close>

text \<open>Goroutines that are each moved on by themselves, one after the other.\<close>

lemma move_on:
  assumes "\<And>x n s. R n s \<Longrightarrow> \<exists>s'. alone_step\<^sup>*\<^sup>* (f x, s) (g x, s') \<and> R (Suc n) s'" and "R n s"
  shows "\<exists>s'. store_step\<^sup>*\<^sup>* (s, pre @ map f xs @ post) (s', pre @ map g xs @ post) \<and> R (n + length xs) s'"
  using assms(2)
proof (induction xs arbitrary: pre n s)
  case (Cons x xs)
  with assms(1) obtain s1 where s1: "alone_step\<^sup>*\<^sup>* (f x, s) (g x, s1)" "R (Suc n) s1" by blast
  have "store_step\<^sup>*\<^sup>* (s, pre @ map f (x # xs) @ post) (s1, (pre @ [g x]) @ map f xs @ post)"
    using alone_in_parallel [OF s1(1), of "length pre" "pre @ map f (x # xs) @ post"] by simp
  moreover obtain s' where "store_step\<^sup>*\<^sup>* (s1, (pre @ [g x]) @ map f xs @ post) (s', (pre @ [g x]) @ map g xs @ post)"
    and "R (Suc n + length xs) s'" using Cons.IH [OF s1(2), of "pre @ [g x]"] by blast
  ultimately show ?case by (intro exI [of _ s']) (auto intro: rtranclp_trans)
qed auto

lemma add_up_to_count:
  assumes "memory_ok s"
  shows "\<exists>s'. alone_step\<^sup>*\<^sup>* (AddingMatch ep (Add_test m), s) (AddingMatch ep Add_read, s') \<and> memory_ok s'
    \<and> count_of ep s' = count_of ep s"
proof (cases "smMatches s ep")
  case None
  let ?s = "s\<lparr>smMatches := (smMatches s)(ep \<mapsto> length (smLists s)), smLists := smLists s @ [list_New]\<rparr>"
  let ?l = "cut_list (smSize ?s) (PushBack m (smLists ?s ! length (smLists s)))"
  have ok: "memory_ok ?s" using assms by simp
  have mem: "smMatches ?s ep = Some (length (smLists s))" by simp
  from add_to_count [OF ok mem, of m]
  have "alone_step\<^sup>*\<^sup>* (AddingMatch ep (Add_load m), ?s) (AddingMatch ep Add_read, set_list (length (smLists s)) ?l ?s)"
    by (rule converse_rtranclpE) (auto simp: alone_step_def)
  with None have "alone_step\<^sup>*\<^sup>* (AddingMatch ep (Add_test m), s) (AddingMatch ep Add_read, set_list (length (smLists s)) ?l ?s)"
    by (auto intro!: alone_firstI [of "AddingMatch ep (Add_test m)"] alone_firstI [of "AddingMatch ep (Add_make m)"])
  moreover have "memory_ok (set_list (length (smLists s)) ?l ?s)"
    using ok cut_list_push(1) [OF list_at_ok [OF ok mem]] by simp
  ultimately show ?thesis by (intro exI [of _ "set_list (length (smLists s)) ?l ?s"]) (simp add: count_of_def)
next
  case (Some a)
  with add_to_count [OF assms Some, of m] cut_list_push(1) [OF list_at_ok [OF assms Some]] assms show ?thesis
    by (intro exI [of _ "set_list a (cut_list (smSize s) (PushBack m (smLists s ! a))) s"]) simp
qed

lemma one_after_another:
  assumes "memory_ok s" and "count_of ep s = 0"
  shows "\<exists>s'. store_step\<^sup>*\<^sup>* (s, map (\<lambda>m. AddingMatch ep (Add_test m)) ms @ post) (s', map (\<lambda>m. Returned) ms @ post)
    \<and> memory_ok s' \<and> count_of ep s' = of_nat (length ms)"
proof -
  have count: "imsMatchesCount (store_of s) = smMatchesCount s" for s :: "('a, 'b) store_memory" by (simp add: store_of_def)
  have "\<exists>s'. alone_step\<^sup>*\<^sup>* (AddingMatch ep (Add_test m), s) (Returned, s') \<and> memory_ok s' \<and> count_of ep s' = of_nat (Suc n)"
    if "memory_ok s \<and> count_of ep s = of_nat n" for m n and s :: "('a, 'b) store_memory"
    using add_alone [of s ep m] that
    by (auto simp: im_AddMatch_def im_GetMatchesCount_def count_of_def count Let_def dest!: arg_cong [where f = imsMatchesCount])
  from move_on [where R = "\<lambda>n s. memory_ok s \<and> count_of ep s = of_nat n" and s = s and n = 0
      and pre = "[]" and xs = ms and post = post, OF this] assms
  show ?thesis by auto
qed

text \<open>All of them read the counter before the first writes it.\<close>

lemma all_at_once:
  assumes "memory_ok s" and "ms \<noteq> []"
  shows "\<exists>s'. store_step\<^sup>*\<^sup>* (s, pre @ map (\<lambda>m. AddingMatch ep (Add_test m)) ms) (s', pre @ map (\<lambda>m. Returned) ms)
    \<and> count_of ep s' = count_of ep s + 1"
proof -
  let ?c = "count_of ep s"
  obtain s1 where s1: "store_step\<^sup>*\<^sup>* (s, pre @ map (\<lambda>m. AddingMatch ep (Add_test m)) ms) (s1, pre @ map (\<lambda>m. AddingMatch ep Add_read) ms)"
    "count_of ep s1 = ?c"
    using move_on [where R = "\<lambda>n s. memory_ok s \<and> count_of ep s = ?c" and f = "\<lambda>m. AddingMatch ep (Add_test m)"
      and g = "\<lambda>m. AddingMatch ep Add_read" and s = s and n = 0 and pre = pre and xs = ms and post = "[]"]
      add_up_to_count [of _ ep] assms by force
  obtain s2 where s2: "store_step\<^sup>*\<^sup>* (s1, pre @ map (\<lambda>m. AddingMatch ep Add_read) ms) (s2, pre @ map (\<lambda>m. AddingMatch ep (Add_write ?c)) ms)"
    using move_on [where R = "\<lambda>n s. count_of ep s = ?c" and f = "\<lambda>m. AddingMatch ep Add_read"
      and g = "\<lambda>m. AddingMatch ep (Add_write ?c)" and s = s1 and n = 0 and pre = pre and xs = ms and post = "[]"] s1(2)
    by (force intro: alone_firstI)
  obtain s3 where s3: "store_step\<^sup>*\<^sup>* (s2, pre @ map (\<lambda>m. AddingMatch ep (Add_write ?c)) ms) (s3, pre @ map (\<lambda>m. Returned) ms)"
    and "0 < length ms \<longrightarrow> count_of ep s3 = ?c + 1"
    using move_on [where R = "\<lambda>n s. 0 < n \<longrightarrow> count_of ep s = ?c + 1" and f = "\<lambda>m. AddingMatch ep (Add_write ?c)"
      and g = "\<lambda>m. Returned" and s = s2 and n = 0 and pre = pre and xs = ms and post = "[]"]
    by (force simp: count_of_def intro: alone_firstI)
  with s1(1) s2 assms(2) show ?thesis by (intro exI [of _ s3]) (auto intro: rtranclp_trans)
qed

text \<open>C16: The counter of an endpoint loses additions: after \<open>n\<close> additions for an endpoint of a new store, all in parallel and all
  ended, it can have exactly the values from 1 to \<open>n\<close>, although none of them failed.\<close>

theorem counts_of_overlapping_additions:
  fixes ms :: "'m list"
  assumes "ms \<noteq> []" and "length ms < 2 ^ 64"
  shows "{count_of ep s | s :: ('m, 'mm) store_memory.
      store_step\<^sup>*\<^sup>* (new_memory sz, map goroutine_of (map (\<lambda>m. Change (AddMatchOp ep m)) ms)) (s, replicate (length ms) Returned)}
    = of_nat ` {1..length ms}"
proof (intro equalityI subsetI)
  fix c assume "c \<in> {count_of ep s | s :: ('m, 'mm) store_memory.
      store_step\<^sup>*\<^sup>* (new_memory sz, map goroutine_of (map (\<lambda>m. Change (AddMatchOp ep m)) ms)) (s, replicate (length ms) Returned)}"
  then obtain s :: "('m, 'mm) store_memory" where c: "c = count_of ep s"
    and run: "store_step\<^sup>*\<^sup>* (new_memory sz, map goroutine_of (map (\<lambda>m. Change (AddMatchOp ep m)) ms)) (s, replicate (length ms) Returned)"
    by blast
  have "unat c \<le> length ms" "c \<noteq> 0"
    using counts_ok_run [OF run assms(2)] assms(1) by (simp_all add: counts_ok_def c)
  then have "unat c \<in> {1..length ms}" by (simp add: unat_gt_0 Suc_le_eq)
  then show "c \<in> of_nat ` {1..length ms}" by (intro image_eqI [of _ _ "unat c"]) simp_all
next
  fix c :: "64 word" assume "c \<in> of_nat ` {1..length ms}"
  then obtain j where "c = of_nat j" "j \<in> {1..length ms}" by (rule imageE)
  then obtain k where k: "c = of_nat (Suc k)" "k < length ms" by (cases j) auto
  let ?first = "take k ms" and ?rest = "drop k ms" and ?start = "\<lambda>m. AddingMatch ep (Add_test m)" and ?done = "\<lambda>m. Returned"
  have "count_of ep (new_memory sz :: ('m, 'mm) store_memory) = 0" by (simp add: count_of_def new_memory_def)
  from one_after_another [OF memory_ok_new this, of ?first "map ?start ?rest"] obtain s1 :: "('m, 'mm) store_memory" where
    s1: "store_step\<^sup>*\<^sup>* (new_memory sz, map ?start ?first @ map ?start ?rest) (s1, map ?done ?first @ map ?start ?rest)"
    and ok: "memory_ok s1" "count_of ep s1 = of_nat k" using k(2) by auto
  obtain s2 where s2: "store_step\<^sup>*\<^sup>* (s1, map ?done ?first @ map ?start ?rest) (s2, map ?done ?first @ map ?done ?rest)"
    and count: "count_of ep s2 = of_nat k + 1"
    using all_at_once [OF ok(1), of ?rest "map ?done ?first" ep] k(2) ok(2) by auto
  have starts: "map ?start ?first @ map ?start ?rest = map goroutine_of (map (\<lambda>m. Change (AddMatchOp ep m)) ms)"
    by (simp add: map_append [symmetric] del: map_append)
  have ends: "map ?done ?first @ map ?done ?rest = replicate (length ms) Returned"
    using k(2) by (simp add: map_replicate_const flip: replicate_add)
  have "store_step\<^sup>*\<^sup>* (new_memory sz, map goroutine_of (map (\<lambda>m. Change (AddMatchOp ep m)) ms)) (s2, replicate (length ms) Returned)"
    using rtranclp_trans [OF s1 s2] unfolding starts ends .
  with k count show "c \<in> {count_of ep s | s :: ('m, 'mm) store_memory.
      store_step\<^sup>*\<^sup>* (new_memory sz, map goroutine_of (map (\<lambda>m. Change (AddMatchOp ep m)) ms)) (s, replicate (length ms) Returned)}"
    by (intro CollectI exI [of _ s2]) simp
qed

lemma replicate_two: "replicate 2 x = [x, x]"
  by (simp add: numeral_2_eq_2)

theorem counts_of_overlapping_additions_witness:
  "{count_of ''a'' s | s :: (nat, nat) store_memory.
      store_step\<^sup>*\<^sup>* (new_memory 10, map goroutine_of (map (\<lambda>m. Change (AddMatchOp ''a'' m)) [7, 8])) (s, replicate 2 Returned)} = {1, 2}"
proof -
  have "of_nat ` {1..length [7, 8 :: nat]} = {1, 2 :: 64 word}"
  proof -
    have "{1..length [7, 8 :: nat]} = {1, 2}" by auto
    then show ?thesis by (simp only: image_insert image_empty) simp
  qed
  with counts_of_overlapping_additions [of "[7, 8 :: nat]" "''a''" 10] show ?thesis
    by (simp only: list.size add_0 numeral_2_eq_2 [symmetric] plus_1_eq_Suc) (simp add: replicate_two)
qed

end
