(* ===== verification/RouteRaces.thy ===== *)
theory RouteRaces
  imports MockHandlerProps
begin

text \<open>
  Inside the matcher and the handler function of the mock endpoints (\<open>AddRoutes\<close> in
  \<open>mockgo/mock/requestHandler.go\<close>). The functions share four variables between all requests, without a lock: the
  matcher assigns what it found to them one after the other and then tests the first, the handler reads them one after
  the other. Here every request is at a position in this code, and any request may do the next access. Matching with
  its recording, and rendering, are one step each.
\<close>

section \<open>The accesses of a request\<close>

datatype 't route_pos =
  Match_request int request
| Set_endPoint "'t match_outcome" request
| Set_match "'t match_outcome" request
| Set_requestPathParam "'t match_outcome" request
| Set_queryParams "'t match_outcome" request
| Test_endPoint request                          \<comment> \<open>\<open>return endPoint != nil\<close>\<close>
| Get_endPoint request                           \<comment> \<open>the arguments of \<open>renderResponse\<close>\<close>
| Get_match request "'t Endpoint option"
| Get_requestPathParam request "'t Endpoint option" "nat option"
| Get_queryParams request "'t Endpoint option" "nat option" "string \<rightharpoonup> string"
| Render_response request "'t Endpoint option" "nat option" "string \<rightharpoonup> string" "string \<rightharpoonup> string"
| Ended answer

type_synonym ('t, 's, 'k) in_route = "'t route_pos \<times> ('t, 's, 'k) server_state"

primrec route_step ::
  "('s, 'm) backend \<Rightarrow> ('t, 'j, 'k) template_env \<Rightarrow> string \<Rightarrow> 't route_pos \<Rightarrow> ('t, 's, 'k) server_state
     \<Rightarrow> ('t, 's, 'k) in_route option" where
  "route_step ms env pathPrefix (Match_request now r) sv =
     Some (if has_prefix (urlPath r) pathPrefix then (Ended NotFound, sv)
           else case matchRequestToEndpoint ms now r (svHandler sv) of
                  Ok (out, r', h') \<Rightarrow> (Set_endPoint out r', sv\<lparr>svHandler := h'\<rparr>)
                | Err e \<Rightarrow> (Ended (Failed e), sv)
                | Panic e \<Rightarrow> (Ended (Failed e), sv))"
| "route_step ms env pathPrefix (Set_endPoint out r) sv =
     Some (Set_match out r, sv\<lparr>svEndPoint := moEndpoint out\<rparr>)"
| "route_step ms env pathPrefix (Set_match out r) sv =
     Some (Set_requestPathParam out r, sv\<lparr>svMatch := moMatch out\<rparr>)"
| "route_step ms env pathPrefix (Set_requestPathParam out r) sv =
     Some (Set_queryParams out r, sv\<lparr>svRequestPathParam := moPathParams out\<rparr>)"
| "route_step ms env pathPrefix (Set_queryParams out r) sv =
     Some (Test_endPoint r, sv\<lparr>svQueryParams := moQueryParams out\<rparr>)"
| "route_step ms env pathPrefix (Test_endPoint r) sv =
     Some (if svEndPoint sv \<noteq> None then Get_endPoint r else Ended NotFound, sv)"
| "route_step ms env pathPrefix (Get_endPoint r) sv = Some (Get_match r (svEndPoint sv), sv)"
| "route_step ms env pathPrefix (Get_match r ep) sv = Some (Get_requestPathParam r ep (svMatch sv), sv)"
| "route_step ms env pathPrefix (Get_requestPathParam r ep m) sv =
     Some (Get_queryParams r ep m (svRequestPathParam sv), sv)"
| "route_step ms env pathPrefix (Get_queryParams r ep m pp) sv =
     Some (Render_response r ep m pp (svQueryParams sv), sv)"
| "route_step ms env pathPrefix (Render_response r ep m pp qp) sv =
     (let st = renderResponse env r ep m pp qp (fresh_render (hsMatches (svHandler sv)) (svWorld sv))
      in Some (Ended (answer_of st),
           sv\<lparr>svHandler := (svHandler sv)\<lparr>hsMatches := rdMatches st\<rparr>, svWorld := rdWorld st\<rparr>))"
| "route_step ms env pathPrefix (Ended a) sv = None"

type_synonym ('t, 's, 'k) routing = "('t, 's, 'k) server_state \<times> 't route_pos list"

inductive access_step ::
  "('s, 'm) backend \<Rightarrow> ('t, 'j, 'k) template_env \<Rightarrow> string \<Rightarrow> ('t, 's, 'k) routing \<Rightarrow> ('t, 's, 'k) routing \<Rightarrow> bool"
  for ms env pathPrefix where
  Access: "i < length ps \<Longrightarrow> route_step ms env pathPrefix (ps ! i) sv = Some (p, sv')
    \<Longrightarrow> access_step ms env pathPrefix (sv, ps) (sv', ps[i := p])"

inductive_cases access_step_cases: "access_step ms env pathPrefix (sv, ps) c"

fun run_accesses ::
  "('s, 'm) backend \<Rightarrow> ('t, 'j, 'k) template_env \<Rightarrow> string \<Rightarrow> nat list \<Rightarrow> ('t, 's, 'k) routing
     \<Rightarrow> ('t, 's, 'k) routing option" where
  "run_accesses ms env pathPrefix [] c = Some c"
| "run_accesses ms env pathPrefix (i # sched) (sv, ps) =
     (if i < length ps
      then case route_step ms env pathPrefix (ps ! i) sv of
             None \<Rightarrow> None
           | Some (p, sv') \<Rightarrow> run_accesses ms env pathPrefix sched (sv', ps[i := p])
      else None)"

lemma run_accesses_steps:
  "run_accesses ms env pathPrefix sched c = Some c' \<Longrightarrow> (access_step ms env pathPrefix)\<^sup>*\<^sup>* c c'"
proof (induction ms env pathPrefix sched c rule: run_accesses.induct)
  case (2 ms env pathPrefix i sched sv ps)
  then obtain p sv' where step: "i < length ps" "route_step ms env pathPrefix (ps ! i) sv = Some (p, sv')"
    and run: "run_accesses ms env pathPrefix sched (sv', ps[i := p]) = Some c'"
    by (auto split: if_splits option.splits)
  from Access [OF step] 2(1) [OF step refl run] show ?case by (rule converse_rtranclp_into_rtranclp)
qed simp

section \<open>A request that is not interrupted\<close>

lemma serve_accesses:
  assumes "i < length ps" and "ps ! i = Match_request now r"
  shows "(access_step ms env pathPrefix)\<^sup>*\<^sup>* (sv, ps)
    (snd (serve ms env pathPrefix now r sv), ps[i := Ended (fst (serve ms env pathPrefix now r sv))])"
proof (cases "has_prefix (urlPath r) pathPrefix")
  case True
  then show ?thesis
    using assms by (intro run_accesses_steps [where sched = "[i]"]) (simp add: serve_def mock_matcher_def)
next
  case False
  obtain out r' h' where m: "matchRequestToEndpoint ms now r (svHandler sv) = Ok (out, r', h')"
    using match_request_outcome [of ms now r "svHandler sv"] by auto
  show ?thesis
  proof (cases "moEndpoint out")
    case None
    then show ?thesis using assms m False
      by (intro run_accesses_steps [where sched = "replicate 6 i"])
        (simp add: serve_def mock_matcher_def eval_nat_numeral)
  next
    case (Some ep)
    then show ?thesis using assms m False
      by (intro run_accesses_steps [where sched = "replicate 11 i"])
        (simp add: serve_def mock_matcher_def mock_handler_def Let_def eval_nat_numeral)
  qed
qed

text \<open>C12: A request whose accesses are not interleaved with those of others is served as the model of the server says
  (\<open>serve\<close>, with matcher and handler as one step each): in every state and beside any other requests it can run to its
  end, with the answer and the state of \<open>serve\<close>.\<close>

theorem uninterrupted_request:
  assumes "i < length ps" and "ps ! i = Match_request now r"
  shows "(access_step ms env pathPrefix)\<^sup>*\<^sup>* (sv, ps)
    (snd (serve ms env pathPrefix now r sv), ps[i := Ended (fst (serve ms env pathPrefix now r sv))])"
  using assms by (rule serve_accesses)

theorem uninterrupted_request_witness:
  "\<exists>sv a. (access_step inmemory_backend verbatim_env ''/__'')\<^sup>*\<^sup>*
      (ab_server, [Match_request 1 (get_request ''/b'' []), Match_request 2 (get_request ''/none'' [])])
      (sv, [Match_request 1 (get_request ''/b'' []), Ended a])
    \<and> a = fst (serve inmemory_backend verbatim_env ''/__'' 2 (get_request ''/none'' []) ab_server)"
  using uninterrupted_request [of 1 "[Match_request 1 (get_request ''/b'' []), Match_request 2 (get_request ''/none'' [])]" 2
      "get_request ''/none'' []" inmemory_backend verbatim_env "''/__''" ab_server] by auto

section \<open>Requests that get what was found for others\<close>

text \<open>The first request assigns what it found before the second does, and tests after.\<close>

lemma first_tests_late:
  fixes env :: "('t, 'j, 'k) template_env"
  assumes "\<not> has_prefix (urlPath r1) pathPrefix" and "\<not> has_prefix (urlPath r2) pathPrefix"
    and "matchRequestToEndpoint ms t1 r1 (svHandler sv) = Ok (out1, r1', h1)"
    and "matchRequestToEndpoint ms t2 r2 h1 = Ok (out2, r2', h2)" and "moEndpoint out2 = Some ep"
  defines "st \<equiv> renderResponse env r1' (Some ep) (moMatch out2) (moPathParams out2) (moQueryParams out2)
      (fresh_render (hsMatches h2) (svWorld sv))"
  shows "\<exists>sv'. (access_step ms env pathPrefix)\<^sup>*\<^sup>* (sv, [Match_request t1 r1, Match_request t2 r2])
      (sv', [Ended (answer_of st), Get_endPoint r2'])"
proof -
  let ?c = "run_accesses ms env pathPrefix [0, 1, 0, 0, 0, 0, 1, 1, 1, 1, 1, 0, 0, 0, 0, 0, 0] (sv, [Match_request t1 r1, Match_request t2 r2])"
  have "\<exists>sv'. ?c = Some (sv', [Ended (answer_of st), Get_endPoint r2'])"
    using assms(1-5) by (simp add: st_def Let_def)
  then show ?thesis using run_accesses_steps by blast
qed

text \<open>The second request assigns what it found before the first does, and tests after.\<close>

lemma second_tests_late:
  assumes "\<not> has_prefix (urlPath r1) pathPrefix" and "\<not> has_prefix (urlPath r2) pathPrefix"
    and "matchRequestToEndpoint ms t1 r1 (svHandler sv) = Ok (out1, r1', h1)"
    and "matchRequestToEndpoint ms t2 r2 h1 = Ok (out2, r2', h2)" and "moEndpoint out1 = None"
  shows "\<exists>sv'. (access_step ms env pathPrefix)\<^sup>*\<^sup>* (sv, [Match_request t1 r1, Match_request t2 r2])
      (sv', [Ended NotFound, Ended NotFound]) \<and> svHandler sv' = h2"
proof -
  let ?c = "run_accesses ms env pathPrefix [0, 1, 1, 1, 1, 1, 0, 0, 0, 0, 0, 1] (sv, [Match_request t1 r1, Match_request t2 r2])"
  have "\<exists>sv'. ?c = Some (sv', [Ended NotFound, Ended NotFound]) \<and> svHandler sv' = h2"
    using assms by simp
  then show ?thesis using run_accesses_steps by blast
qed

text \<open>C11: Of two overlapping requests, of which the first has no endpoint and is recorded as a mismatch and the second
  has one and is recorded as a match, the first can be answered with the endpoint, the match and the parameters
  of the second; and the second can be refused with 404, like the first, and keep its record as a match.\<close>

theorem overlapping_matchers_swap_outcomes:
  assumes "\<not> has_prefix (urlPath r1) pathPrefix" and "\<not> has_prefix (urlPath r2) pathPrefix"
    and "outcome ms t1 r1 (svHandler sv) = (None, h1)" and "outcome ms t2 r2 h1 = (Some ep, h2)"
  shows "(\<exists>sv' b p. (access_step ms env pathPrefix)\<^sup>*\<^sup>* (sv, [Match_request t1 r1, Match_request t2 r2])
        (sv', [Ended (answer_of (renderResponse env (r1\<lparr>reqBody := b\<rparr>) (Some ep) (Some (length (hsMatches h1)))
            (case walk_path (hsEpSearchNode h1) (urlPath r2) of Reached n ps \<Rightarrow> ps | NotReached n k ps \<Rightarrow> ps)
            (map_of (urlQuery r2)) (fresh_render (hsMatches h2) (svWorld sv)))), p]))
    \<and> (\<exists>sv'. (access_step ms env pathPrefix)\<^sup>*\<^sup>* (sv, [Match_request t1 r1, Match_request t2 r2])
        (sv', [Ended NotFound, Ended NotFound]) \<and> svHandler sv' = h2)"
proof -
  obtain out1 b1 where m1: "matchRequestToEndpoint ms t1 r1 (svHandler sv) = Ok (out1, r1\<lparr>reqBody := b1\<rparr>, h1)"
    and out1: "moEndpoint out1 = None"
    using match_request_outcome [of ms t1 r1 "svHandler sv"] assms(3) by auto
  obtain out2 b2 where m2: "matchRequestToEndpoint ms t2 r2 h1 = Ok (out2, r2\<lparr>reqBody := b2\<rparr>, h2)"
    and out2: "moEndpoint out2 = Some ep" "moMatch out2 = Some (length (hsMatches h1))"
      "moPathParams out2 = (case walk_path (hsEpSearchNode h1) (urlPath r2) of Reached n ps \<Rightarrow> ps | NotReached n k ps \<Rightarrow> ps)"
      "moQueryParams out2 = map_of (urlQuery r2)"
    using match_request_outcome [of ms t2 r2 h1] assms(4) by auto
  from first_tests_late [OF assms(1,2) m1 m2 out2(1), of env] second_tests_late [OF assms(1,2) m1 m2 out1]
  show ?thesis unfolding out2 by blast
qed

lemma swap_example:
  "case outcome inmemory_backend 1 (get_request ''/none'' []) (svHandler ab_server) of (ep1, h1) \<Rightarrow>
     (case outcome inmemory_backend 2 (get_request ''/b'' []) h1 of (ep2, h2) \<Rightarrow>
       Option.is_none ep1 \<and> (case ep2 of None \<Rightarrow> False | Some ep \<Rightarrow> epID ep = ''b'') \<and> length (hsMatches h2) = 1)"
  by code_simp

theorem overlapping_matchers_swap_outcomes_witness:
  "(\<exists>sv r pp qp st ep p. (access_step inmemory_backend verbatim_env ''/__'')\<^sup>*\<^sup>*
      (ab_server, [Match_request 1 (get_request ''/none'' []), Match_request 2 (get_request ''/b'' [])])
      (sv, [Ended (answer_of (renderResponse verbatim_env r (Some ep) (Some 0) pp qp st)), p]) \<and> epID ep = ''b'')
   \<and> (\<exists>sv. (access_step inmemory_backend verbatim_env ''/__'')\<^sup>*\<^sup>*
      (ab_server, [Match_request 1 (get_request ''/none'' []), Match_request 2 (get_request ''/b'' [])])
      (sv, [Ended NotFound, Ended NotFound]) \<and> length (hsMatches (svHandler sv)) = 1)"
proof -
  let ?r1 = "get_request ''/none'' []" and ?r2 = "get_request ''/b'' []"
  obtain h1 ep h2 where o1: "outcome inmemory_backend 1 ?r1 (svHandler ab_server) = (None, h1)"
    and o2: "outcome inmemory_backend 2 ?r2 h1 = (Some ep, h2)" and ep: "epID ep = ''b''" and len: "length (hsMatches h2) = 1"
    using swap_example by (auto simp: Option.is_none_def split: prod.splits option.splits)
  have "length (hsMatches h1) = 0"
    using outcome_recorded [of inmemory_backend 2 ?r2 h1] o2 len by (simp add: match_recorded_def)
  moreover have "\<not> has_prefix (urlPath ?r1) ''/__''" "\<not> has_prefix (urlPath ?r2) ''/__''"
    by (simp_all add: get_request_def has_prefix_def)
  ultimately show ?thesis
    using overlapping_matchers_swap_outcomes [of ?r1 "''/__''" ?r2 inmemory_backend 1 ab_server h1 2 ep h2 verbatim_env]
      o1 o2 ep len by auto blast+
qed

section \<open>What holds in every interleaving\<close>

text \<open>\<open>E\<close> has the endpoints of the tree; a position holds nothing else.\<close>

definition known :: "'t Endpoint set \<Rightarrow> 't Endpoint option \<Rightarrow> bool" where
  "known E ep \<longleftrightarrow> (\<forall>e. ep = Some e \<longrightarrow> e \<in> E)"

definition answer_known :: "'t Endpoint set \<Rightarrow> answer \<Rightarrow> bool" where
  "answer_known E a \<longleftrightarrow> (\<forall>w. a = Answered w \<longrightarrow> (\<exists>e\<in>E. tagged (epID e) w))"

primrec route_pos_ok :: "'t Endpoint set \<Rightarrow> string \<Rightarrow> 't route_pos \<Rightarrow> bool" where
  "route_pos_ok E pathPrefix (Match_request now r) = (\<not> has_prefix (urlPath r) pathPrefix)"
| "route_pos_ok E pathPrefix (Set_endPoint out r) = known E (moEndpoint out)"
| "route_pos_ok E pathPrefix (Set_match out r) = True"
| "route_pos_ok E pathPrefix (Set_requestPathParam out r) = True"
| "route_pos_ok E pathPrefix (Set_queryParams out r) = True"
| "route_pos_ok E pathPrefix (Test_endPoint r) = True"
| "route_pos_ok E pathPrefix (Get_endPoint r) = True"
| "route_pos_ok E pathPrefix (Get_match r ep) = known E ep"
| "route_pos_ok E pathPrefix (Get_requestPathParam r ep m) = known E ep"
| "route_pos_ok E pathPrefix (Get_queryParams r ep m pp) = known E ep"
| "route_pos_ok E pathPrefix (Render_response r ep m pp qp) = known E ep"
| "route_pos_ok E pathPrefix (Ended a) = answer_known E a"

definition is_unmatched :: "'t route_pos \<Rightarrow> bool" where
  "is_unmatched p \<longleftrightarrow> (\<exists>now r. p = Match_request now r)"

definition access_ok :: "'t epSearchNode \<Rightarrow> 't Endpoint set \<Rightarrow> string \<Rightarrow> ('t, 's, 'k) routing \<Rightarrow> bool" where
  "access_ok tree E pathPrefix c \<longleftrightarrow> hsEpSearchNode (svHandler (fst c)) = tree \<and> known E (svEndPoint (fst c))
     \<and> list_all (route_pos_ok E pathPrefix) (snd c)
     \<and> recorded (fst c) = length (filter (\<lambda>p. \<not> is_unmatched p) (snd c))"

definition offered :: "'t epSearchNode \<Rightarrow> 't Endpoint set" where
  "offered tree = {e. \<exists>path n ps key. walk_path tree path = Reached n ps \<and> e \<in> set (eps_of n key)}"

lemma choose_endpoint_member: "fst (choose_endpoint eps msg r) = Inr ep \<Longrightarrow> ep \<in> set eps"
  by (induction eps arbitrary: msg r) (auto split: if_splits prod.splits)

lemma outcome_offered: "fst (outcome ms now r s) = Some ep \<Longrightarrow> ep \<in> offered (hsEpSearchNode s)"
  by (auto simp: outcome_def offered_def candidates_def split: path_result.splits if_splits sum.splits
      dest!: choose_endpoint_member) blast+

lemma answer_of_render_known:
  "known E ep \<Longrightarrow> answer_known E (answer_of (renderResponse env r ep m pp qp (fresh_render heap k)))"
proof (cases ep)
  case None
  then show ?thesis by (simp add: answer_known_def answer_of_def renderResponse_def set_panic_def)
next
  case (Some e)
  then show "known E ep \<Longrightarrow> ?thesis"
    using renderResponse_tagged [of e env r m pp qp heap k]
    by (auto simp: answer_known_def answer_of_def known_def split: option.splits)
qed

lemma route_step_ok:
  assumes "route_step ms env pathPrefix p sv = Some (p', sv')" and "route_pos_ok (offered tree) pathPrefix p"
    and "hsEpSearchNode (svHandler sv) = tree" and "known (offered tree) (svEndPoint sv)"
  shows "route_pos_ok (offered tree) pathPrefix p' \<and> hsEpSearchNode (svHandler sv') = tree
    \<and> known (offered tree) (svEndPoint sv') \<and> \<not> is_unmatched p' \<and> recorded sv' = recorded sv + of_bool (is_unmatched p)"
proof (cases p)
  case (Match_request now r)
  obtain out b where m: "matchRequestToEndpoint ms now r (svHandler sv) =
      Ok (out, r\<lparr>reqBody := b\<rparr>, snd (outcome ms now r (svHandler sv)))"
    and out: "moEndpoint out = fst (outcome ms now r (svHandler sv))"
    using match_request_outcome [of ms now r "svHandler sv"] by blast
  have "known (offered tree) (moEndpoint out)" using outcome_offered assms(3) by (auto simp: known_def out)
  moreover have "hsEpSearchNode (snd (outcome ms now r (svHandler sv))) = tree"
    using assms(3) by (simp add: outcome_def match_recorded_def mismatch_recorded_def split: path_result.split sum.split)
  ultimately show ?thesis
    using assms m Match_request outcome_counts [of ms now r "svHandler sv"]
    by (auto simp: is_unmatched_def recorded_def)
next
  case (Render_response r ep m pp qp)
  have "rdMatches (fresh_render (hsMatches (svHandler sv)) (svWorld sv)) = hsMatches (svHandler sv)"
    by (simp add: fresh_render_def)
  with assms Render_response show ?thesis
    by (auto simp: is_unmatched_def recorded_def Let_def answer_of_render_known renderResponse_heap_length)
qed (use assms in \<open>auto simp: is_unmatched_def recorded_def answer_known_def split: if_splits\<close>)

lemma access_ok_step: "access_step ms env pathPrefix c c' \<Longrightarrow> access_ok tree (offered tree) pathPrefix c
    \<Longrightarrow> access_ok tree (offered tree) pathPrefix c'"
proof (induction rule: access_step.induct)
  case (Access i ps sv p sv')
  from Access.prems have all: "list_all (route_pos_ok (offered tree) pathPrefix) ps"
    and count: "recorded sv = length (filter (\<lambda>p. \<not> is_unmatched p) ps)"
    and rest: "hsEpSearchNode (svHandler sv) = tree" "known (offered tree) (svEndPoint sv)" by (simp_all add: access_ok_def)
  have "route_pos_ok (offered tree) pathPrefix (ps ! i)" using all Access.hyps(1) by (simp add: list_all_length)
  note step = route_step_ok [OF Access.hyps(2) this rest]
  have "list_all (route_pos_ok (offered tree) pathPrefix) (ps[i := p])"
    using all step by (auto simp: list_all_iff dest!: set_update_subset_insert [THEN subsetD])
  moreover have "length (filter (\<lambda>p. \<not> is_unmatched p) (ps[i := p])) =
      length (filter (\<lambda>p. \<not> is_unmatched p) ps) + of_bool (is_unmatched (ps ! i))"
    using step Access.hyps(1) length_filter_update [of i ps "\<lambda>p. \<not> is_unmatched p" p]
    by (cases "is_unmatched (ps ! i)") simp_all
  ultimately show ?case using step count by (simp add: access_ok_def)
qed

lemma access_ok_start:
  assumes "list_all (\<lambda>(now, r). \<not> has_prefix (urlPath r) pathPrefix) reqs"
  shows "access_ok tree E pathPrefix (start_server tree store world, map (\<lambda>(now, r). Match_request now r) reqs)"
proof -
  have "length (filter (\<lambda>p. \<not> is_unmatched p) (map (\<lambda>(now, r). Match_request now r) reqs)) = 0"
    by (auto simp: filter_empty_conv is_unmatched_def simp del: filter_map)
  moreover have "list_all (route_pos_ok E pathPrefix) (map (\<lambda>(now, r). Match_request now r) reqs)"
    using assms by (auto simp: list_all_iff)
  ultimately show ?thesis
    by (simp add: access_ok_def start_server_def known_def recorded_def del: length_filter_map length_0_conv filter_map)
qed



end
