(* ===== verification/Spec2Isabelle.thy ===== *)
theory Spec2Isabelle
  imports TreeTypes GrpcServing TestUtil BootProps RedisHttp GrpcHttp StoreCounts RouteRaces
begin

text \<open>
  Verification of \<open>mockgo-server\<close>, an HTTP mock server: it loads mock endpoints from YAML
  files, answers requests with rendered templates, records every request as a match or a
  mismatch, and offers an API on the records and on a key-value store. There are three variants,
  which differ in their stores: in memory, distributed over grpc, in redis.

  \<^bold>\<open>The program and its theories.\<close>

  \<^item> \<open>GoPrelude\<close>, \<open>NetHttp\<close>: the part of Go and its library the sources use. A call ends in a value,
    an error or a panic (\<open>result\<close>); a nil-able map is an optional map; strings are byte strings;
    machine integers are words where they wrap; a response writer keeps its first status; a body is
    consumed by reading it. \<open>BasicCredentials\<close>: base64 and the authorization header,
    with \<open>BasicAuth\<close> of \<open>util/http.go\<close>.
  \<^item> \<open>HttpUtil\<close> (\<open>mockgo/util/http.go\<close>): the handler wrappers, among them \<open>BasicAuthMiddleware\<close>.
  \<^item> \<open>MockModel\<close> (\<open>mockgo/mock/model.go\<close>) and, for \<open>mockgo/mock/requestHandler.go\<close>: \<open>PathTree\<close>
    (\<open>registerEndpoint\<close>, the insertion by priority), \<open>PathMatch\<close> (the path loop of
    \<open>matchRequestToEndpoint\<close>), \<open>EndpointMatch\<close> (\<open>matchSearchNode\<close>, \<open>matchEndPointsAttributes\<close>,
    \<open>addMatch\<close>, \<open>addMismatch\<close>), \<open>Render\<close> (\<open>renderResponse\<close>), \<open>Loader\<close> (\<open>LoadFiles\<close> and what it
    calls), \<open>MockHandler\<close> (matcher and handler function, \<open>handleReload\<close>, the step relation
    \<open>server_step\<close> of requests in parallel), \<open>RouteRaces\<close> (the single accesses of matcher and handler to the variables
    that all requests share, the step relation \<open>access_step\<close>).
  \<^item> \<open>Matchstore\<close> (\<open>matches/matchstore.go\<close>: the interface as a record, its contract as locales),
    \<open>InMemory\<close> (\<open>inmemoryMatchstore.go\<close>, one function per operation), \<open>StoreRaces\<close> (the same operations as goroutines
    that do one access at a time, the step relation \<open>store_step\<close>), \<open>MatchesHandler\<close>
    (\<open>matches/requestHandler.go\<close>).
  \<^item> \<open>KVStorage\<close> (\<open>kvstore/storage.go\<close>: interface, contract, in-memory storage, template
    functions), \<open>KVHandler\<close> (\<open>kvstore/requestHandler.go\<close>).
  \<^item> \<open>GrpcMatchstore\<close>, \<open>GrpcKVStore\<close>, \<open>GrpcVariant\<close> (package \<open>mockgo-grpc\<close>): the state is the list of
    nodes; a network says for every call whether it is delivered, lost, or answered too late. \<open>GrpcServing\<close>: how a
    node serves its stores and stops. \<open>GrpcHttp\<close>: the server of a node with the stores of all nodes as its state.
  \<^item> \<open>Redis\<close>, \<open>RedisProps\<close>, \<open>RedisServer\<close>, \<open>RedisRefine\<close>, \<open>RedisVariant\<close> (package \<open>mockgo-redis\<close>): the
    client is a record of the commands the code sends.
  \<^item> \<open>Starter\<close>, \<open>Router\<close>, \<open>Lifecycle\<close> (\<open>mockgo/starter/starter.go\<close> and the \<open>main\<close> packages):
    configuration; the server as \<open>SetupRouter\<close> puts it together, all routes on one state behind the
    authentication (\<open>serve_http\<close>), and with many requests at once (\<open>HttpSteps\<close>, the step relation
    \<open>http_step\<close>: arrival, routing, handling); the goroutines from its start to its end as an event-driven state
    machine. \<open>Boot\<close> (also \<open>mockgo/util/log.go\<close>): from the environment of the process through the constructors
    to the start of these goroutines (\<open>setup_server\<close>, \<open>standalone_main\<close>, \<open>grpc_start\<close>, \<open>redis_start\<close>).
  \<^item> \<open>TestUtil\<close> (\<open>mockgo/testutil\<close>): the requests and answers of the repository's tests.

  \<^bold>\<open>What the lemmas show.\<close>

  \<^item> The tree: registration stores exactly what is registered (\<open>PathProps\<close>), in well-formed trees
    only, whatever a running server goes through (\<open>TreeTypes\<close>); the path loop equals a recursion over the
    segments (\<open>PathSpec\<close>), is sound for the patterns of the README and complete for one pattern
    (\<open>PathCorrect\<close>, \<open>PathProps\<close>), and ends within as many iterations as the path has segments and one more
    (\<open>TreeTypes\<close>: the fuel \<open>length segs + 1\<close> is enough for both loops).
  \<^item> A request: which endpoint is chosen, that it is recorded once, what is rendered
    (\<open>EndpointProps\<close>, \<open>RenderProps\<close>); under all interleavings (\<open>MockHandlerProps\<close>); what is recorded of it
    (\<open>Reporting\<close>); from a mock endpoint to its answer (this theory).
  \<^item> The server over HTTP: access control and the frame of the API (\<open>RouterProps\<close>); requests outside the API
    are served as by the mock endpoints alone (\<open>RouterTemplates\<close>); what the API reports of them, and
    values that are put and got (\<open>ServerProps\<close>). In every state reached by interleaved requests, those of the
    API included (\<open>HttpStepsProps\<close>, by the locale \<open>server_invariant\<close> of \<open>HttpSteps\<close>): one history explains the
    records and what the API reports of them, each request is recorded once, the tree is well formed; every
    request gets a reply. One request can be answered by the endpoint of another (\<open>HttpOverlap\<close>).
  \<^item> Loading: which files are read, which endpoints result, that they are ready (\<open>LoaderProps\<close>).
  \<^item> The stores: each refines the history of its operations, or the last writes, and keeps its
    contract (\<open>InMemoryProps\<close>, \<open>GrpcMatchstoreProps\<close>, \<open>GrpcKVStore\<close>, \<open>RedisRefine\<close>); both redis
    stores on one server do not disturb each other (\<open>RedisVariant\<close>). The server takes a store that keeps pointers to
    the matches, copies of them, or pointers that others see as copies (\<open>backend\<close> of \<open>Matchstore\<close>). With the copies of the
    redis store it never reports a response over HTTP (\<open>RedisHttp\<close>); with the stores of a grpc cluster it reports what
    all nodes keep, unless a match without response makes the service of its node panic (\<open>GrpcHttp\<close>).
  \<^item> Inside these steps, at single accesses to shared memory: an operation of the in-memory store that is not interrupted is
    the whole step the other theories take it for (\<open>StoreRaces\<close>), and so is a request for a mock endpoint
    (\<open>RouteRaces\<close>). When they overlap, lists stay over the capacity, an addition panics (\<open>StoreRacesProps\<close>), the
    counters lose additions (\<open>StoreCounts\<close>), requests swap their outcomes (\<open>RouteRaces\<close>); still, what is read was added,
    and what is answered is of a registered endpoint.
  \<^item> The process: every stop ends it after a bounded number of its own steps, it does not end
    for another reason, and it shuts down in order (\<open>LifecycleProps\<close>). Its start: the configuration is the one the environment
    describes, the standalone variant starts exactly when it can, with the state and routes the other theorems
    speak of, and what it then reports is bounded by its capacity (\<open>BootProps\<close>). Stopping a grpc node
    (\<open>GrpcServing\<close>).

  \<^bold>\<open>Arguments and assumptions.\<close> Template parsing and execution, YAML, JSON, regular expressions, the file
  system, the clock, the network and the redis server are arguments. Where a theorem needs more of
  them it says so: values survive their encoding (\<open>faithful\<close>, \<open>codec_on\<close>), calls are delivered
  (\<open>all_delivered\<close>), the redis commands have their documented effect (\<open>list_laws\<close>, \<open>string_laws\<close>,
  \<open>hash_laws\<close>, \<open>key_frame\<close>, and \<open>database_laws\<close> for several data bases), the router matches path templates as it is
  documented to (\<open>template_law\<close>), tagged fields are read from the environment as documented
  (\<open>envconfig_law\<close>). \<open>RedisServer\<close> has a server in memory that keeps the laws of redis,
  \<open>ServerProps\<close> a router that keeps the law of templates, \<open>BootProps\<close> a reader of the environment. The history of a redis store is below \<open>2 ^ 63\<close> operations, the range of
  \<open>INCR\<close>.

  \<^bold>\<open>Not modelled.\<close> Generated protobuf and grpc code (only the message structures are used), what is logged (but for the
  messages of the shutdown), the banner, the inside of gorilla/mux (it
  tries the routes in order; whether one fits, and which paths it redirects, are arguments). Of the races: calls of
  \<open>container/list\<close> and accesses to a map are atomic, although the Go runtime may end a process in which two goroutines
  are in one map; overlapping operations of the key-value store, a reload while a path is walked, and a response that is
  set while its match is encoded are whole steps. Signals before \<open>signal.Notify\<close> is called and a serving function
  set from outside are left out of the life of the process. A panic in a service of grpc ends the process of the node;
  the model has the panic and not the life of the other nodes after it.
\<close>

section \<open>From a mock endpoint to its answer\<close>

text \<open>An endpoint that is only restricted by its method and path.\<close>

definition unconditional :: "'t Endpoint \<Rightarrow> bool" where
  "unconditional ep \<longleftrightarrow> mrHost (epRequest ep) = [] \<and> mrQuery (epRequest ep) = []
     \<and> mrHeaders (epRequest ep) = [] \<and> mrBodyRegexp (epRequest ep) = None"

lemma unconditional_default [simp]: "unconditional (default_method ep) = unconditional ep"
  by (simp add: unconditional_def default_method_def)

lemma unconditional_chosen: "unconditional ep \<Longrightarrow> fst (choose_endpoint (ep # eps) msg r) = Inr ep"
  by (simp add: unconditional_def matchQueryParams_def matchHeaderValues_def matchBody_def)

lemma tree_keys_default [simp]: "tree_keys (default_method ep) = tree_keys ep"
  by (simp add: tree_keys_def default_method_def)

lemma reached_other_keys:
  assumes "[] \<notin> set (path_segments (mrPath (epRequest ep)))"
    and "walk_path (registerEndpoint ep empty_node) path = Reached n ps"
    and "key \<noteq> ep_key (default_method ep)"
  shows "eps_of n key = []"
proof (rule ccontr)
  assume "eps_of n key \<noteq> []"
  then obtain e where "e \<in> set (eps_of n key)" by (cases "eps_of n key") auto
  with path_match_sound_aux [of "[ep]" path n ps e key] assms show False by auto
qed

lemma epID_default [simp]: "epID (default_method ep) = epID ep"
  by (simp add: default_method_def)

lemma candidates_single:
  assumes "[] \<notin> set (path_segments (mrPath (epRequest ep)))" and "unconditional ep"
    and "walk_path (registerEndpoint ep empty_node) (urlPath r) = Reached n ps"
    and "reqMethod r = mrMethod (epRequest (default_method ep))" and "\<not> has_prefix (reqMethod r) ''+''"
  shows "candidates n r = eps_of n (ep_key (default_method ep))"
proof -
  have key: "ep_key (default_method ep) = reqMethod r"
    using assms(2,4) by (simp add: ep_key_def endpointKey_def unconditional_def default_method_def)
  have "''+'' @ reqMethod r @ ''-'' @ h \<noteq> reqMethod r" for h
    using assms(5) by (auto simp: has_prefix_def dest: arg_cong [where f = "take 1"])
  then have "eps_of n (''+'' @ reqMethod r @ ''-'' @ h) = []" for h
    using reached_other_keys [OF assms(1,3)] key by metis
  then show ?thesis by (simp add: candidates_def key)
qed

lemma endpoints_None_eps: "endpoints sn = None \<Longrightarrow> eps_of sn key = []"
  by (simp add: eps_of_def)


definition user_server :: "(verbatim, (nat, Mismatch) InMemoryMatchstore, nat) server_state" where
  "user_server = start_server (registerEndpoint (verbatim_ep ''u'' ''/users/{id}'' ''200'' ''found'') empty_node)
     (NewInMemoryMatchstore 10) 0"


end
